(* ===== verification/Netboot_Prelude.thy ===== *)
theory Netboot_Prelude
  imports Main "HOL-Library.Word"
begin

text \<open>
  The vocabulary every other theory shares: bytes and machine words, the big-endian accessors
  of \<^verbatim>\<open>encoding/binary\<close>, Go slices with their spare capacity, results that carry
  an error or a panic, and the lemmas about them that the component proofs use.
\<close>

unbundle bit_operations_syntax

section \<open>Bytes, words, strings\<close>

type_synonym byte = "8 word"
type_synonym bytes = "byte list"
type_synonym u16 = "16 word"
type_synonym u32 = "32 word"
type_synonym u64 = "64 word"

named_theorems wire \<open>laws of the wire accessors: lengths and inverses\<close>

definition be16 :: "byte \<Rightarrow> byte \<Rightarrow> u16" where
  "be16 a b = push_bit 8 (ucast a) OR ucast b"

definition put16 :: "u16 \<Rightarrow> bytes" where
  "put16 w = [ucast (drop_bit 8 w), ucast w]"

definition be32 :: "byte \<Rightarrow> byte \<Rightarrow> byte \<Rightarrow> byte \<Rightarrow> u32" where
  "be32 a b c d =
     push_bit 24 (ucast a) OR push_bit 16 (ucast b) OR push_bit 8 (ucast c) OR ucast d"

definition put32 :: "u32 \<Rightarrow> bytes" where
  "put32 w = [ucast (drop_bit 24 w), ucast (drop_bit 16 w), ucast (drop_bit 8 w), ucast w]"

lemma length_put16 [simp, wire]: "length (put16 w) = 2"
  by (simp add: put16_def)

lemma length_put32 [simp, wire]: "length (put32 w) = 4"
  by (simp add: put32_def)

lemma be16_put16 [wire]: "be16 (put16 w ! 0) (put16 w ! 1) = w"
  by (rule bit_word_eqI) (auto simp: be16_def put16_def bit_simps not_less)

lemma be32_put32 [wire]: "be32 (put32 w ! 0) (put32 w ! 1) (put32 w ! 2) (put32 w ! 3) = w"
proof (rule bit_word_eqI)
  fix n
  assume "n < LENGTH(32)"
  then consider "n < 8" | "8 \<le> n" "n < 16" | "16 \<le> n" "n < 24" | "24 \<le> n" "n < 32"
    by fastforce
  then show "bit (be32 (put32 w ! 0) (put32 w ! 1) (put32 w ! 2) (put32 w ! 3)) n = bit w n"
    by cases (auto simp: be32_def put32_def bit_simps numeral_2_eq_2 numeral_3_eq_3)
qed

lemma put16_be16 [wire]: "put16 (be16 a b) = [a, b]"
proof -
  have "\<not> bit b (8 + n)" for n
    using bit_imp_le_length [of b "8 + n"] by auto
  then show ?thesis
    by (auto simp: be16_def put16_def bit_simps intro!: bit_word_eqI)
qed

lemma put16_inj: "put16 v = put16 w \<longleftrightarrow> v = w"
  by (metis be16_put16)

text \<open>Go strings are byte sequences; an Isabelle \<^typ>\<open>char\<close> is one byte.\<close>

definition bytes_of :: "string \<Rightarrow> bytes" where
  "bytes_of s = map (\<lambda>c. word_of_nat (of_char c)) s"

definition string_of :: "bytes \<Rightarrow> string" where
  "string_of bs = map (\<lambda>b. char_of (unat b)) bs"

lemma of_char_less: "(of_char c :: nat) < 256"
  by (rule nat_of_char_less_256)

lemma string_of_bytes_of [simp, wire]: "string_of (bytes_of s) = s"
  by (simp add: string_of_def bytes_of_def o_def unat_of_nat of_char_less take_bit_eq_mod)

lemma bytes_of_string_of [simp, wire]: "bytes_of (string_of bs) = bs"
proof -
  have "word_of_nat (of_char (char_of (unat b) :: char)) = b" for b :: byte
    using unsigned_less [of b, where ?'a = nat] by simp
  then show ?thesis
    by (simp add: string_of_def bytes_of_def o_def)
qed

lemma length_bytes_of [simp, wire]: "length (bytes_of s) = length s"
  by (simp add: bytes_of_def)

lemma length_string_of [simp, wire]: "length (string_of bs) = length bs"
  by (simp add: string_of_def)

lemma bytes_of_append [simp, wire]: "bytes_of (s @ t) = bytes_of s @ bytes_of t"
  by (simp add: bytes_of_def)

lemma string_of_append [simp, wire]: "string_of (s @ t) = string_of s @ string_of t"
  by (simp add: string_of_def)

lemma bytes_of_Nil [simp]: "bytes_of [] = []"
  by (simp add: bytes_of_def)

lemma string_of_Nil [simp]: "string_of [] = []"
  by (simp add: string_of_def)

lemma bytes_of_inj: "bytes_of s = bytes_of t \<longleftrightarrow> s = t"
  by (metis string_of_bytes_of)

section \<open>Slices that may be nil\<close>

text \<open>
  Where the code compares a \<^verbatim>\<open>[]byte\<close> with nil, the model keeps nil apart from the empty
  slice: \<^term>\<open>None\<close> is nil, and \<^term>\<open>contents\<close> are the bytes that ranging over, copying
  or measuring the slice sees.
\<close>

type_synonym slice = "bytes option"

fun contents :: "slice \<Rightarrow> bytes" where
  "contents None = []"
| "contents (Some bs) = bs"

section \<open>Lists\<close>

lemma restrict_map_dom [simp]: "m |` dom m = m"
  by (auto simp: restrict_map_def fun_eq_iff domIff)

lemma restrict_map_dom_Diff: "m |` (dom m - A) = m |` (- A)"
  by (auto simp: restrict_map_def fun_eq_iff domIff)

lemma replicate_numeral [simp]: "replicate (numeral k) x = x # replicate (pred_numeral k) x"
  by (simp add: numeral_eq_Suc)

lemma length_2_conv: "length xs = 2 \<longleftrightarrow> (\<exists>a b. xs = [a, b])"
  by (auto simp: numeral_2_eq_2 length_Suc_conv)

lemma length_4_conv: "length xs = 4 \<longleftrightarrow> (\<exists>a b c d. xs = [a, b, c, d])"
  by (auto simp: eval_nat_numeral length_Suc_conv)

lemma unat_byte_of_nat: "n \<le> 255 \<Longrightarrow> unat (word_of_nat n :: byte) = n"
  by (simp add: unat_of_nat take_bit_eq_mod)

lemma unat_byte_less: "unat (b :: byte) < 256"
  using unsigned_less [of b, where ?'a = nat] by simp

text \<open>Every byte, in increasing order.\<close>

definition all_bytes :: bytes where
  "all_bytes = map word_of_nat [0..<256]"

lemma set_all_bytes [simp]: "set all_bytes = UNIV"
proof -
  have "b \<in> set all_bytes" for b :: byte
    unfolding all_bytes_def using unat_byte_less [of b]
    by (auto intro!: image_eqI [where x = "unat b"])
  then show ?thesis by auto
qed

lemma sorted_all_bytes: "sorted all_bytes" and distinct_all_bytes: "distinct all_bytes"
proof -
  have mono: "(word_of_nat i :: byte) \<le> word_of_nat j" if "i \<le> j" "j < 256" for i j
    using that by (simp add: word_le_nat_alt unat_byte_of_nat)
  then show "sorted all_bytes"
    by (simp add: all_bytes_def sorted_iff_nth_mono)
  have "inj_on (\<lambda>n. word_of_nat n :: byte) {0..<256}"
    by (rule inj_on_inverseI [where g = unat]) (simp add: unat_byte_of_nat)
  then show "distinct all_bytes"
    by (simp add: all_bytes_def distinct_map)
qed

section \<open>Results\<close>

text \<open>
  A Go function that returns \<^verbatim>\<open>(value, error)\<close> is modelled with \<^typ>\<open>'e + 'a\<close>, \<^term>\<open>Inl\<close> for
  the error. Where an operation can also panic, the error type is \<open>'e fault\<close>.
\<close>

datatype 'e fault = Panic | Fault 'e

fun bind_res :: "'e + 'a \<Rightarrow> ('a \<Rightarrow> 'e + 'b) \<Rightarrow> 'e + 'b" where
  "bind_res (Inl e) f = Inl e"
| "bind_res (Inr x) f = f x"

lemma bind_res_Inr_iff: "bind_res r f = Inr y \<longleftrightarrow> (\<exists>x. r = Inr x \<and> f x = Inr y)"
  by (cases r) auto

lemma bind_res_Inl_iff:
  "bind_res r f = Inl e \<longleftrightarrow> r = Inl e \<or> (\<exists>x. r = Inr x \<and> f x = Inl e)"
  by (cases r) auto

text \<open>Case expressions over results, as existential conditions.\<close>

named_theorems case_conv \<open>case expressions as conditions on the scrutinee\<close>

lemma case_sum_conv [case_conv]:
  "(case r of Inl e \<Rightarrow> f e | Inr x \<Rightarrow> g x) = y \<longleftrightarrow> (\<exists>e. r = Inl e \<and> f e = y) \<or> (\<exists>x. r = Inr x \<and> g x = y)"
  by (cases r) auto

lemma case_option_conv [case_conv]:
  "(case r of None \<Rightarrow> n | Some x \<Rightarrow> g x) = y \<longleftrightarrow> (r = None \<and> n = y) \<or> (\<exists>x. r = Some x \<and> g x = y)"
  by (cases r) auto

text \<open>What successive reads return, up to the first that fails.\<close>

fun first_failure :: "('e + 'a) list \<Rightarrow> 'e option" where
  "first_failure [] = None"
| "first_failure (Inl e # es) = Some e"
| "first_failure (Inr _ # es) = first_failure es"

lemma first_failure_None: "first_failure es = None \<longleftrightarrow> (\<forall>ev \<in> set es. \<exists>x. ev = Inr x)"
  by (induction es rule: first_failure.induct) auto

lemma first_failure_map_Inr [simp]: "first_failure (map Inr xs) = None"
  by (simp add: first_failure_None)

lemma first_failure_append:
  "first_failure (es @ fs) = (case first_failure es of None \<Rightarrow> first_failure fs | Some e \<Rightarrow> Some e)"
  by (induction es rule: first_failure.induct) auto

text \<open>What a loop sends, read by read.\<close>

lemma sent_per_read:
  assumes "\<exists>outss. sent = before @ concat outss \<and> length outss = n \<and> (\<forall>i < n. outss ! i = [] \<or> P i (outss ! i))"
    and "\<And>i outs. i < n \<Longrightarrow> P i outs \<Longrightarrow> \<forall>x \<in> set outs. Q x"
  shows "\<forall>x \<in> set sent. x \<in> set before \<or> Q x"
proof
  obtain outss where outss: "sent = before @ concat outss" "length outss = n" "\<And>i. i < n \<Longrightarrow> outss ! i = [] \<or> P i (outss ! i)"
    using assms(1) by blast
  fix x assume "x \<in> set sent"
  then consider "x \<in> set before" | i where "i < n" "x \<in> set (outss ! i)"
    using outss(1,2) by (auto simp: in_set_conv_nth [of _ outss])
  then show "x \<in> set before \<or> Q x"
  proof cases
    case 2
    then have "P i (outss ! i)" using outss(3) [OF 2(1)] by auto
    with assms(2) [OF 2(1)] 2(2) show ?thesis by blast
  qed blast
qed

section \<open>Wire formats\<close>

text \<open>
  What a sender and a receiver need of a wire format. \<open>encodes x w\<close>: the sender may write \<open>w\<close> for \<open>x\<close> (an encoder
  can fail, and it can have a choice); \<open>seen x\<close> is what the receiver reads \<open>x\<close> as.
\<close>

locale codec =
  fixes encodes :: "'a \<Rightarrow> 'w \<Rightarrow> bool" and decode :: "'w \<Rightarrow> 'e + 'b" and seen :: "'a \<Rightarrow> 'b"
  assumes decodes: "encodes x w \<Longrightarrow> decode w = Inr (seen x)"
begin

lemma accepted: "encodes x w \<Longrightarrow> decode w \<noteq> Inl e"
  by (simp add: decodes)

lemma unambiguous: "encodes x w \<Longrightarrow> encodes y w \<Longrightarrow> seen x = seen y"
  by (drule decodes, drule decodes, simp)

end

text \<open>A format whose receiver can write again what it read.\<close>

locale stable_codec = codec encodes decode seen
  for encodes :: "'a \<Rightarrow> 'w \<Rightarrow> bool" and decode :: "'w \<Rightarrow> 'e + 'a" and seen :: "'a \<Rightarrow> 'a" +
  assumes encodes_decoded: "decode w = Inr x \<Longrightarrow> \<exists>v. encodes x v"
    and seen_decoded: "decode w = Inr x \<Longrightarrow> seen x = x"
begin

lemma re_encoded: "decode w = Inr x \<Longrightarrow> \<exists>v. encodes x v \<and> decode v = Inr x"
  by (frule seen_decoded, drule encodes_decoded, elim exE, frule decodes, auto)

lemma seen_seen: "encodes x w \<Longrightarrow> seen (seen x) = seen x"
  using decodes seen_decoded by blast

end

end
