(* ===== verification/Dhcp4_Options.thy ===== *)
theory Dhcp4_Options
  imports Netboot_Prelude
begin

text \<open>
  The DHCPv4 option table of \<^verbatim>\<open>dhcp4/options.go\<close>: a Go map from option numbers to
  byte slices, its wire decoder and encoder (with the byte limit that lets options spill into
  the BOOTP \<^verbatim>\<open>sname\<close> and \<^verbatim>\<open>file\<close> fields), and the typed accessors.
\<close>

section \<open>The option table\<close>

abbreviation (input) OptVendorSpecific :: byte where "OptVendorSpecific \<equiv> 43"
abbreviation (input) OptOverload :: byte where "OptOverload \<equiv> 52"
abbreviation (input) OptDHCPMessageType :: byte where "OptDHCPMessageType \<equiv> 53"
abbreviation (input) OptServerIdentifier :: byte where "OptServerIdentifier \<equiv> 54"
abbreviation (input) OptMessage :: byte where "OptMessage \<equiv> 56"
abbreviation (input) OptVendorIdentifier :: byte where "OptVendorIdentifier \<equiv> 60"
abbreviation (input) OptClientSystem :: byte where "OptClientSystem \<equiv> 93"
abbreviation (input) OptUidGuidClientIdentifier :: byte where "OptUidGuidClientIdentifier \<equiv> 97"

text \<open>
  A key may be present with a nil slice, so presence (\<open>m n \<noteq> None\<close>) and \<^verbatim>\<open>o[n] == nil\<close>
  (\<open>opt_at m n = None\<close>) are different questions.
\<close>

type_synonym options = "byte \<Rightarrow> slice option"

datatype opt_error =
    DuplicateOption byte
  | NoLengthByte byte
  | PayloadTruncated byte nat nat
  | NotTerminated
  | InvalidOptionNumber
  | ValueTooLong byte
  | UnwrittenOptions
  | OptionNotPresent
  | OptionWrongSize

definition opt_at :: "options \<Rightarrow> byte \<Rightarrow> slice" where
  "opt_at m n = (case m n of None \<Rightarrow> None | Some v \<Rightarrow> v)"

section \<open>Decoding\<close>

text \<open>
  \<^verbatim>\<open>Unmarshal\<close> stores into the map it is called on, so the model returns the error (if any)
  together with the map as it is left behind.
\<close>

function opts_unmarshal :: "options \<Rightarrow> bytes \<Rightarrow> opt_error option \<times> options" where
  "opts_unmarshal m [] = (Some NotTerminated, m)"
| "opts_unmarshal m (opt # rest) =
     (if opt = 0 then opts_unmarshal m rest
      else if opt = 255 then (None, m)
      else if m opt \<noteq> None \<and> opt \<noteq> OptMessage then (Some (DuplicateOption opt), m)
      else case rest of
          [] \<Rightarrow> (Some (NoLengthByte opt), m)
        | len # payload \<Rightarrow>
            (let l = unat len in
             if length payload < l then (Some (PayloadTruncated opt l (length payload)), m)
             else opts_unmarshal (m(opt \<mapsto> Some (take l payload))) (drop l payload)))"
  by pat_completeness auto
termination
  by (relation "measure (\<lambda>(m, bs). length bs)") auto

section \<open>Encoding\<close>

text \<open>
  The keys, sorted: the code collects them in the map's iteration order and sorts, which gives
  the same list whatever the order was (lemma \<open>sort_keys_any_order\<close>).
\<close>

definition opt_keys :: "options \<Rightarrow> byte list" where
  "opt_keys m = filter (\<lambda>n. m n \<noteq> None) all_bytes"

fun write_options ::
  "options \<Rightarrow> bool \<Rightarrow> byte list \<Rightarrow> int \<Rightarrow> bytes \<Rightarrow> options \<Rightarrow> opt_error + (int \<times> bytes \<times> options)"
where
  "write_options m skip52 [] nBytes w ret = Inr (nBytes, w, ret)"
| "write_options m skip52 (n # ks) nBytes w ret =
     (let opt = opt_at m n; len = length (contents opt) in
      if len > 255 then Inl (ValueTooLong n)
      else if nBytes > 0 \<and> (skip52 \<and> n = 52 \<or> int len + 3 > nBytes)
        then write_options m skip52 ks nBytes w (ret(n \<mapsto> opt))
      else write_options m skip52 ks (nBytes - (int len + 2))
             (w @ [n, word_of_nat len] @ contents opt) ret)"

definition marshal_limited :: "options \<Rightarrow> int \<Rightarrow> bool \<Rightarrow> opt_error + (bytes \<times> options)" where
  "marshal_limited m nBytes skip52 =
     (let ks = opt_keys m in
      if \<exists>n \<in> set ks. n = 0 \<or> n = 255 then Inl InvalidOptionNumber
      else case write_options m skip52 ks nBytes [] Map.empty of
          Inl e \<Rightarrow> Inl e
        | Inr (nB, w, ret) \<Rightarrow> Inr (w @ [255] @ replicate (nat (nB - 1)) 0, ret))"

definition opts_marshal :: "options \<Rightarrow> opt_error + bytes" where
  "opts_marshal m =
     (case marshal_limited m 0 False of
        Inl e \<Rightarrow> Inl e
      | Inr (w, opts) \<Rightarrow> if opt_keys opts \<noteq> [] then Inl UnwrittenOptions else Inr w)"

definition opts_copy :: "options \<Rightarrow> options" where
  "opts_copy m = foldr (\<lambda>k ret. ret(k \<mapsto> opt_at m k)) (opt_keys m) Map.empty"

section \<open>Typed accessors\<close>

definition opt_bytes :: "options \<Rightarrow> byte \<Rightarrow> opt_error + bytes" where
  "opt_bytes m n = (case opt_at m n of None \<Rightarrow> Inl OptionNotPresent | Some bs \<Rightarrow> Inr bs)"

definition opt_string :: "options \<Rightarrow> byte \<Rightarrow> opt_error + string" where
  "opt_string m n = bind_res (opt_bytes m n) (\<lambda>bs. Inr (string_of bs))"

definition opt_byte :: "options \<Rightarrow> byte \<Rightarrow> opt_error + byte" where
  "opt_byte m n = bind_res (opt_bytes m n)
     (\<lambda>bs. if length bs \<noteq> 1 then Inl OptionWrongSize else Inr (bs ! 0))"

definition opt_uint16 :: "options \<Rightarrow> byte \<Rightarrow> opt_error + u16" where
  "opt_uint16 m n = bind_res (opt_bytes m n)
     (\<lambda>bs. if length bs \<noteq> 2 then Inl OptionWrongSize else Inr (be16 (bs ! 0) (bs ! 1)))"

definition opt_uint32 :: "options \<Rightarrow> byte \<Rightarrow> opt_error + u32" where
  "opt_uint32 m n = bind_res (opt_bytes m n)
     (\<lambda>bs. if length bs \<noteq> 4 then Inl OptionWrongSize
           else Inr (be32 (bs ! 0) (bs ! 1) (bs ! 2) (bs ! 3)))"

text \<open>The conversion \<^verbatim>\<open>int32(...)\<close> reads the same 32 bits as two's complement.\<close>

definition opt_int32 :: "options \<Rightarrow> byte \<Rightarrow> opt_error + int" where
  "opt_int32 m n = bind_res (opt_bytes m n)
     (\<lambda>bs. if length bs \<noteq> 4 then Inl OptionWrongSize
           else Inr (sint (be32 (bs ! 0) (bs ! 1) (bs ! 2) (bs ! 3))))"

fun groups4 :: "bytes \<Rightarrow> bytes list" where
  "groups4 [] = []"
| "groups4 (b # bs) = take 4 (b # bs) # groups4 (drop 4 (b # bs))"

definition opt_ips :: "options \<Rightarrow> byte \<Rightarrow> opt_error + bytes list" where
  "opt_ips m n = bind_res (opt_bytes m n)
     (\<lambda>bs. if length bs < 4 \<or> length bs mod 4 \<noteq> 0 then Inl OptionWrongSize
           else Inr (groups4 bs))"

definition opt_ip :: "options \<Rightarrow> byte \<Rightarrow> opt_error + bytes" where
  "opt_ip m n = bind_res (opt_ips m n)
     (\<lambda>ips. if length ips \<noteq> 1 then Inl OptionWrongSize else Inr (ips ! 0))"

definition opt_ipmask :: "options \<Rightarrow> byte \<Rightarrow> opt_error + bytes" where
  "opt_ipmask m n =
     (case opt_at m n of
        None \<Rightarrow> Inl OptionNotPresent
      | Some bs \<Rightarrow> if length bs \<noteq> 4 then Inl OptionWrongSize else Inr bs)"

section \<open>The key list\<close>

lemma set_opt_keys [simp]: "set (opt_keys m) = dom m"
  by (auto simp: opt_keys_def)

lemma sorted_opt_keys: "sorted (opt_keys m)" and distinct_opt_keys [simp]: "distinct (opt_keys m)"
  by (simp_all add: opt_keys_def sorted_all_bytes distinct_all_bytes sorted_filter [of "\<lambda>x. x", simplified])

lemma opt_keys_Nil_iff [simp]: "opt_keys m = [] \<longleftrightarrow> m = Map.empty"
  by (metis dom_eq_empty_conv set_empty set_opt_keys)

lemma sort_keys_any_order:
  assumes "distinct ks" and "set ks = dom m"
  shows "sort ks = opt_keys m"
  using assms by (intro sorted_distinct_set_unique) (simp_all add: sorted_opt_keys)

lemma opt_keys_eqI: "sorted ks \<Longrightarrow> distinct ks \<Longrightarrow> set ks = dom m \<Longrightarrow> opt_keys m = ks"
  by (metis sort_keys_any_order sorted_sort_id)

section \<open>What the encoder writes\<close>

definition enc_opt :: "byte \<Rightarrow> bytes \<Rightarrow> bytes" where
  "enc_opt n v = [n, word_of_nat (length v)] @ v"

definition enc_opts :: "options \<Rightarrow> byte list \<Rightarrow> bytes" where
  "enc_opts m ks = concat (map (\<lambda>n. enc_opt n (contents (opt_at m n))) ks)"

definition stored :: "options \<Rightarrow> byte list \<Rightarrow> options" where
  "stored m ks = (\<lambda>n. if n \<in> set ks then Some (Some (contents (opt_at m n))) else None)"

definition left_out :: "options \<Rightarrow> byte list \<Rightarrow> options" where
  "left_out m ks = (\<lambda>n. if n \<in> set ks then Some (opt_at m n) else None)"

definition short_values :: "options \<Rightarrow> byte list \<Rightarrow> bool" where
  "short_values m ks \<longleftrightarrow> (\<forall>k \<in> set ks. length (contents (opt_at m k)) \<le> 255)"

definition enc_size :: "options \<Rightarrow> byte list \<Rightarrow> nat" where
  "enc_size m ks = length (enc_opts m ks)"

named_theorems enc_simps \<open>how the encoding follows the key list\<close>

lemma enc_opts_simps [enc_simps]:
  "enc_opts m [] = []"
  "enc_opts m (k # ks) = enc_opt k (contents (opt_at m k)) @ enc_opts m ks"
  "enc_size m [] = 0"
  "enc_size m (k # ks) = length (contents (opt_at m k)) + 2 + enc_size m ks"
  "short_values m []"
  "short_values m (k # ks) \<longleftrightarrow> length (contents (opt_at m k)) \<le> 255 \<and> short_values m ks"
  by (simp_all add: enc_opts_def enc_size_def enc_opt_def short_values_def)

text \<open>Which keys the limit lets through; with no limit, all of them.\<close>

fun fitting :: "options \<Rightarrow> bool \<Rightarrow> byte list \<Rightarrow> int \<Rightarrow> byte list" where
  "fitting m skip52 [] nBytes = []"
| "fitting m skip52 (n # ks) nBytes =
     (let len = length (contents (opt_at m n)) in
      if nBytes > 0 \<and> (skip52 \<and> n = 52 \<or> int len + 3 > nBytes)
      then fitting m skip52 ks nBytes
      else n # fitting m skip52 ks (nBytes - (int len + 2)))"

lemma set_fitting: "set (fitting m sk ks N) \<subseteq> set ks"
  by (induction m sk ks N rule: fitting.induct) (auto simp: Let_def)

lemma distinct_fitting: "distinct ks \<Longrightarrow> distinct (fitting m sk ks N)"
  by (induction m sk ks N rule: fitting.induct) (auto simp: Let_def dest: subsetD [OF set_fitting])

lemma fitting_unlimited: "N \<le> 0 \<Longrightarrow> fitting m sk ks N = ks"
  by (induction m sk ks N rule: fitting.induct) (auto simp: Let_def)

lemma fitting_room: "N > 0 \<Longrightarrow> N - int (enc_size m (fitting m sk ks N)) > 0"
  by (induction m sk ks N rule: fitting.induct) (auto simp: Let_def enc_simps algebra_simps)

lemma fitting_skips_52: "N > 0 \<Longrightarrow> 52 \<notin> set (fitting m True ks N)"
  by (induction m True ks N rule: fitting.induct) (auto simp: Let_def)

lemma write_options_eq:
  assumes "short_values m ks" and "distinct ks"
  shows "write_options m sk ks N w ret =
    Inr (N - int (enc_size m (fitting m sk ks N)), w @ enc_opts m (fitting m sk ks N),
         ret ++ left_out m (filter (\<lambda>n. n \<notin> set (fitting m sk ks N)) ks))"
  using assms
proof (induction m sk ks N w ret rule: write_options.induct)
  case (1 m sk N w ret)
  then show ?case by (simp add: enc_simps left_out_def map_add_def)
next
  case (2 m sk n ks N w ret)
  let ?len = "length (contents (opt_at m n))"
  have n: "n \<notin> set ks" and len: "\<not> ?len > 255" and ks: "short_values m ks" "distinct ks"
    using "2.prems" by (auto simp: enc_simps)
  show ?case
  proof (cases "N > 0 \<and> (sk \<and> n = 52 \<or> int ?len + 3 > N)")
    case True
    have n': "n \<notin> set (fitting m sk ks N)"
      using n set_fitting by blast
    note IH = "2.IH"(1) [OF refl refl len True ks]
    have "ret(n \<mapsto> opt_at m n) ++ left_out m (filter (\<lambda>k. k \<notin> set (fitting m sk ks N)) ks) =
      ret ++ left_out m (filter (\<lambda>k. k \<notin> set (fitting m sk ks N)) (n # ks))"
      using n n' by (auto simp: left_out_def map_add_def fun_eq_iff)
    with True len n' IH show ?thesis
      by (simp add: fun_upd_def)
  next
    case False
    have "filter (\<lambda>k. k \<noteq> n \<and> k \<notin> A) ks = filter (\<lambda>k. k \<notin> A) ks" for A
      using n by (auto intro!: filter_cong)
    with False len "2.IH"(2) [OF refl refl len False ks] show ?thesis
      by (auto simp: Let_def enc_simps enc_opt_def algebra_simps)
  qed
qed

lemma write_options_error:
  "\<not> short_values m ks \<Longrightarrow> \<exists>n \<in> set ks. write_options m sk ks N w ret = Inl (ValueTooLong n)"
  by (induction m sk ks N w ret rule: write_options.induct) (auto simp: enc_simps Let_def)

section \<open>Decoding what was encoded\<close>

definition legal_key :: "byte \<Rightarrow> bool" where
  "legal_key n \<longleftrightarrow> n \<noteq> 0 \<and> n \<noteq> 255"

text \<open>One encoded option in front is stored, and the decoder goes on after it.\<close>

lemma opts_unmarshal_enc_opt:
  assumes "legal_key n" and "length v \<le> 255" and "acc n = None \<or> n = OptMessage"
  shows "opts_unmarshal acc (enc_opt n v @ rest) = opts_unmarshal (acc(n \<mapsto> Some v)) rest"
  using assms by (auto simp: enc_opt_def legal_key_def unat_byte_of_nat)

lemma opts_unmarshal_pad: "opts_unmarshal acc (replicate k 0 @ bs) = opts_unmarshal acc bs"
  by (induction k) simp_all

lemma opts_unmarshal_enc_opts:
  assumes "distinct ks" and "\<forall>k \<in> set ks. legal_key k \<and> acc k = None" and "short_values m ks"
  shows "opts_unmarshal acc (enc_opts m ks @ 255 # pad) = (None, acc ++ stored m ks)"
  using assms
proof (induction ks arbitrary: acc)
  case Nil
  then show ?case by (simp add: enc_simps stored_def map_add_def)
next
  case (Cons k ks)
  let ?v = "contents (opt_at m k)"
  have "opts_unmarshal acc (enc_opts m (k # ks) @ 255 # pad) =
      opts_unmarshal (acc(k \<mapsto> Some ?v)) (enc_opts m ks @ 255 # pad)"
    using Cons.prems by (simp add: enc_simps opts_unmarshal_enc_opt del: opts_unmarshal.simps)
  also have "\<dots> = (None, acc(k \<mapsto> Some ?v) ++ stored m ks)"
    using Cons.prems by (intro Cons.IH) (auto simp: enc_simps)
  also have "acc(k \<mapsto> Some ?v) ++ stored m ks = acc ++ stored m (k # ks)"
    by (auto simp: stored_def map_add_def fun_eq_iff)
  finally show ?case .
qed

section \<open>The limited encoder\<close>

definition encodable :: "options \<Rightarrow> bool" where
  "encodable m \<longleftrightarrow> (\<forall>n \<in> dom m. legal_key n \<and> length (contents (opt_at m n)) \<le> 255)"

definition written :: "options \<Rightarrow> bool \<Rightarrow> int \<Rightarrow> byte list" where
  "written m skip52 nBytes = fitting m skip52 (opt_keys m) nBytes"

lemma encodable_short: "encodable m \<Longrightarrow> set ks \<subseteq> dom m \<Longrightarrow> short_values m ks"
  by (auto simp: encodable_def short_values_def)

lemma marshal_limited_ok:
  assumes "encodable m"
  shows "marshal_limited m N sk =
    Inr (enc_opts m (written m sk N) @ 255 # replicate (nat (N - int (enc_size m (written m sk N)) - 1)) 0,
         left_out m (filter (\<lambda>n. n \<notin> set (written m sk N)) (opt_keys m)))"
proof -
  have "\<not> (\<exists>n \<in> set (opt_keys m). n = 0 \<or> n = 255)"
    using assms by (auto simp: encodable_def legal_key_def domI)
  with write_options_eq [of m "opt_keys m" sk N "[]" Map.empty] assms show ?thesis
    by (simp add: marshal_limited_def written_def encodable_short Let_def)
qed

lemma marshal_limited_error: "marshal_limited m N sk \<noteq> Inl UnwrittenOptions"
proof (cases "short_values m (opt_keys m)")
  case True
  then show ?thesis
    by (simp add: marshal_limited_def write_options_eq Let_def)
next
  case False
  from write_options_error [OF this, of sk N "[]" Map.empty] show ?thesis
    by (auto simp: marshal_limited_def Let_def)
qed

lemma marshal_limited_iff: "(\<exists>r. marshal_limited m N sk = Inr r) \<longleftrightarrow> encodable m"
proof
  assume "\<exists>r. marshal_limited m N sk = Inr r"
  then have keys: "\<forall>n \<in> dom m. legal_key n" and w: "\<exists>r. write_options m sk (opt_keys m) N [] Map.empty = Inr r"
    by (auto simp: marshal_limited_def legal_key_def split: if_splits sum.splits)
  from w have "short_values m (opt_keys m)"
    by (metis Inl_Inr_False write_options_error)
  with keys show "encodable m"
    by (auto simp: encodable_def short_values_def)
qed (simp add: marshal_limited_ok)

lemma set_written: "set (written m sk N) \<subseteq> dom m"
  using set_fitting [of m sk "opt_keys m" N] by (simp add: written_def)

lemma distinct_written [simp]: "distinct (written m sk N)"
  by (simp add: written_def distinct_fitting)

text \<open>The table a decoder can see: a nil value travels as an empty one.\<close>

definition filled :: "options \<Rightarrow> options" where
  "filled m = (\<lambda>n. map_option (\<lambda>v. Some (contents v)) (m n))"

lemma dom_filled [simp]: "dom (filled m) = dom m"
  by (auto simp: filled_def)

lemma filled_idem: "filled m = m \<longleftrightarrow> None \<notin> ran m"
proof
  assume eq: "filled m = m"
  show "None \<notin> ran m"
  proof
    assume "None \<in> ran m"
    then obtain n where "m n = Some None" by (auto simp: ran_def)
    with fun_cong [OF eq, of n] show False by (simp add: filled_def)
  qed
next
  assume "None \<notin> ran m"
  then have "filled m n = m n" for n
    by (cases "m n"; cases "the (m n)") (auto simp: filled_def dest: ranI)
  then show "filled m = m" ..
qed

lemma stored_alt: "set ks \<subseteq> dom m \<Longrightarrow> stored m ks = filled m |` set ks"
  by (auto simp: stored_def filled_def restrict_map_def opt_at_def fun_eq_iff split: option.splits)

lemma stored_opt_keys: "stored m (opt_keys m) = filled m"
  by (simp add: stored_alt restrict_map_def filled_def fun_eq_iff domIff)

lemma left_out_alt: "set ks \<subseteq> dom m \<Longrightarrow> left_out m ks = m |` set ks"
  by (auto simp: left_out_def restrict_map_def opt_at_def fun_eq_iff split: option.splits)

lemma marshal_limited_decodes:
  assumes "marshal_limited m N sk = Inr (w, left)"
  shows "dom acc \<inter> set (written m sk N) = {} \<Longrightarrow> opts_unmarshal acc (w @ junk) = (None, acc ++ filled m |` set (written m sk N))"
    and "left = m |` (dom m - set (written m sk N))"
proof -
  let ?ks = "written m sk N"
  have enc: "encodable m"
    using assms(1) marshal_limited_iff by blast
  then have w: "w @ junk = enc_opts m ?ks @ 255 #
      (replicate (nat (N - int (enc_size m ?ks) - 1)) 0 @ junk)"
    using assms(1) by (simp add: marshal_limited_ok)
  have "\<forall>k \<in> set ?ks. legal_key k"
    using enc set_written [of m sk N] by (auto simp: encodable_def)
  then show "opts_unmarshal acc (w @ junk) = (None, acc ++ filled m |` set ?ks)"
    if "dom acc \<inter> set ?ks = {}"
    unfolding w using that enc set_written [of m sk N]
    by (subst opts_unmarshal_enc_opts) (auto simp: encodable_short stored_alt simp del: opts_unmarshal.simps)
  have "left = left_out m (filter (\<lambda>n. n \<notin> set ?ks) (opt_keys m))"
    using assms(1) enc by (simp add: marshal_limited_ok)
  also have "\<dots> = m |` (dom m - set ?ks)"
    by (subst left_out_alt) (auto simp: set_diff_eq)
  finally show "left = m |` (dom m - set ?ks)" .
qed

lemma marshal_limited_length:
  assumes "marshal_limited m N skip52 = Inr (w, left)" and "0 < N"
  shows "int (length w) = N"
proof -
  have "encodable m"
    using assms(1) marshal_limited_iff by blast
  with assms fitting_room [of N m skip52 "opt_keys m"] show ?thesis
    by (auto simp: marshal_limited_ok written_def enc_size_def)
qed

lemma opts_marshal_encodable:
  assumes "encodable m"
  shows "\<exists>bs. opts_marshal m = Inr bs \<and> opts_unmarshal Map.empty bs = (None, filled m)"
proof -
  obtain w left where run: "marshal_limited m 0 False = Inr (w, left)"
    using assms marshal_limited_iff by (metis surj_pair)
  have all: "set (written m False 0) = dom m"
    by (simp add: written_def fitting_unlimited)
  have "left = Map.empty" and "opts_unmarshal Map.empty w = (None, filled m)"
    using marshal_limited_decodes(1) [OF run, of Map.empty "[]"] marshal_limited_decodes(2) [OF run] all
    by (simp_all add: restrict_map_def filled_def fun_eq_iff domIff)
  with run show ?thesis
    by (simp add: opts_marshal_def del: opts_unmarshal.simps)
qed

lemma opts_marshal_not_encodable:
  assumes "\<not> encodable m"
  shows "\<exists>e. opts_marshal m = Inl e \<and> e \<noteq> UnwrittenOptions"
proof -
  obtain e where "marshal_limited m 0 False = Inl e" and "e \<noteq> UnwrittenOptions"
    using assms marshal_limited_iff [of m 0 False] marshal_limited_error by (metis sumE)
  then show ?thesis
    by (simp add: opts_marshal_def)
qed

lemmas opts_marshal_correct = opts_marshal_encodable opts_marshal_not_encodable

section \<open>Properties of the codec\<close>

text \<open>
  C29. The limited encoder fills its field exactly: whenever \<^verbatim>\<open>marshalLimited\<close> is given a
  positive limit and succeeds, it has written exactly that many bytes, end marker and padding
  included, so it never overruns the fixed-size BOOTP field it writes to.
\<close>

theorem marshal_limited_exact_size:
  assumes "marshal_limited m N skip52 = Inr (w, left)" and "0 < N"
  shows "int (length w) = N"
  using assms by (rule marshal_limited_length)

theorem marshal_limited_exact_size_witness:
  "\<exists>w left. marshal_limited [52 \<mapsto> Some [1], 66 \<mapsto> Some [7, 7]] 8 True = Inr (w, left) \<and>
     int (length w) = 8 \<and> left = [52 \<mapsto> Some [1]]"
proof -
  have "opt_keys [52 \<mapsto> Some [1], 66 \<mapsto> Some [7, 7]] = [52, 66]"
    by (rule opt_keys_eqI) auto
  then have "marshal_limited [52 \<mapsto> Some [1], 66 \<mapsto> Some [7, 7]] 8 True =
      Inr ([66, 2, 7, 7, 255, 0, 0, 0], [52 \<mapsto> Some [1]])"
    by (simp add: marshal_limited_def opt_at_def Let_def)
  with marshal_limited_exact_size [OF this] show ?thesis by auto
qed

text \<open>
  C28. Spilling loses nothing: what a limited encode writes decodes (in front of any other
  bytes, into any table with none of the written keys) to exactly the options it wrote, the
  options it returns as left over are the others with their values untouched, and option 52,
  which says where the spilled options are, is never among the spilled ones.
\<close>

theorem marshal_limited_partition:
  assumes "marshal_limited m N skip52 = Inr (w, left)"
  shows "\<exists>ks \<subseteq> dom m. left = m |` (dom m - ks) \<and> (0 < N \<and> skip52 \<longrightarrow> 52 \<notin> ks) \<and>
    (\<forall>acc junk. dom acc \<inter> ks = {} \<longrightarrow> opts_unmarshal acc (w @ junk) = (None, acc ++ filled m |` ks))"
proof (intro exI conjI allI impI)
  show "left = m |` (dom m - set (written m skip52 N))"
    using marshal_limited_decodes(2) [OF assms] .
  show "opts_unmarshal acc (w @ junk) = (None, acc ++ filled m |` set (written m skip52 N))"
    if "dom acc \<inter> set (written m skip52 N) = {}" for acc junk
    using marshal_limited_decodes(1) [OF assms that] .
qed (use set_written fitting_skips_52 in \<open>auto simp: written_def\<close>)

theorem marshal_limited_partition_witness:
  "\<exists>w left ks. marshal_limited [52 \<mapsto> Some [1], 66 \<mapsto> Some [7, 7]] 8 True = Inr (w, left) \<and>
     left = [52 \<mapsto> Some [1], 66 \<mapsto> Some [7, 7]] |` ({52, 66} - ks) \<and> 52 \<notin> ks"
proof -
  let ?m = "[52 \<mapsto> Some [1], 66 \<mapsto> Some [7, 7 :: byte]]"
  have "encodable ?m"
    by (auto simp: encodable_def legal_key_def opt_at_def)
  then obtain w left where run: "marshal_limited ?m 8 True = Inr (w, left)"
    using marshal_limited_iff by (metis surj_pair)
  from marshal_limited_partition [OF run]
  obtain ks where "left = ?m |` (dom ?m - ks)" and "0 < (8 :: int) \<and> True \<longrightarrow> 52 \<notin> ks"
    by blast
  moreover have "dom ?m = {52, 66}"
    by auto
  ultimately show ?thesis
    using run by (intro exI [of _ w] exI [of _ left] exI [of _ ks]) simp
qed

text \<open>
  With no limit the encoder leaves nothing over (the "please file a bug" branch of
  \<^verbatim>\<open>Marshal\<close> is dead), it succeeds exactly on tables whose keys avoid the two reserved
  numbers and whose values have at most 255 bytes, and decoding what it wrote gives the table
  back, a nil value having become an empty one.
\<close>

theorem opts_marshal_roundtrip:
  "(\<exists>bs. opts_marshal m = Inr bs) = encodable m \<and> opts_marshal m \<noteq> Inl UnwrittenOptions \<and>
   (\<forall>bs. opts_marshal m = Inr bs \<longrightarrow> opts_unmarshal Map.empty bs = (None, filled m))"
  by (cases "encodable m") (use opts_marshal_correct [of m] in auto)

theorem opts_marshal_roundtrip_witness:
  "\<exists>bs. opts_marshal [66 \<mapsto> None, 12 \<mapsto> Some [3]] = Inr bs \<and>
     opts_unmarshal Map.empty bs = (None, [66 \<mapsto> Some [], 12 \<mapsto> Some [3]])"
proof -
  let ?m = "[66 \<mapsto> None, 12 \<mapsto> Some [3 :: byte]]"
  have "encodable ?m"
    by (auto simp: encodable_def legal_key_def opt_at_def)
  moreover have "filled ?m = [66 \<mapsto> Some [], 12 \<mapsto> Some [3]]"
    by (auto simp: filled_def fun_eq_iff)
  ultimately show ?thesis
    using opts_marshal_roundtrip [of ?m] by auto
qed

text \<open>What the decoder stores: only legal keys, and values a length byte can count.\<close>

lemma opts_unmarshal_encodable:
  "opts_unmarshal m bs = (e, m') \<Longrightarrow> encodable m \<Longrightarrow> encodable m'"
proof (induction m bs rule: opts_unmarshal.induct)
  case (2 m opt rest)
  show ?case
  proof (cases "opt = 0 \<or> opt = 255 \<or> m opt \<noteq> None \<and> opt \<noteq> OptMessage \<or> rest = []")
    case True
    with 2 show ?thesis by (auto split: if_splits)
  next
    case False
    then obtain len payload where rest: "rest = len # payload" by (cases rest) auto
    have "encodable (m(opt \<mapsto> Some (take (unat len) payload)))"
      using "2.prems"(2) False unat_byte_less [of len]
      by (auto simp: encodable_def legal_key_def opt_at_def)
    with "2.IH"(2) [of len payload "unat len"] False rest "2.prems" show ?thesis
      by (auto simp: Let_def fun_upd_def split: if_splits)
  qed
qed simp

lemma opts_unmarshal_no_nil:
  "opts_unmarshal m bs = (e, m') \<Longrightarrow> None \<notin> ran m \<Longrightarrow> None \<notin> ran m'"
proof (induction m bs rule: opts_unmarshal.induct)
  case (2 m opt rest)
  show ?case
  proof (cases "opt = 0 \<or> opt = 255 \<or> m opt \<noteq> None \<and> opt \<noteq> OptMessage \<or> rest = []")
    case True
    with 2 show ?thesis by (auto split: if_splits)
  next
    case False
    then obtain len payload where rest: "rest = len # payload" by (cases rest) auto
    have "None \<notin> ran (m(opt \<mapsto> Some (take (unat len) payload)))"
      using "2.prems"(2) by (auto simp: ran_def split: if_splits)
    with "2.IH"(2) [of len payload "unat len"] False rest "2.prems" show ?thesis
      by (auto simp: Let_def fun_upd_def split: if_splits)
  qed
qed simp

lemmas decoded_options = opts_unmarshal_encodable opts_unmarshal_no_nil

lemma encodable_empty [simp]: "encodable Map.empty"
  by (simp add: encodable_def)

text \<open>
  Decoding then encoding is stable: any byte sequence \<^verbatim>\<open>Unmarshal\<close> accepts yields a table
  that \<^verbatim>\<open>Marshal\<close> can encode, and the canonical encoding decodes to the very same table.
\<close>

theorem opts_unmarshal_canonical:
  assumes "opts_unmarshal Map.empty bs = (None, m)"
  shows "\<exists>ws. opts_marshal m = Inr ws \<and> opts_unmarshal Map.empty ws = (None, m)"
proof -
  have "encodable m" and "None \<notin> ran m"
    using decoded_options [OF assms] by auto
  with opts_marshal_correct show ?thesis
    by (metis filled_idem)
qed

theorem opts_unmarshal_canonical_witness:
  "\<exists>ws. opts_unmarshal Map.empty [0, 66, 1, 7, 12, 0, 255] = (None, [66 \<mapsto> Some [7], 12 \<mapsto> Some []]) \<and>
     opts_marshal [66 \<mapsto> Some [7], 12 \<mapsto> Some []] = Inr ws \<and>
     opts_unmarshal Map.empty ws = (None, [66 \<mapsto> Some [7], 12 \<mapsto> Some []])"
proof -
  have "opts_unmarshal Map.empty [0, 66, 1, 7, 12, 0, 255] = (None, [66 \<mapsto> Some [7], 12 \<mapsto> Some []])"
    by simp
  with opts_unmarshal_canonical [OF this] show ?thesis by blast
qed

text \<open>
  The duplicate check: an option number already in the table makes the decode fail, unless
  it is number 56, whose later value replaces the earlier one.
\<close>

theorem opts_unmarshal_duplicate:
  assumes "legal_key n" and "length v \<le> 255" and "m n \<noteq> None"
  shows "opts_unmarshal m (enc_opt n v @ rest) =
    (if n = OptMessage then opts_unmarshal (m(n \<mapsto> Some v)) rest else (Some (DuplicateOption n), m))"
proof (cases "n = OptMessage")
  case True
  with assms show ?thesis
    by (simp add: opts_unmarshal_enc_opt del: opts_unmarshal.simps)
next
  case False
  with assms show ?thesis
    by (auto simp: enc_opt_def legal_key_def)
qed

theorem opts_unmarshal_duplicate_witness:
  "legal_key 12 \<and> length [1, 2 :: byte] \<le> 255 \<and> ([12 \<mapsto> Some []] :: options) 12 \<noteq> None \<and>
   opts_unmarshal [12 \<mapsto> Some []] (enc_opt 12 [1, 2] @ [255]) =
     (Some (DuplicateOption 12), [12 \<mapsto> Some []])"
  using opts_unmarshal_duplicate [of 12 "[1, 2]" "[12 \<mapsto> Some []]" "[255]"]
  by (simp add: legal_key_def del: opts_unmarshal.simps)

section \<open>The table as a wire format\<close>

definition decode_options :: "bytes \<Rightarrow> opt_error + options" where
  "decode_options bs = (case opts_unmarshal Map.empty bs of (None, m) \<Rightarrow> Inr m | (Some e, _) \<Rightarrow> Inl e)"

lemma decode_options_Inr: "decode_options bs = Inr m \<longleftrightarrow> opts_unmarshal Map.empty bs = (None, m)"
  by (auto simp: decode_options_def split: prod.splits option.splits)

interpretation option_table: stable_codec "\<lambda>m bs. opts_marshal m = Inr bs" decode_options filled
proof
  show "decode_options w = Inr (filled x)" if "opts_marshal x = Inr w" for x w
    using opts_marshal_correct [of x] that by (cases "encodable x") (auto simp: decode_options_Inr)
  show "\<exists>v. opts_marshal x = Inr v" "filled x = x" if "decode_options w = Inr x" for x w
    using decoded_options [OF that [unfolded decode_options_Inr]] opts_marshal_correct [of x] filled_idem by auto
qed

section \<open>Accessors and copies\<close>

lemma opts_copy_eq: "opts_copy m = m"
proof -
  have "foldr (\<lambda>k ret. ret(k \<mapsto> opt_at m k)) ks Map.empty = left_out m ks" for ks
    by (induction ks) (auto simp: left_out_def fun_eq_iff)
  then show ?thesis
    using left_out_alt [of "opt_keys m" m]
    by (simp add: opts_copy_def restrict_map_def fun_eq_iff domIff)
qed

lemma concat_groups4: "concat (groups4 bs) = bs"
  by (induction bs rule: groups4.induct) (auto simp: append_take_drop_id)

lemma groups4_concat: "\<forall>g \<in> set gs. length g = 4 \<Longrightarrow> groups4 (concat gs) = gs"
proof (induction gs)
  case (Cons g gs)
  then obtain a b c d where "g = [a, b, c, d]"
    by (metis length_4_conv list.set_intros(1))
  with Cons show ?case by simp
qed simp

lemma groups4_length: "length bs mod 4 = 0 \<Longrightarrow> g \<in> set (groups4 bs) \<Longrightarrow> length g = 4"
proof (induction bs rule: groups4.induct)
  case (2 b bs)
  have "Suc (length bs) mod 4 = 0"
    using "2.prems" by simp
  then have "3 \<le> length bs" and "(length bs - 3) mod 4 = 0"
    by presburger+
  with 2 show ?case by auto
qed simp

text \<open>
  The list-of-addresses accessor reads exactly the options that are a non-empty
  concatenation of 4-byte addresses, and gives those addresses in order.
\<close>

theorem opt_ips_iff:
  "opt_ips m n = Inr ips \<longleftrightarrow>
     ips \<noteq> [] \<and> (\<forall>ip \<in> set ips. length ip = 4) \<and> opt_at m n = Some (concat ips)"
proof
  assume "opt_ips m n = Inr ips"
  then obtain bs where bs: "opt_at m n = Some bs" "4 \<le> length bs" "length bs mod 4 = 0" "ips = groups4 bs"
    by (auto simp: opt_ips_def opt_bytes_def bind_res_Inr_iff split: option.splits if_splits)
  then have "concat ips = bs" and "\<forall>ip \<in> set ips. length ip = 4"
    using groups4_length [OF bs(3)] by (simp_all add: concat_groups4 del: groups4.simps)
  then show "ips \<noteq> [] \<and> (\<forall>ip \<in> set ips. length ip = 4) \<and> opt_at m n = Some (concat ips)"
    using bs(1,2) by auto
next
  assume ips: "ips \<noteq> [] \<and> (\<forall>ip \<in> set ips. length ip = 4) \<and> opt_at m n = Some (concat ips)"
  then have "length (concat ips) = length ips * 4"
    by (simp add: length_concat sum_list_triv cong: map_cong)
  moreover have "groups4 (concat ips) = ips"
    using ips by (simp add: groups4_concat)
  ultimately show "opt_ips m n = Inr ips"
    using ips by (cases ips) (auto simp: opt_ips_def opt_bytes_def simp del: groups4.simps)
qed

theorem opt_ips_iff_witness:
  "opt_ips [1 \<mapsto> Some [1, 2, 3, 4, 5, 6, 7, 8]] 1 = Inr [[1, 2, 3, 4], [5, 6, 7, 8]]"
  unfolding opt_ips_iff by (simp add: opt_at_def)

end
