(* ===== verification/Go_Std.thy ===== *)
theory Go_Std
  imports Netboot_Prelude
begin

text \<open>
  The parts of Go's standard library whose results the program's behaviour depends on:
  decimal formatting and parsing (\<^verbatim>\<open>strconv\<close>, \<^verbatim>\<open>%d\<close>), \<^verbatim>\<open>strings\<close>,
  \<^verbatim>\<open>net.IP\<close> classification and printing, hardware addresses and the FNV-1a hash.
\<close>

section \<open>Decimal numbers\<close>

definition digit_char :: "nat \<Rightarrow> char" where
  "digit_char d = char_of (48 + d)"

fun dec_digits :: "nat \<Rightarrow> nat list" where
  "dec_digits n = (if n < 10 then [n] else dec_digits (n div 10) @ [n mod 10])"

declare dec_digits.simps [simp del]

lemma dec_digits_code [simp]:
  "n < 10 \<Longrightarrow> dec_digits n = [n]"
  "\<not> n < 10 \<Longrightarrow> dec_digits n = dec_digits (n div 10) @ [n mod 10]"
  by (subst dec_digits.simps; simp)+

text \<open>\<^verbatim>\<open>strconv.FormatInt(i, 10)\<close> and \<^verbatim>\<open>%d\<close>.\<close>

definition format_nat :: "nat \<Rightarrow> string" where
  "format_nat n = map digit_char (dec_digits n)"

definition format_int :: "int \<Rightarrow> string" where
  "format_int i = (if i < 0 then CHR ''-'' # format_nat (nat (- i)) else format_nat (nat i))"

definition char_digit :: "char \<Rightarrow> nat option" where
  "char_digit c =
     (let n = of_char c :: nat in if 48 \<le> n \<and> n \<le> 57 then Some (n - 48) else None)"

fun parse_digits :: "nat \<Rightarrow> string \<Rightarrow> nat option" where
  "parse_digits acc [] = Some acc"
| "parse_digits acc (c # cs) =
     (case char_digit c of None \<Rightarrow> None | Some d \<Rightarrow> parse_digits (acc * 10 + d) cs)"

definition parse_nat :: "string \<Rightarrow> nat option" where
  "parse_nat s = (if s = [] then None else parse_digits 0 s)"

text \<open>
  \<^verbatim>\<open>strconv.ParseInt(s, 10, 64)\<close>, and \<^verbatim>\<open>strconv.Atoi\<close> on a 64-bit platform: an
  optional sign, at least one digit, and a value that fits in 64 bits.
\<close>

definition parse_int64 :: "string \<Rightarrow> int option" where
  "parse_int64 s =
     (case s of
        [] \<Rightarrow> None
      | c # cs \<Rightarrow>
          (case parse_nat (if c = CHR ''+'' \<or> c = CHR ''-'' then cs else s) of
             None \<Rightarrow> None
           | Some n \<Rightarrow>
               if c = CHR ''-'' then (if int n \<le> 2 ^ 63 then Some (- int n) else None)
               else if int n < 2 ^ 63 then Some (int n) else None))"

lemma char_digit_digit_char [simp]: "d < 10 \<Longrightarrow> char_digit (digit_char d) = Some d"
  by (simp add: char_digit_def digit_char_def Let_def)

lemma dec_digits_less: "d \<in> set (dec_digits n) \<Longrightarrow> d < 10"
proof (induction n rule: dec_digits.induct)
  case (1 n)
  then show ?case by (cases "n < 10") auto
qed

lemma dec_digits_not_Nil [simp]: "dec_digits n \<noteq> []"
  by (cases "n < 10") simp_all

lemma parse_digits_append:
  "parse_digits acc (s @ t) = (case parse_digits acc s of None \<Rightarrow> None | Some a \<Rightarrow> parse_digits a t)"
  by (induction s arbitrary: acc) (auto split: option.splits)

lemma parse_digits_format: "parse_digits 0 (map digit_char (dec_digits n)) = Some n"
proof (induction n rule: dec_digits.induct)
  case (1 n)
  then show ?case by (cases "n < 10") (simp_all add: parse_digits_append)
qed

lemma parse_nat_format_nat [simp]: "parse_nat (format_nat n) = Some n"
  by (simp add: parse_nat_def format_nat_def parse_digits_format)

lemma format_nat_inj: "format_nat m = format_nat n \<longleftrightarrow> m = n"
  by (metis option.inject parse_nat_format_nat)

lemma hd_format_nat: "\<exists>d cs. format_nat n = digit_char d # cs \<and> d < 10"
  by (metis dec_digits_less dec_digits_not_Nil format_nat_def list.set_intros(1) list.simps(9) neq_Nil_conv)

lemma digit_char_not_sign: "d < 10 \<Longrightarrow> digit_char d \<noteq> CHR ''+'' \<and> digit_char d \<noteq> CHR ''-''"
proof -
  assume "d < 10"
  then have "char_digit (digit_char d) = Some d" by simp
  then show ?thesis
    by (auto simp: char_digit_def Let_def)
qed

lemma parse_int64_format_int:
  assumes "- (2 ^ 63) \<le> i" and "i < 2 ^ 63"
  shows "parse_int64 (format_int i) = Some i"
proof (cases "i < 0")
  case True
  with assms show ?thesis by (simp add: parse_int64_def format_int_def)
next
  case False
  obtain d cs where "format_nat (nat i) = digit_char d # cs" and "d < 10"
    using hd_format_nat by blast
  moreover from this have "parse_nat (digit_char d # cs) = Some (nat i)"
    by (metis parse_nat_format_nat)
  ultimately show ?thesis
    using False assms digit_char_not_sign by (simp add: parse_int64_def format_int_def)
qed

lemma parse_int64_bounds: "parse_int64 s = Some i \<Longrightarrow> - (2 ^ 63) \<le> i \<and> i < 2 ^ 63"
  by (auto simp: parse_int64_def split: list.splits option.splits if_splits)

section \<open>Strings\<close>

fun has_prefix :: "string \<Rightarrow> string \<Rightarrow> bool" where
  "has_prefix s [] = True"
| "has_prefix [] (p # ps) = False"
| "has_prefix (c # cs) (p # ps) = (c = p \<and> has_prefix cs ps)"

lemma has_prefix_iff: "has_prefix s p \<longleftrightarrow> (\<exists>t. s = p @ t)"
  by (induction s p rule: has_prefix.induct) auto

text \<open>\<^verbatim>\<open>strings.Split(s, sep)\<close> for a one-byte separator: always at least one piece.\<close>

fun split_on :: "char \<Rightarrow> string \<Rightarrow> string list" where
  "split_on sep [] = [[]]"
| "split_on sep (c # cs) =
     (if c = sep then [] # split_on sep cs
      else case split_on sep cs of [] \<Rightarrow> [[c]] | p # ps \<Rightarrow> (c # p) # ps)"

lemma split_on_not_Nil [simp]: "split_on sep s \<noteq> []"
  by (induction s) (auto split: list.splits)

lemma split_on_no_sep: "sep \<notin> set s \<Longrightarrow> split_on sep s = [s]"
  by (induction s) auto

lemma split_on_append: "sep \<notin> set s \<Longrightarrow> split_on sep (s @ sep # t) = s # split_on sep t"
  by (induction s) auto

section \<open>Hexadecimal and hardware addresses\<close>

definition hex_digit :: "nat \<Rightarrow> char" where
  "hex_digit d = (if d < 10 then char_of (48 + d) else char_of (87 + d))"

definition hex_byte :: "byte \<Rightarrow> string" where
  "hex_byte b = [hex_digit (unat b div 16), hex_digit (unat b mod 16)]"

text \<open>\<^verbatim>\<open>net.HardwareAddr.String\<close>.\<close>

fun mac_string :: "bytes \<Rightarrow> string" where
  "mac_string [] = []"
| "mac_string [b] = hex_byte b"
| "mac_string (b # bs) = hex_byte b @ CHR '':'' # mac_string bs"

definition hex_value :: "char \<Rightarrow> nat option" where
  "hex_value c =
     (let n = of_char c :: nat in
      if 48 \<le> n \<and> n \<le> 57 then Some (n - 48)
      else if 97 \<le> n \<and> n \<le> 102 then Some (n - 87)
      else if 65 \<le> n \<and> n \<le> 70 then Some (n - 55)
      else None)"

lemma hex_value_hex_digit [simp]: "d < 16 \<Longrightarrow> hex_value (hex_digit d) = Some d"
  by (auto simp: hex_value_def hex_digit_def Let_def)

lemma hex_byte_inj: "hex_byte a = hex_byte b \<longleftrightarrow> a = b"
proof
  assume "hex_byte a = hex_byte b"
  then have "hex_digit (unat a div 16) = hex_digit (unat b div 16)"
    and "hex_digit (unat a mod 16) = hex_digit (unat b mod 16)"
    by (simp_all add: hex_byte_def)
  moreover have "unat a div 16 < 16" "unat b div 16 < 16" "unat a mod 16 < 16" "unat b mod 16 < 16"
    using unat_byte_less [of a] unat_byte_less [of b] by auto
  ultimately have "unat a div 16 = unat b div 16" and "unat a mod 16 = unat b mod 16"
    by (metis hex_value_hex_digit option.inject)+
  then have "unat a = unat b" by (metis div_mult_mod_eq)
  then show "a = b" by (simp only: word_unat_eq_iff)
qed simp

text \<open>
  \<^verbatim>\<open>net.ParseMAC\<close>: six, eight or twenty bytes as pairs of hexadecimal digits between colons or
  dashes, or as groups of four digits between dots.
\<close>

definition hex_pair :: "char \<Rightarrow> char \<Rightarrow> byte option" where
  "hex_pair a b =
     (case (hex_value a, hex_value b) of (Some x, Some y) \<Rightarrow> Some (word_of_nat (x * 16 + y)) | _ \<Rightarrow> None)"

fun mac_pairs :: "char \<Rightarrow> string \<Rightarrow> bytes option" where
  "mac_pairs sep [a, b] = map_option (\<lambda>x. [x]) (hex_pair a b)"
| "mac_pairs sep (a # b # c # cs) =
     (case hex_pair a b of
        None \<Rightarrow> None
      | Some x \<Rightarrow> if c \<noteq> sep then None else map_option ((#) x) (mac_pairs sep cs))"
| "mac_pairs sep _ = None"

fun mac_quads :: "char \<Rightarrow> string \<Rightarrow> bytes option" where
  "mac_quads sep [a, b, c, d] =
     (case (hex_pair a b, hex_pair c d) of (Some x, Some y) \<Rightarrow> Some [x, y] | _ \<Rightarrow> None)"
| "mac_quads sep (a # b # c # d # e # cs) =
     (case (hex_pair a b, hex_pair c d) of
        (Some x, Some y) \<Rightarrow> if e \<noteq> sep then None else map_option (\<lambda>bs. x # y # bs) (mac_quads sep cs)
      | _ \<Rightarrow> None)"
| "mac_quads sep _ = None"

definition mac_length :: "nat \<Rightarrow> bool" where
  "mac_length n \<longleftrightarrow> n = 6 \<or> n = 8 \<or> n = 20"

definition parse_mac :: "string \<Rightarrow> bytes option" where
  "parse_mac s =
     (if length s < 14 then None
      else if s ! 2 = CHR '':'' \<or> s ! 2 = CHR ''-'' then
        (if (length s + 1) mod 3 = 0 \<and> mac_length ((length s + 1) div 3) then mac_pairs (s ! 2) s else None)
      else if s ! 4 = CHR ''.'' then
        (if (length s + 1) mod 5 = 0 \<and> mac_length (2 * (length s + 1) div 5) then mac_quads (s ! 4) s else None)
      else None)"

lemma hex_pair_hex_byte [simp]:
  "hex_pair (hex_digit (unat b div 16)) (hex_digit (unat b mod 16)) = Some b"
  using unat_byte_less [of b] by (simp add: hex_pair_def)

lemma mac_string_Cons: "bs \<noteq> [] \<Longrightarrow> mac_string (b # bs) = hex_byte b @ CHR '':'' # mac_string bs"
  by (cases bs) simp_all

lemma length_mac_string: "bs \<noteq> [] \<Longrightarrow> length (mac_string bs) + 1 = 3 * length bs"
  by (induction bs rule: mac_string.induct) (simp_all add: hex_byte_def)

lemma mac_pairs_mac_string: "bs \<noteq> [] \<Longrightarrow> mac_pairs CHR '':'' (mac_string bs) = Some bs"
  by (induction bs rule: mac_string.induct) (simp_all add: hex_byte_def)

lemma parse_mac_mac_string:
  assumes "mac_length (length bs)"
  shows "parse_mac (mac_string bs) = Some bs"
proof -
  obtain a b cs where bs: "bs = a # b # cs"
    using assms by (cases bs rule: mac_string.cases) (auto simp: mac_length_def)
  then have "mac_string bs ! 2 = CHR '':''"
    by (simp add: mac_string_Cons hex_byte_def)
  moreover have "length (mac_string bs) + 1 = 3 * length bs"
    using length_mac_string bs by blast
  ultimately show ?thesis
    using assms mac_pairs_mac_string [of bs] bs by (auto simp: parse_mac_def mac_length_def)
qed

lemma mac_pairs_length: "mac_pairs sep s = Some bs \<Longrightarrow> 3 * length bs = length s + 1"
  by (induction sep s arbitrary: bs rule: mac_pairs.induct)
    (auto split: option.splits if_splits)

lemma mac_quads_length: "mac_quads sep s = Some bs \<Longrightarrow> 5 * length bs = 2 * (length s + 1)"
  by (induction sep s arbitrary: bs rule: mac_quads.induct)
    (auto split: option.splits if_splits)

lemma parse_mac_length: "parse_mac s = Some bs \<Longrightarrow> mac_length (length bs)"
proof -
  assume parsed: "parse_mac s = Some bs"
  then consider "mac_pairs (s ! 2) s = Some bs" "mac_length ((length s + 1) div 3)"
    | "mac_quads (s ! 4) s = Some bs" "mac_length (2 * (length s + 1) div 5)"
    by (auto simp: parse_mac_def split: if_splits)
  then show ?thesis
    by cases (metis mac_pairs_length mac_quads_length nonzero_mult_div_cancel_left zero_neq_numeral)+
qed

lemma hex_digit_not_sep: "d < 16 \<Longrightarrow> hex_digit d \<noteq> CHR ''/'' \<and> hex_digit d \<noteq> CHR '':''"
proof -
  assume "d < 16"
  then have "hex_value (hex_digit d) = Some d" by simp
  then show ?thesis by (auto simp: hex_value_def Let_def)
qed

lemma slash_not_in_hex_byte: "CHR ''/'' \<notin> set (hex_byte b)"
proof -
  have "unat b div 16 < 16" "unat b mod 16 < 16" using unat_byte_less [of b] by auto
  then have "hex_digit (unat b div 16) \<noteq> CHR ''/''" "hex_digit (unat b mod 16) \<noteq> CHR ''/''"
    using hex_digit_not_sep by blast+
  then show ?thesis by (simp add: hex_byte_def)
qed

lemma slash_not_in_mac: "CHR ''/'' \<notin> set (mac_string bs)"
  by (induction bs rule: mac_string.induct) (simp_all add: slash_not_in_hex_byte)

lemma slash_not_in_digits: "CHR ''/'' \<notin> set (format_nat n)"
proof
  assume "CHR ''/'' \<in> set (format_nat n)"
  then obtain d where "d < 10" "digit_char d = CHR ''/''"
    by (auto simp: format_nat_def dest: dec_digits_less)
  then have "char_digit CHR ''/'' = Some d" by (metis char_digit_digit_char)
  then show False by (simp add: char_digit_def)
qed

section \<open>IP addresses\<close>

text \<open>
  \<^verbatim>\<open>net.IP\<close> is a byte slice: four bytes, sixteen bytes (perhaps an IPv4 address in the
  \<^verbatim>\<open>::ffff:0:0/96\<close> block) or neither. \<^verbatim>\<open>To4\<close> gives nil for what is no IPv4 address.
\<close>

definition v4_mapped_prefix :: bytes where
  "v4_mapped_prefix = [0, 0, 0, 0, 0, 0, 0, 0, 0, 0, 255, 255]"

definition to4 :: "slice \<Rightarrow> slice" where
  "to4 s = (case s of None \<Rightarrow> None
     | Some ip \<Rightarrow> if length ip = 4 then Some ip
         else if length ip = 16 \<and> take 12 ip = v4_mapped_prefix then Some (drop 12 ip)
         else None)"

definition is_unspecified :: "bytes \<Rightarrow> bool" where
  "is_unspecified ip \<longleftrightarrow>
     to4 (Some ip) = Some [0, 0, 0, 0] \<or> length ip = 16 \<and> (\<forall>b \<in> set ip. b = 0)"

definition is_loopback :: "bytes \<Rightarrow> bool" where
  "is_loopback ip =
     (case to4 (Some ip) of
        Some v4 \<Rightarrow> v4 ! 0 = 127
      | None \<Rightarrow> length ip = 16 \<and> (\<forall>b \<in> set (take 15 ip). b = 0) \<and> ip ! 15 = 1)"

definition is_multicast :: "bytes \<Rightarrow> bool" where
  "is_multicast ip =
     (case to4 (Some ip) of
        Some v4 \<Rightarrow> v4 ! 0 AND 0xF0 = 0xE0
      | None \<Rightarrow> length ip = 16 \<and> ip ! 0 = 0xFF)"

definition is_link_local_unicast :: "bytes \<Rightarrow> bool" where
  "is_link_local_unicast ip =
     (case to4 (Some ip) of
        Some v4 \<Rightarrow> v4 ! 0 = 169 \<and> v4 ! 1 = 254
      | None \<Rightarrow> length ip = 16 \<and> ip ! 0 = 0xFE \<and> ip ! 1 AND 0xC0 = 0x80)"

definition is_global_unicast :: "bytes \<Rightarrow> bool" where
  "is_global_unicast ip \<longleftrightarrow>
     (length ip = 4 \<or> length ip = 16) \<and> to4 (Some ip) \<noteq> Some [255, 255, 255, 255] \<and>
     \<not> is_unspecified ip \<and> \<not> is_loopback ip \<and> \<not> is_multicast ip \<and> \<not> is_link_local_unicast ip"

lemma to4_length: "to4 s = Some ip \<Longrightarrow> length ip = 4"
  by (auto simp: to4_def split: option.splits if_splits)

lemma to4_four [simp]: "length ip = 4 \<Longrightarrow> to4 (Some ip) = Some ip"
  by (simp add: to4_def)

text \<open>\<^verbatim>\<open>net.IP.Equal\<close>: an IPv4 address equals its sixteen-byte form.\<close>

definition ip_equal :: "bytes \<Rightarrow> bytes \<Rightarrow> bool" where
  "ip_equal a b =
     (if length a = length b then a = b
      else if length a = 4 \<and> length b = 16 then take 12 b = v4_mapped_prefix \<and> a = drop 12 b
      else if length a = 16 \<and> length b = 4 then take 12 a = v4_mapped_prefix \<and> drop 12 a = b
      else False)"

definition ipv4_zero :: bytes where
  "ipv4_zero = v4_mapped_prefix @ [0, 0, 0, 0]"

definition ipv4_bcast :: bytes where
  "ipv4_bcast = v4_mapped_prefix @ [255, 255, 255, 255]"

text \<open>Dotted decimal, as \<^verbatim>\<open>net.IP.String\<close> prints a four-byte address.\<close>

fun dotted :: "bytes \<Rightarrow> string" where
  "dotted [] = []"
| "dotted [b] = format_nat (unat b)"
| "dotted (b # bs) = format_nat (unat b) @ CHR ''.'' # dotted bs"

section \<open>Printable text\<close>

text \<open>The printable subset of ASCII, which TFTP calls netascii; everything the server prints is in it.\<close>

definition netascii :: "string \<Rightarrow> bool" where
  "netascii s \<longleftrightarrow> (\<forall>c \<in> set s. 0x20 \<le> (of_char c :: nat) \<and> (of_char c :: nat) \<le> 0x7E)"

named_theorems printable \<open>printed values are netascii, and how long they are\<close>

lemma netascii_append [printable]: "netascii (s @ t) \<longleftrightarrow> netascii s \<and> netascii t"
  by (auto simp: netascii_def)

lemma netascii_Cons [printable]:
  "netascii (c # s) \<longleftrightarrow> 0x20 \<le> (of_char c :: nat) \<and> (of_char c :: nat) \<le> 0x7E \<and> netascii s"
  by (auto simp: netascii_def)

lemma netascii_Nil [printable, simp]: "netascii []"
  by (simp add: netascii_def)

lemma netascii_digits [printable]: "netascii (format_nat n)"
proof -
  have "0x20 \<le> (of_char (digit_char d) :: nat) \<and> (of_char (digit_char d) :: nat) \<le> 0x7E" if "d < 10" for d
    using that by (simp add: digit_char_def)
  then show ?thesis
    by (auto simp: netascii_def format_nat_def dest: dec_digits_less)
qed

lemma netascii_format_int [printable]: "netascii (format_int i)"
  by (simp add: format_int_def printable)

lemma netascii_hex_byte [printable]: "netascii (hex_byte b)"
proof -
  have "0x20 \<le> (of_char (hex_digit d) :: nat) \<and> (of_char (hex_digit d) :: nat) \<le> 0x7E" if "d < 16" for d
    using that by (simp add: hex_digit_def)
  moreover have "unat b div 16 < 16" "unat b mod 16 < 16" using unat_byte_less [of b] by auto
  ultimately show ?thesis by (simp add: netascii_def hex_byte_def)
qed

lemma netascii_mac_string [printable]: "netascii (mac_string bs)"
  by (induction bs rule: mac_string.induct) (simp_all add: printable)

lemma netascii_dotted [printable]: "netascii (dotted bs)"
  by (induction bs rule: dotted.induct) (simp_all add: printable)

lemma netascii_no_zero: "netascii s \<Longrightarrow> 0 \<notin> set (bytes_of s)"
  by (auto simp: netascii_def bytes_of_def word_unat_eq_iff unat_of_nat take_bit_eq_mod of_char_less)

lemma length_format_nat: "length (format_nat n) \<le> k" if "n < 10 ^ k" "0 < k"
  using that
proof (induction k arbitrary: n)
  case (Suc k)
  show ?case
  proof (cases "n < 10")
    case False
    then have "0 < k" using Suc.prems by (cases k) auto
    moreover have "n div 10 < 10 ^ k" using Suc.prems by (simp add: less_mult_imp_div_less mult.commute)
    ultimately show ?thesis using Suc.IH [of "n div 10"] False by (simp add: format_nat_def)
  qed (simp add: format_nat_def)
qed simp

lemma length_dotted: "bs \<noteq> [] \<Longrightarrow> length (dotted bs) + 1 \<le> 4 * length bs"
proof (induction bs rule: dotted.induct)
  case (2 b)
  show ?case using length_format_nat [of "unat b" 3] unat_byte_less [of b] by simp
next
  case (3 b c cs)
  then show ?case using length_format_nat [of "unat b" 3] unat_byte_less [of b] by simp
qed simp

section \<open>The FNV-1a hash\<close>

text \<open>\<^verbatim>\<open>hash/fnv\<close>'s 64-bit FNV-1a: xor in a byte, multiply by the prime.\<close>

definition fnv1a_step :: "u64 \<Rightarrow> byte \<Rightarrow> u64" where
  "fnv1a_step h b = (h XOR ucast b) * 1099511628211"

definition fnv1a_write :: "u64 \<Rightarrow> bytes \<Rightarrow> u64" where
  "fnv1a_write h bs = foldl fnv1a_step h bs"

definition fnv1a_offset :: u64 where
  "fnv1a_offset = 14695981039346656037"

lemma fnv1a_write_append: "fnv1a_write h (xs @ ys) = fnv1a_write (fnv1a_write h xs) ys"
  by (simp add: fnv1a_write_def)

end
