(* ===== verification/Dhcp4_Packet.thy ===== *)
theory Dhcp4_Packet
  imports Dhcp4_Options Go_Std
begin

text \<open>
  The DHCPv4 packet of \<^verbatim>\<open>dhcp4/packet.go\<close>: its record, its wire encoder and decoder with
  option overloading, and the choice of transmission strategy of RFC 2131.
\<close>

section \<open>The packet\<close>

text \<open>\<^verbatim>\<open>MessageType\<close> is an \<^verbatim>\<open>int\<close>; numbers outside the enumeration are representable.\<close>

type_synonym message_type = int

abbreviation (input) MsgDiscover :: message_type where "MsgDiscover \<equiv> 1"
abbreviation (input) MsgOffer :: message_type where "MsgOffer \<equiv> 2"
abbreviation (input) MsgRequest :: message_type where "MsgRequest \<equiv> 3"
abbreviation (input) MsgDecline :: message_type where "MsgDecline \<equiv> 4"
abbreviation (input) MsgAck :: message_type where "MsgAck \<equiv> 5"
abbreviation (input) MsgNack :: message_type where "MsgNack \<equiv> 6"
abbreviation (input) MsgRelease :: message_type where "MsgRelease \<equiv> 7"
abbreviation (input) MsgInform :: message_type where "MsgInform \<equiv> 8"

record packet =
  Type :: message_type
  TransactionID :: bytes
  Broadcast :: bool
  HardwareAddr :: bytes
  ClientAddr :: slice
  YourAddr :: slice
  ServerAddr :: slice
  RelayAddr :: slice
  BootServerName :: string
  BootFilename :: string
  Options :: options

datatype packet_error =
    BadTransactionID
  | NonEthernet
  | SnameTooLong
  | FileHoldsOptions
  | SnameHoldsOptions
  | UnknownMessageType message_type
  | OptionsFailed opt_error
  | OptionsNotWritten
  | PacketTooShort
  | NoMagic
  | UnsupportedHardware byte byte
  | MalformedOptions opt_error
  | MalformedSname opt_error
  | UnterminatedSname
  | MalformedFile opt_error
  | UnterminatedFile
  | NoMessageType opt_error
  | MessageTypeMismatch byte message_type

definition magic :: bytes where
  "magic = [99, 130, 83, 99]"

text \<open>The BOOTP opcode that goes with a message type, \<^term>\<open>None\<close> for an unknown type.\<close>

definition bootp_op :: "message_type \<Rightarrow> byte option" where
  "bootp_op t =
     (if t = MsgDiscover \<or> t = MsgRequest \<or> t = MsgDecline \<or> t = MsgRelease \<or> t = MsgInform then Some 1
      else if t = MsgOffer \<or> t = MsgAck \<or> t = MsgNack then Some 2
      else None)"

text \<open>Bits 0 and 1 of option 52: options in \<^verbatim>\<open>file\<close>, options in \<^verbatim>\<open>sname\<close>.\<close>

definition overload_flags :: "options \<Rightarrow> bool \<times> bool" where
  "overload_flags m =
     (case opt_byte m OptOverload of
        Inl _ \<Rightarrow> (False, False)
      | Inr v \<Rightarrow> (v AND 1 \<noteq> 0, v AND 2 \<noteq> 0))"

section \<open>Marshal\<close>

definition write_ip :: "slice \<Rightarrow> bytes" where
  "write_ip ip = (case to4 ip of None \<Rightarrow> [0, 0, 0, 0] | Some v4 \<Rightarrow> v4)"

definition header :: "packet \<Rightarrow> byte \<Rightarrow> bytes" where
  "header p op =
     [op, 1, 6, 0] @ TransactionID p @ [0, 0] @ (if Broadcast p then [0x80, 0] else [0, 0]) @
     write_ip (ClientAddr p) @ write_ip (YourAddr p) @ write_ip (ServerAddr p) @
     write_ip (RelayAddr p) @ HardwareAddr p @ replicate 10 0"

text \<open>
  One of the two overloadable fields: as many options as fit, or the string padded with
  zero bytes (a string longer than the field is written whole).
\<close>

definition write_field :: "bool \<Rightarrow> options \<Rightarrow> string \<Rightarrow> nat \<Rightarrow> packet_error + (bytes \<times> options)" where
  "write_field holds_opts opts str width =
     (if holds_opts then
        case marshal_limited opts (int width) True of
          Inl e \<Rightarrow> Inl (OptionsFailed e)
        | Inr r \<Rightarrow> Inr r
      else Inr (bytes_of str @ replicate (width - length str) 0, opts))"

text \<open>The unlimited section after the magic number.\<close>

definition write_main :: "options \<Rightarrow> packet_error + bytes" where
  "write_main opts =
     (case marshal_limited opts 0 False of
        Inl e \<Rightarrow> Inl (OptionsFailed e)
      | Inr (main, leftover) \<Rightarrow> if opt_keys leftover \<noteq> [] then Inl OptionsNotWritten else Inr main)"

definition marshal :: "packet \<Rightarrow> packet_error + bytes" where
  "marshal p =
     (if length (TransactionID p) \<noteq> 4 then Inl BadTransactionID
      else if length (HardwareAddr p) \<noteq> 6 then Inl NonEthernet
      else if length (BootServerName p) > 64 then Inl SnameTooLong
      else
        let (optsInFile, optsInSname) = overload_flags (Options p) in
        if optsInFile \<and> BootFilename p \<noteq> [] then Inl FileHoldsOptions
        else if optsInSname \<and> BootServerName p \<noteq> [] then Inl SnameHoldsOptions
        else case bootp_op (Type p) of
            None \<Rightarrow> Inl (UnknownMessageType (Type p))
          | Some op \<Rightarrow>
              bind_res (write_field optsInSname ((Options p)(OptDHCPMessageType \<mapsto> Some [word_of_int (Type p)]))
                          (BootServerName p) 64) (\<lambda>(sname, opts).
              bind_res (write_field optsInFile opts (BootFilename p) 128) (\<lambda>(file, opts).
              bind_res (write_main opts) (\<lambda>main.
                Inr (header p op @ sname @ file @ magic @ main)))))"

section \<open>Unmarshal\<close>

text \<open>The slice expression \<^verbatim>\<open>bs[i:j]\<close>, within bounds.\<close>

definition sub :: "nat \<Rightarrow> nat \<Rightarrow> bytes \<Rightarrow> bytes" where
  "sub i j bs = take (j - i) (drop i bs)"

definition null_str :: "bytes \<Rightarrow> string option" where
  "null_str bs = (if 0 \<in> set bs then Some (string_of (takeWhile (\<lambda>b. b \<noteq> 0) bs)) else None)"

text \<open>
  Reading one of the two overloadable fields: more options into the same table, or a
  zero-terminated string.
\<close>

definition read_field :: "bool \<Rightarrow> options \<Rightarrow> bytes \<Rightarrow> (opt_error \<Rightarrow> packet_error) \<Rightarrow> packet_error \<Rightarrow>
    packet_error + (string \<times> options)" where
  "read_field holds_opts opts field malformed unterminated =
     (if holds_opts then
        case opts_unmarshal opts field of
          (Some e, _) \<Rightarrow> Inl (malformed e)
        | (None, opts') \<Rightarrow> Inr ([], opts')
      else case null_str field of
          None \<Rightarrow> Inl unterminated
        | Some s \<Rightarrow> Inr (s, opts))"

text \<open>The message type, checked against the BOOTP opcode in the first byte.\<close>

definition message_type_of :: "byte \<Rightarrow> options \<Rightarrow> packet_error + message_type" where
  "message_type_of op opts =
     (case opt_byte opts OptDHCPMessageType of
        Inl e \<Rightarrow> Inl (NoMessageType e)
      | Inr typ \<Rightarrow>
          (case bootp_op (uint typ) of
             None \<Rightarrow> Inl (UnknownMessageType (uint typ))
           | Some expected \<Rightarrow>
               if op \<noteq> expected then Inl (MessageTypeMismatch op (uint typ)) else Inr (uint typ)))"

definition unmarshal :: "bytes \<Rightarrow> packet_error + packet" where
  "unmarshal bs =
     (if length bs < 244 then Inl PacketTooShort
      else if sub 236 240 bs \<noteq> magic then Inl NoMagic
      else if bs ! 1 \<noteq> 1 \<or> bs ! 2 \<noteq> 6 then Inl (UnsupportedHardware (bs ! 1) (bs ! 2))
      else case opts_unmarshal Map.empty (drop 240 bs) of
          (Some e, _) \<Rightarrow> Inl (MalformedOptions e)
        | (None, opts) \<Rightarrow>
            let (file, sname) = overload_flags opts in
            bind_res (read_field sname opts (sub 44 108 bs) MalformedSname UnterminatedSname) (\<lambda>(sn, opts).
            bind_res (read_field file opts (sub 108 236 bs) MalformedFile UnterminatedFile) (\<lambda>(fn, opts).
            bind_res (message_type_of (bs ! 0) opts) (\<lambda>typ.
              Inr \<lparr>Type = typ, TransactionID = sub 4 8 bs,
                Broadcast = (be16 (bs ! 10) (bs ! 11) AND 0x8000 \<noteq> 0),
                HardwareAddr = sub 28 34 bs,
                ClientAddr = Some (sub 12 16 bs), YourAddr = Some (sub 16 20 bs),
                ServerAddr = Some (sub 20 24 bs), RelayAddr = Some (sub 24 28 bs),
                BootServerName = sn, BootFilename = fn,
                Options = opts(OptDHCPMessageType := None)\<rparr>))))"

section \<open>How to send a packet\<close>

datatype tx_type = TxClientBroadcast | TxServerBroadcast | TxRelayAddr | TxClientAddr | TxHardwareAddr

definition tx_type :: "packet \<Rightarrow> tx_type" where
  "tx_type p =
     (if (case RelayAddr p of None \<Rightarrow> False | Some ip \<Rightarrow> is_global_unicast ip) then TxRelayAddr
      else if Type p = MsgNack then TxServerBroadcast
      else if (case ClientAddr p of None \<Rightarrow> False | Some ip \<Rightarrow> is_global_unicast ip \<or> is_loopback ip)
        then TxClientAddr
      else if Broadcast p \<and> Type p = MsgDiscover then TxClientBroadcast
      else if Broadcast p then TxServerBroadcast
      else TxHardwareAddr)"

section \<open>Layout of an encoded packet\<close>

lemma length_write_ip [simp]: "length (write_ip ip) = 4"
  by (auto simp: write_ip_def to4_length split: option.splits)

lemma length_header:
  "length (TransactionID p) = 4 \<Longrightarrow> length (HardwareAddr p) = 6 \<Longrightarrow> length (header p op) = 44"
  by (simp add: header_def)

lemma sub_append_left: "j \<le> length xs \<Longrightarrow> sub i j (xs @ ys) = sub i j xs"
  by (simp add: sub_def)

lemma sub_append_right: "length xs \<le> i \<Longrightarrow> sub i j (xs @ ys) = sub (i - length xs) (j - length xs) ys"
  by (simp add: sub_def)

lemma sub_all: "length xs = n \<Longrightarrow> sub 0 n (xs @ ys) = xs"
  by (simp add: sub_def)

lemma nth_sub: "k < j - i \<Longrightarrow> i + k < length xs \<Longrightarrow> sub i j xs ! k = xs ! (i + k)"
  by (simp add: sub_def)

lemmas sub_simps = sub_append_left sub_append_right sub_all

lemma header_fields:
  assumes "length (TransactionID p) = 4" and "length (HardwareAddr p) = 6"
  shows "header p op ! 0 = op" "header p op ! 1 = 1" "header p op ! 2 = 6"
    and "sub 4 8 (header p op) = TransactionID p"
    and "sub 12 16 (header p op) = write_ip (ClientAddr p)"
    and "sub 16 20 (header p op) = write_ip (YourAddr p)"
    and "sub 20 24 (header p op) = write_ip (ServerAddr p)"
    and "sub 24 28 (header p op) = write_ip (RelayAddr p)"
    and "sub 28 34 (header p op) = HardwareAddr p"
    and "be16 (header p op ! 10) (header p op ! 11) AND 0x8000 \<noteq> 0 \<longleftrightarrow> Broadcast p"
  using assms by (simp_all add: header_def sub_def nth_append be16_def)

lemma packet_layout:
  assumes "length h = 44" and "length sn = 64" and "length fl = 128"
    and "bs = h @ sn @ fl @ magic @ main"
  shows "sub 44 108 bs = sn" "sub 108 236 bs = fl" "sub 236 240 bs = magic" "drop 240 bs = main"
    and "\<And>i j. j \<le> 44 \<Longrightarrow> sub i j bs = sub i j h" and "\<And>i. i < 44 \<Longrightarrow> bs ! i = h ! i"
    and "length bs = 240 + length main"
  using assms by (simp_all add: sub_simps nth_append magic_def) (simp_all add: sub_def)

section \<open>The overloadable fields\<close>

definition name_ok :: "nat \<Rightarrow> string \<Rightarrow> bool" where
  "name_ok width s \<longleftrightarrow> length s < width \<and> 0 \<notin> set (bytes_of s)"

lemma null_str_padded:
  assumes "0 \<notin> set (bytes_of s)" and "0 < k"
  shows "null_str (bytes_of s @ replicate k 0) = Some s"
proof -
  have "takeWhile (\<lambda>b. b \<noteq> 0) (bytes_of s @ replicate k 0) = bytes_of s @ takeWhile (\<lambda>b. b \<noteq> 0) (replicate k 0)"
    using assms(1) by (intro takeWhile_append2) auto
  also have "takeWhile (\<lambda>b. b \<noteq> 0) (replicate k (0 :: byte)) = []"
    using assms(2) by (cases k) auto
  finally show ?thesis
    using assms(2) by (simp add: null_str_def)
qed

lemma null_str_ok:
  assumes "null_str bs = Some s"
  shows "name_ok (length bs) s"
proof -
  have "0 \<in> set bs" and s: "bytes_of s = takeWhile (\<lambda>b. b \<noteq> 0) bs"
    using assms by (auto simp: null_str_def split: if_splits)
  from \<open>0 \<in> set bs\<close> have "length (takeWhile (\<lambda>b. b \<noteq> 0) bs) < length bs"
    by (induction bs) auto
  then have "length s < length bs"
    by (metis length_bytes_of s)
  moreover have "0 \<notin> set (bytes_of s)"
    unfolding s by (auto dest: set_takeWhileD)
  ultimately show ?thesis by (simp add: name_ok_def)
qed

lemma write_field_correct:
  assumes "write_field b opts str width = Inr (w, left)" and "0 < width"
  shows "b \<or> length str \<le> width \<Longrightarrow> length w = width" and "\<exists>ks \<subseteq> dom opts. left = opts |` (dom opts - ks) \<and> 52 \<notin> ks \<and>
    (name_ok width str \<longrightarrow> (b \<longrightarrow> str = []) \<longrightarrow> (\<forall>acc e1 e2. dom acc \<inter> ks = {} \<longrightarrow>
       read_field b acc w e1 e2 = Inr (str, acc ++ filled opts |` ks)))"
proof -
  show "length w = width" if "b \<or> length str \<le> width"
    using assms that marshal_limited_length [of opts "int width" True w left]
    by (cases b) (auto simp: write_field_def split: sum.splits)
next
  show "\<exists>ks \<subseteq> dom opts. left = opts |` (dom opts - ks) \<and> 52 \<notin> ks \<and>
    (name_ok width str \<longrightarrow> (b \<longrightarrow> str = []) \<longrightarrow> (\<forall>acc e1 e2. dom acc \<inter> ks = {} \<longrightarrow>
       read_field b acc w e1 e2 = Inr (str, acc ++ filled opts |` ks)))"
  proof (cases b)
    case True
    then have run: "marshal_limited opts (int width) True = Inr (w, left)"
      using assms(1) by (auto simp: write_field_def split: sum.splits)
    show ?thesis
      using True marshal_limited_decodes(1) [OF run, where junk = "[]"]
        marshal_limited_decodes(2) [OF run] fitting_skips_52 [of "int width"] assms(2)
        set_written [of opts True "int width"]
      by (intro exI [of _ "set (written opts True (int width))"])
        (auto simp: read_field_def written_def simp del: opts_unmarshal.simps)
  next
    case False
    then have "w = bytes_of str @ replicate (width - length str) 0" and "left = opts"
      using assms(1) by (auto simp: write_field_def)
    with False show ?thesis
      by (intro exI [of _ "{}"]) (simp add: read_field_def name_ok_def null_str_padded)
  qed
qed

section \<open>Decoding an encoded packet\<close>

text \<open>
  What the receiver of an encoded packet sees: addresses in their four-byte form, no message
  type among the options, and empty values for nil ones.
\<close>

definition received :: "packet \<Rightarrow> packet" where
  "received p = p\<lparr>ClientAddr := Some (write_ip (ClientAddr p)), YourAddr := Some (write_ip (YourAddr p)),
     ServerAddr := Some (write_ip (ServerAddr p)), RelayAddr := Some (write_ip (RelayAddr p)),
     Options := (filled (Options p))(OptDHCPMessageType := None)\<rparr>"

lemma bootp_op_known: "bootp_op t = Some op \<Longrightarrow> uint (word_of_int t :: byte) = t \<and> 1 \<le> t \<and> t \<le> 8"
  by (auto simp: bootp_op_def split: if_splits)

lemma filled_simps [simp]:
  "filled (m(k \<mapsto> v)) = (filled m)(k \<mapsto> Some (contents v))"
  "filled (m(k := None)) = (filled m)(k := None)"
  "filled (m |` ks) = filled m |` ks"
  by (auto simp: filled_def restrict_map_def fun_eq_iff)

lemma opt_byte_filled: "opt_byte (filled m) k = Inr b \<longleftrightarrow> opt_byte m k = Inr b"
  by (auto simp: opt_byte_def opt_bytes_def opt_at_def filled_def split: option.splits)

lemma overload_flags_cong: "m k52 = m' k52 \<Longrightarrow> k52 = 52 \<Longrightarrow> overload_flags m = overload_flags m'"
  by (simp add: overload_flags_def opt_byte_def opt_bytes_def opt_at_def)

lemma overload_flags_filled: "overload_flags (filled m) = overload_flags m"
proof (cases "opt_byte m 52")
  case (Inl e)
  then have "\<nexists>b. opt_byte (filled m) 52 = Inr b"
    by (simp add: opt_byte_filled)
  with Inl show ?thesis
    by (cases "opt_byte (filled m) 52") (simp_all add: overload_flags_def)
next
  case (Inr b)
  then show ?thesis
    using opt_byte_filled [of m 52 b] by (simp add: overload_flags_def)
qed

lemma write_main_correct:
  assumes "write_main opts = Inr main"
  shows "opts_unmarshal Map.empty main = (None, filled opts)" and "encodable opts"
proof -
  obtain left where run: "marshal_limited opts 0 False = Inr (main, left)"
    using assms by (auto simp: write_main_def split: sum.splits if_splits)
  then show "encodable opts"
    using marshal_limited_iff by blast
  have "set (written opts False 0) = dom opts"
    by (simp add: written_def fitting_unlimited)
  then show "opts_unmarshal Map.empty main = (None, filled opts)"
    using marshal_limited_decodes(1) [OF run, of Map.empty "[]"]
    by (simp add: restrict_map_dom [of "filled opts", simplified])
qed

lemma write_main_iff: "(\<exists>main. write_main opts = Inr main) \<longleftrightarrow> encodable opts"
proof
  assume "encodable opts"
  then obtain main left where run: "marshal_limited opts 0 False = Inr (main, left)"
    using marshal_limited_iff by (metis surj_pair)
  have "left = Map.empty"
    using marshal_limited_decodes(2) [OF run] by (simp add: written_def fitting_unlimited)
  with run show "\<exists>main. write_main opts = Inr main"
    by (simp add: write_main_def)
qed (auto dest: write_main_correct)

lemma marshal_iff:
  "marshal p = Inr bs \<longleftrightarrow>
     (\<exists>f s op sn opts1 fl opts2 main.
        length (TransactionID p) = 4 \<and> length (HardwareAddr p) = 6 \<and> length (BootServerName p) \<le> 64 \<and>
        overload_flags (Options p) = (f, s) \<and> (f \<longrightarrow> BootFilename p = []) \<and> (s \<longrightarrow> BootServerName p = []) \<and>
        bootp_op (Type p) = Some op \<and>
        write_field s ((Options p)(53 \<mapsto> Some [word_of_int (Type p)])) (BootServerName p) 64 = Inr (sn, opts1) \<and>
        write_field f opts1 (BootFilename p) 128 = Inr (fl, opts2) \<and>
        write_main opts2 = Inr main \<and> bs = header p op @ sn @ fl @ magic @ main)"
  by (cases "overload_flags (Options p)"; cases "bootp_op (Type p)")
    (auto simp: marshal_def bind_res_Inr_iff not_less)

lemma map_add_restrict_parts:
  assumes "ks1 \<subseteq> dom m" and "m1 = m |` (dom m - ks1)" and "ks2 \<subseteq> dom m1" and "m2 = m1 |` (dom m1 - ks2)"
  shows "filled m2 ++ filled m |` ks1 ++ filled m1 |` ks2 = filled m"
    and "dom (filled m2) \<inter> ks1 = {}" and "dom (filled m2 ++ filled m |` ks1) \<inter> ks2 = {}"
  using assms unfolding restrict_map_dom_Diff
  by (auto simp: map_add_def restrict_map_def filled_def fun_eq_iff domIff split: option.splits if_splits)

lemma length_write_main:
  assumes "write_main opts = Inr main" and "opt_byte opts k = Inr b"
  shows "4 \<le> length main"
proof -
  have k: "k \<in> set (opt_keys opts)" and one: "length (contents (opt_at opts k)) = 1"
    using assms(2) by (auto simp: opt_byte_def opt_bytes_def opt_at_def bind_res_Inr_iff split: option.splits if_splits)
  have "length (contents (opt_at opts k)) + 2 \<le> enc_size opts ks" if "k \<in> set ks" for ks
    using that by (induction ks) (auto simp: enc_simps)
  with k one have "3 \<le> enc_size opts (opt_keys opts)" by fastforce
  moreover obtain left where "marshal_limited opts 0 False = Inr (main, left)"
    using assms(1) by (auto simp: write_main_def split: sum.splits if_splits)
  ultimately show ?thesis
    using write_main_correct(2) [OF assms(1)]
    by (auto simp: marshal_limited_ok written_def fitting_unlimited enc_size_def)
qed

lemma overload_flags_spilled:
  assumes "write_field b opts str width = Inr (w, left)" and "0 < width"
  shows "overload_flags left = overload_flags opts"
proof -
  obtain ks where "left = opts |` (dom opts - ks)" and "52 \<notin> ks"
    using write_field_correct(2) [OF assms] by blast
  then show ?thesis
    unfolding restrict_map_dom_Diff by (intro overload_flags_cong [of _ 52]) (simp_all add: restrict_map_def)
qed

text \<open>The three option sections, read back in the order main, \<^verbatim>\<open>sname\<close>, \<^verbatim>\<open>file\<close>.\<close>

lemma sections_decode:
  assumes sn: "write_field s m str1 64 = Inr (sn, m1)" and fl: "write_field f m1 str2 128 = Inr (fl, m2)"
    and main: "write_main m2 = Inr main" and flags: "overload_flags m = (f, s)"
    and names: "name_ok 64 str1" "name_ok 128 str2" "s \<longrightarrow> str1 = []" "f \<longrightarrow> str2 = []"
  shows "length sn = 64" "length fl = 128" "opts_unmarshal Map.empty main = (None, filled m2)"
    and "overload_flags (filled m2) = (f, s)"
    and "\<exists>acc. read_field s (filled m2) sn e1 e2 = Inr (str1, acc) \<and>
      read_field f acc fl e3 e4 = Inr (str2, filled m)"
proof -
  have len: "s \<or> length str1 \<le> 64" "f \<or> length str2 \<le> 128"
    using names by (auto simp: name_ok_def)
  from write_field_correct [OF sn] len(1) names(1,3) obtain ks1 where
    ks1: "ks1 \<subseteq> dom m" "m1 = m |` (dom m - ks1)" "52 \<notin> ks1" and "length sn = 64"
    and rsn: "\<And>acc e1 e2. dom acc \<inter> ks1 = {} \<Longrightarrow>
      read_field s acc sn e1 e2 = Inr (str1, acc ++ filled m |` ks1)"
    by auto
  from write_field_correct [OF fl] len(2) names(2,4) obtain ks2 where
    ks2: "ks2 \<subseteq> dom m1" "m2 = m1 |` (dom m1 - ks2)" "52 \<notin> ks2" and "length fl = 128"
    and rfl: "\<And>acc e1 e2. dom acc \<inter> ks2 = {} \<Longrightarrow>
      read_field f acc fl e1 e2 = Inr (str2, acc ++ filled m1 |` ks2)"
    by auto
  show "overload_flags (filled m2) = (f, s)"
    using overload_flags_spilled [OF sn] overload_flags_spilled [OF fl] flags
    by (simp add: overload_flags_filled)
  show "\<exists>acc. read_field s (filled m2) sn e1 e2 = Inr (str1, acc) \<and>
      read_field f acc fl e3 e4 = Inr (str2, filled m)"
    using rsn rfl map_add_restrict_parts [OF ks1(1,2) ks2(1,2)] by simp
qed (use assms write_field_correct(1) write_main_correct(1) in \<open>auto simp: name_ok_def\<close>)

lemma main_long_enough:
  assumes "write_field s (m(53 \<mapsto> Some [b])) str1 64 = Inr (sn, m1)" and "write_field f m1 str2 128 = Inr (fl, m2)"
    and "write_main m2 = Inr main" and "overload_flags m = (f, s)"
  shows "4 \<le> length main"
proof -
  have flags: "overload_flags (filled m2) = (f, s)"
    using overload_flags_spilled [OF assms(1)] overload_flags_spilled [OF assms(2)] assms(4)
      overload_flags_cong [of "m(53 \<mapsto> Some [b])" 52 m] by (simp add: overload_flags_filled)
  have "\<exists>k c. opt_byte m2 k = Inr c"
  proof (cases "f \<or> s")
    case True
    with flags have "\<exists>c. opt_byte (filled m2) 52 = Inr c"
      by (auto simp: overload_flags_def split: sum.splits)
    then show ?thesis by (auto simp: opt_byte_filled)
  next
    case False
    with assms(1,2) have "m2 = m(53 \<mapsto> Some [b])" by (auto simp: write_field_def)
    then have "opt_byte m2 53 = Inr b" by (simp add: opt_byte_def opt_bytes_def opt_at_def)
    then show ?thesis by blast
  qed
  with length_write_main [OF assms(3)] show ?thesis by blast
qed

lemma decode_encoded:
  assumes "marshal p = Inr bs"
    and "name_ok 64 (BootServerName p)" and "name_ok 128 (BootFilename p)"
  shows "unmarshal bs = Inr (received p)"
proof -
  let ?m = "(Options p)(53 \<mapsto> Some [word_of_int (Type p) :: byte])"
  obtain f s op sn m1 fl m2 main where p: "length (TransactionID p) = 4" "length (HardwareAddr p) = 6"
    and fs: "overload_flags (Options p) = (f, s)" "f \<longrightarrow> BootFilename p = []" "s \<longrightarrow> BootServerName p = []"
    and op: "bootp_op (Type p) = Some op"
    and sn: "write_field s ?m (BootServerName p) 64 = Inr (sn, m1)"
    and fl: "write_field f m1 (BootFilename p) 128 = Inr (fl, m2)"
    and main: "write_main m2 = Inr main" and bs: "bs = header p op @ sn @ fl @ magic @ main"
    using assms(1) unfolding marshal_iff by blast
  have "overload_flags ?m = (f, s)"
    using fs(1) overload_flags_cong [of ?m 52 "Options p"] by simp
  note sections = sections_decode [OF sn fl main this assms(2,3) fs(3,2)]
  have "opt_byte (filled ?m) 53 = Inr (word_of_int (Type p))"
    by (simp add: opt_byte_def opt_bytes_def opt_at_def)
  moreover have "4 \<le> length main"
    using main_long_enough [OF sn fl main fs(1)] .
  moreover note layout = packet_layout [OF length_header [OF p] sections(1,2) bs]
  moreover obtain acc where
    "read_field s (filled m2) sn MalformedSname UnterminatedSname = Inr (BootServerName p, acc)"
    "read_field f acc fl MalformedFile UnterminatedFile = Inr (BootFilename p, filled ?m)"
    using sections(5) by blast
  ultimately show ?thesis
    using header_fields [OF p, of op] sections(3,4) op bootp_op_known [OF op]
    by (simp add: unmarshal_def message_type_of_def layout received_def)
qed

section \<open>Which packets are accepted\<close>

lemma encodable_restrict: "encodable m \<Longrightarrow> encodable (m |` A)"
  by (auto simp: encodable_def opt_at_def restrict_map_def split: if_splits)

lemma write_field_iff:
  "(\<exists>r. write_field b opts str width = Inr r) \<longleftrightarrow> (b \<longrightarrow> encodable opts)"
  using marshal_limited_iff [of opts "int width" True]
  by (auto simp: write_field_def split: sum.splits)

lemma write_field_encodable:
  assumes "write_field b opts str width = Inr (w, left)"
  shows "encodable left \<longleftrightarrow> encodable opts"
proof (cases b)
  case True
  then have run: "marshal_limited opts (int width) True = Inr (w, left)"
    using assms by (auto simp: write_field_def split: sum.splits)
  then show ?thesis
    using marshal_limited_iff [of opts "int width" True] marshal_limited_decodes(2) [OF run]
    by (auto intro: encodable_restrict)
next
  case False
  with assms show ?thesis by (simp add: write_field_def)
qed

lemma marshal_success_iff:
  "(\<exists>bs. marshal p = Inr bs) \<longleftrightarrow>
     length (TransactionID p) = 4 \<and> length (HardwareAddr p) = 6 \<and> length (BootServerName p) \<le> 64 \<and>
     (fst (overload_flags (Options p)) \<longrightarrow> BootFilename p = []) \<and>
     (snd (overload_flags (Options p)) \<longrightarrow> BootServerName p = []) \<and>
     bootp_op (Type p) \<noteq> None \<and> encodable ((Options p)(53 := None))"
proof -
  let ?opts = "(Options p)(53 := None)"
  let ?m = "(Options p)(53 \<mapsto> Some [word_of_int (Type p) :: byte])"
  obtain f s where fs: "overload_flags (Options p) = (f, s)" by (cases "overload_flags (Options p)")
  have enc: "encodable ?m \<longleftrightarrow> encodable ?opts"
    by (auto simp: encodable_def opt_at_def legal_key_def split: if_splits)
  have "(\<exists>sn m1 fl m2 main. write_field s ?m (BootServerName p) 64 = Inr (sn, m1) \<and>
      write_field f m1 (BootFilename p) 128 = Inr (fl, m2) \<and> write_main m2 = Inr main) \<longleftrightarrow> encodable ?m"
    using write_field_iff [of s ?m "BootServerName p" 64] write_field_iff [of f _ "BootFilename p" 128]
      write_field_encodable write_main_iff
    by (metis surj_pair)
  with fs enc show ?thesis
    by (auto simp: marshal_iff)
qed

section \<open>What decoding guarantees\<close>

definition wf_packet :: "packet \<Rightarrow> bool" where
  "wf_packet p \<longleftrightarrow>
     length (TransactionID p) = 4 \<and> length (HardwareAddr p) = 6 \<and> bootp_op (Type p) \<noteq> None \<and>
     (\<forall>a \<in> {ClientAddr p, YourAddr p, ServerAddr p, RelayAddr p}. \<exists>ip. a = Some ip \<and> length ip = 4) \<and>
     name_ok 64 (BootServerName p) \<and> name_ok 128 (BootFilename p) \<and>
     (fst (overload_flags (Options p)) \<longrightarrow> BootFilename p = []) \<and>
     (snd (overload_flags (Options p)) \<longrightarrow> BootServerName p = []) \<and>
     encodable (Options p) \<and> None \<notin> ran (Options p) \<and> Options p 53 = None"

lemma opts_unmarshal_keeps:
  "opts_unmarshal m bs = (None, m') \<Longrightarrow> m k \<noteq> None \<Longrightarrow> k \<noteq> OptMessage \<Longrightarrow> m' k = m k"
proof (induction m bs rule: opts_unmarshal.induct)
  case (2 m opt rest)
  show ?case
  proof (cases "opt = 0 \<or> opt = 255 \<or> m opt \<noteq> None \<and> opt \<noteq> OptMessage \<or> rest = []")
    case True
    with 2 show ?thesis by (auto split: if_splits)
  next
    case False
    then obtain len payload where rest: "rest = len # payload" by (cases rest) auto
    with "2.IH"(2) [of len payload "unat len"] False "2.prems" show ?thesis
      by (auto simp: Let_def fun_upd_def split: if_splits)
  qed
qed simp

lemma length_sub: "j \<le> length bs \<Longrightarrow> length (sub i j bs) = j - i"
  by (simp add: sub_def)

lemma read_field_correct:
  assumes "read_field b acc w e1 e2 = Inr (str, acc')" and "encodable acc" and "None \<notin> ran acc"
  shows "w \<noteq> [] \<Longrightarrow> name_ok (length w) str" "b \<longrightarrow> str = []" "encodable acc'" "None \<notin> ran acc'"
    and "acc k \<noteq> None \<or> \<not> b \<Longrightarrow> k \<noteq> OptMessage \<Longrightarrow> acc' k = acc k"
proof -
  have "str = [] \<and> opts_unmarshal acc w = (None, acc')" if b
    using that assms(1) by (auto simp: read_field_def simp del: opts_unmarshal.simps
        split: prod.splits option.splits)
  moreover have "null_str w = Some str \<and> acc' = acc" if "\<not> b"
    using that assms(1) by (auto simp: read_field_def split: option.splits)
  ultimately consider (opts) "b" "str = []" "opts_unmarshal acc w = (None, acc')"
    | (str) "\<not> b" "null_str w = Some str" "acc' = acc" by blast
  then show "w \<noteq> [] \<Longrightarrow> name_ok (length w) str" "b \<longrightarrow> str = []" "encodable acc'" "None \<notin> ran acc'"
    and "acc k \<noteq> None \<or> \<not> b \<Longrightarrow> k \<noteq> OptMessage \<Longrightarrow> acc' k = acc k"
    using assms(2,3) decoded_options opts_unmarshal_keeps null_str_ok
    by (cases; simp add: name_ok_def; fail)+
qed

lemma message_type_of_iff:
  "message_type_of op m = Inr t \<longleftrightarrow> (\<exists>c. opt_byte m 53 = Inr c \<and> t = uint c \<and> bootp_op t = Some op)"
  by (auto simp: message_type_of_def split: sum.splits option.splits if_splits)

lemma unmarshal_iff:
  "unmarshal bs = Inr p \<longleftrightarrow>
     (\<exists>m f s sn m1 fn m2 t. 244 \<le> length bs \<and> sub 236 240 bs = magic \<and> bs ! 1 = 1 \<and> bs ! 2 = 6 \<and>
        opts_unmarshal Map.empty (drop 240 bs) = (None, m) \<and> overload_flags m = (f, s) \<and>
        read_field s m (sub 44 108 bs) MalformedSname UnterminatedSname = Inr (sn, m1) \<and>
        read_field f m1 (sub 108 236 bs) MalformedFile UnterminatedFile = Inr (fn, m2) \<and>
        message_type_of (bs ! 0) m2 = Inr t \<and>
        p = \<lparr>Type = t, TransactionID = sub 4 8 bs,
              Broadcast = (be16 (bs ! 10) (bs ! 11) AND 0x8000 \<noteq> 0), HardwareAddr = sub 28 34 bs,
              ClientAddr = Some (sub 12 16 bs), YourAddr = Some (sub 16 20 bs),
              ServerAddr = Some (sub 20 24 bs), RelayAddr = Some (sub 24 28 bs),
              BootServerName = sn, BootFilename = fn, Options = m2(53 := None)\<rparr>)"
proof (cases "opts_unmarshal Map.empty (drop 240 bs)")
  case (Pair e m)
  then show ?thesis
    by (cases e; cases "overload_flags m")
      (auto simp: unmarshal_def bind_res_Inr_iff not_less simp del: opts_unmarshal.simps)
qed

lemma decoded_wf:
  assumes "unmarshal bs = Inr p"
  shows "wf_packet p"
proof -
  obtain m f s sn m1 fn m2 t where len: "244 \<le> length bs"
    and main: "opts_unmarshal Map.empty (drop 240 bs) = (None, m)" and fs: "overload_flags m = (f, s)"
    and rsn: "read_field s m (sub 44 108 bs) MalformedSname UnterminatedSname = Inr (sn, m1)"
    and rfn: "read_field f m1 (sub 108 236 bs) MalformedFile UnterminatedFile = Inr (fn, m2)"
    and t: "message_type_of (bs ! 0) m2 = Inr t"
    and p: "p = \<lparr>Type = t, TransactionID = sub 4 8 bs,
              Broadcast = (be16 (bs ! 10) (bs ! 11) AND 0x8000 \<noteq> 0), HardwareAddr = sub 28 34 bs,
              ClientAddr = Some (sub 12 16 bs), YourAddr = Some (sub 16 20 bs),
              ServerAddr = Some (sub 20 24 bs), RelayAddr = Some (sub 24 28 bs),
              BootServerName = sn, BootFilename = fn, Options = m2(53 := None)\<rparr>"
    using assms by (auto simp: unmarshal_iff)
  have m: "encodable m" "None \<notin> ran m"
    using decoded_options [OF main] by auto
  note sn = read_field_correct [OF rsn m]
  note fn = read_field_correct [OF rfn sn(3,4)]
  have lens: "length (sub 44 108 bs) = 64" "length (sub 108 236 bs) = 128"
    using len by (simp_all add: length_sub)
  then have names: "name_ok 64 sn" "name_ok 128 fn"
    using sn(1) fn(1) by fastforce+
  have "m2 52 = m 52"
  proof (cases "f \<or> s")
    case True
    then have "m 52 \<noteq> None"
      using fs by (auto simp: overload_flags_def opt_byte_def opt_bytes_def opt_at_def
          split: sum.splits option.splits)
    with sn(5) [of 52] fn(5) [of 52] show ?thesis by auto
  next
    case False
    with sn(5) [of 52] fn(5) [of 52] show ?thesis by simp
  qed
  then have "overload_flags (m2(53 := None)) = (f, s)"
    using fs overload_flags_cong [of "m2(53 := None)" 52 m] by simp
  moreover have "encodable (m2(53 := None))" and "None \<notin> ran (m2(53 := None))"
    using fn(3,4) by (auto simp: encodable_def opt_at_def ran_def split: if_splits)
  moreover have "bootp_op t \<noteq> None"
    using t by (auto simp: message_type_of_iff)
  ultimately show ?thesis
    using len names sn(2) fn(2) by (simp add: wf_packet_def p length_sub)
qed

lemma received_wf: "wf_packet p \<Longrightarrow> received p = p"
proof -
  assume wf: "wf_packet p"
  then have "filled (Options p) = Options p" and "Options p 53 = None"
    by (simp_all add: wf_packet_def filled_idem)
  moreover have "a = Some (write_ip a)" if "a \<in> {ClientAddr p, YourAddr p, ServerAddr p, RelayAddr p}" for a
    using wf that by (auto simp: wf_packet_def write_ip_def)
  ultimately show ?thesis
    by (cases p) (auto simp: received_def fun_upd_idem)
qed

section \<open>Packets as a wire format\<close>

definition sends :: "packet \<Rightarrow> bytes \<Rightarrow> bool" where
  "sends p bs \<longleftrightarrow> marshal p = Inr bs \<and> name_ok 64 (BootServerName p) \<and> name_ok 128 (BootFilename p)"

lemma wf_sends:
  assumes "wf_packet p"
  shows "\<exists>bs. sends p bs"
proof -
  have "Options p = (Options p)(53 := None)"
    using assms by (simp add: wf_packet_def fun_upd_idem)
  with assms show ?thesis
    using marshal_success_iff [of p] by (auto simp: sends_def wf_packet_def name_ok_def)
qed

interpretation dhcp4: stable_codec sends unmarshal received
proof
  show "unmarshal w = Inr (received x)" if "sends x w" for x w
    using that by (auto simp: sends_def intro: decode_encoded)
  show "\<exists>v. sends x v" if "unmarshal w = Inr x" for x w
    using decoded_wf [OF that] by (rule wf_sends)
  show "received x = x" if "unmarshal w = Inr x" for x w
    using decoded_wf [OF that] by (rule received_wf)
qed

section \<open>Properties\<close>

definition sample_packet :: packet where
  "sample_packet = \<lparr>Type = MsgOffer, TransactionID = [1, 2, 3, 4], Broadcast = True,
     HardwareAddr = [2, 0, 0, 0, 0, 1], ClientAddr = None, YourAddr = Some [10, 0, 0, 7],
     ServerAddr = Some [10, 0, 0, 1], RelayAddr = None, BootServerName = ''10.0.0.1'',
     BootFilename = [], Options = [52 \<mapsto> Some [1], 66 \<mapsto> Some [7, 7]]\<rparr>"

lemma sample_packet_ok:
  "\<exists>bs. marshal sample_packet = Inr bs" "name_ok 64 (BootServerName sample_packet)"
  "name_ok 128 (BootFilename sample_packet)"
proof -
  have "encodable ((Options sample_packet)(53 := None))"
    by (auto simp: sample_packet_def encodable_def legal_key_def opt_at_def split: if_splits)
  then show "\<exists>bs. marshal sample_packet = Inr bs"
    by (simp add: marshal_success_iff) (simp add: sample_packet_def bootp_op_def overload_flags_def
        opt_byte_def opt_bytes_def opt_at_def)
qed (simp_all add: sample_packet_def name_ok_def bytes_of_def)

text \<open>
  C5. Packets survive the wire: a packet \<^verbatim>\<open>Marshal\<close> accepts, whose server name has fewer than 64 bytes and whose boot
  file name has fewer than 128, neither with a zero byte in it, is decoded by \<^verbatim>\<open>Unmarshal\<close>, with option overloading into
  \<^verbatim>\<open>sname\<close> and \<^verbatim>\<open>file\<close> undone. What comes out (\<open>received\<close>) has the same fields but for three things: the
  addresses come back in four-byte form (all zero for none), an option without a value comes back with an empty one, and
  the message type is in its field only, not in the options. (A name that does not fit is not always rejected: see
  \<open>overlong_filename_misencoded\<close>.)
\<close>

theorem unmarshal_marshal:
  assumes "marshal p = Inr bs"
    and "name_ok 64 (BootServerName p)" and "name_ok 128 (BootFilename p)"
  shows "unmarshal bs = Inr (received p)"
  using assms by (intro dhcp4.decodes) (simp add: sends_def)

theorem unmarshal_marshal_witness:
  "\<exists>bs. marshal sample_packet = Inr bs \<and> unmarshal bs = Inr (received sample_packet)"
  using sample_packet_ok unmarshal_marshal by blast

text \<open>
  \<^verbatim>\<open>Marshal\<close> succeeds exactly on packets with a four-byte transaction id, an Ethernet
  address, a server name of at most 64 bytes, a known message type, names left empty where
  option 52 claims their field, and an encodable option table: every other packet is rejected,
  and the length of the boot file name is not checked at all.
\<close>

theorem marshal_accepts:
  "(\<exists>bs. marshal p = Inr bs) \<longleftrightarrow>
     length (TransactionID p) = 4 \<and> length (HardwareAddr p) = 6 \<and> length (BootServerName p) \<le> 64 \<and>
     (fst (overload_flags (Options p)) \<longrightarrow> BootFilename p = []) \<and>
     (snd (overload_flags (Options p)) \<longrightarrow> BootServerName p = []) \<and>
     bootp_op (Type p) \<noteq> None \<and> encodable ((Options p)(53 := None))"
  by (rule marshal_success_iff)

theorem marshal_accepts_witness: "\<exists>bs. marshal sample_packet = Inr bs"
  using marshal_accepts [of sample_packet] sample_packet_ok(1) by blast

text \<open>
  C27. What \<^verbatim>\<open>Unmarshal\<close> returns is well formed: fixed-size identifiers and four-byte
  addresses, names that fit their fields with room for the terminator and contain no zero
  byte, a known message type, an encodable option table without nil values and without the
  message type option, and empty names wherever option 52 claimed the field.
\<close>

theorem unmarshal_wf:
  assumes "unmarshal bs = Inr p"
  shows "wf_packet p"
  using assms by (rule decoded_wf)

theorem unmarshal_wf_witness:
  "\<exists>bs. unmarshal bs = Inr (received sample_packet) \<and> wf_packet (received sample_packet)"
  using sample_packet_ok decode_encoded unmarshal_wf by blast

text \<open>
  C26. Decoding is stable under re-encoding: every packet \<^verbatim>\<open>Unmarshal\<close> accepts is accepted by
  \<^verbatim>\<open>Marshal\<close>, and its encoding (which may place the options differently) decodes to the
  identical packet.
\<close>

theorem unmarshal_stable:
  assumes "unmarshal bs = Inr p"
  shows "\<exists>bs'. marshal p = Inr bs' \<and> unmarshal bs' = Inr p"
  using dhcp4.re_encoded [OF assms] by (auto simp: sends_def)

theorem unmarshal_stable_witness:
  "\<exists>bs bs'. unmarshal bs = Inr (received sample_packet) \<and>
     marshal (received sample_packet) = Inr bs' \<and> unmarshal bs' = Inr (received sample_packet)"
  using sample_packet_ok decode_encoded unmarshal_stable by blast

text \<open>
  An over-long boot file name is encoded, not rejected (its length is not part of
  \<^verbatim>\<open>Marshal\<close>'s checks): an ASCII name of more than 128 bytes overruns its field and
  displaces the magic number, so that \<^verbatim>\<open>Unmarshal\<close> rejects the packet it produced.
\<close>

theorem overlong_filename_misencoded:
  assumes "marshal p = Inr bs" and "128 < length (BootFilename p)"
    and "\<forall>c \<in> set (bytes_of (BootFilename p)). c < 128"
  shows "unmarshal bs = Inl NoMagic"
proof -
  let ?fn = "bytes_of (BootFilename p)"
  obtain f s op sn m1 fl m2 main where p: "length (TransactionID p) = 4" "length (HardwareAddr p) = 6"
    and fs: "overload_flags (Options p) = (f, s)" and f: "f \<longrightarrow> BootFilename p = []" and sname: "length (BootServerName p) \<le> 64"
    and sn: "write_field s ((Options p)(53 \<mapsto> Some [word_of_int (Type p)])) (BootServerName p) 64 = Inr (sn, m1)"
    and fl: "write_field f m1 (BootFilename p) 128 = Inr (fl, m2)"
    and main: "write_main m2 = Inr main" and bs: "bs = header p op @ sn @ fl @ magic @ main"
    using assms(1) unfolding marshal_iff by blast
  have "\<not> f" and "length sn = 64"
    using f assms(2) write_field_correct(1) [OF sn] sname by auto
  then have "fl = ?fn"
    using fl assms(2) by (auto simp: write_field_def)
  then have "sub 236 240 bs = sub 128 132 (?fn @ magic @ main)"
    using \<open>length sn = 64\<close> p by (simp add: bs sub_append_right length_header)
  moreover have "sub 128 132 (?fn @ magic @ main) ! 1 = (?fn @ magic @ main) ! 129"
    using assms(2) by (subst nth_sub) (simp_all add: magic_def)
  moreover have "(?fn @ magic @ main) ! 129 \<noteq> 130"
    using assms(2) assms(3)[rule_format, of "?fn ! 129"] by (cases "129 < length ?fn")
      (auto simp: nth_append magic_def not_less dest!: nth_mem)
  ultimately have "sub 236 240 bs \<noteq> magic"
    by (auto simp: magic_def)
  moreover have "length bs \<ge> 244"
    using main_long_enough [OF sn fl main fs] assms(2) p \<open>length sn = 64\<close> \<open>fl = ?fn\<close> by (simp add: bs length_header magic_def)
  ultimately show ?thesis
    by (simp add: unmarshal_def)
qed

theorem overlong_filename_misencoded_witness:
  "\<exists>bs. marshal (sample_packet\<lparr>Options := Map.empty, BootFilename := replicate 129 CHR ''a''\<rparr>) = Inr bs \<and>
     unmarshal bs = Inl NoMagic"
proof -
  let ?p = "sample_packet\<lparr>Options := Map.empty, BootFilename := replicate 129 CHR ''a''\<rparr>"
  have "\<exists>bs. marshal ?p = Inr bs"
    by (simp add: marshal_success_iff) (simp add: sample_packet_def bootp_op_def overload_flags_def
        opt_byte_def opt_bytes_def opt_at_def)
  moreover have "128 < length (BootFilename ?p)" and "\<forall>c \<in> set (bytes_of (BootFilename ?p)). c < 128"
    by (simp_all add: bytes_of_def del: replicate_numeral)
  ultimately show ?thesis
    using overlong_filename_misencoded by blast
qed

end
