(* ===== verification/Go_Slice.thy ===== *)
theory Go_Slice
  imports Netboot_Prelude
begin

text \<open>
  Go byte slices with their spare capacity. Reslicing \<^verbatim>\<open>s[lo:hi]\<close> is checked against the
  capacity, not the length, so a slice that ends in the middle of a buffer can be extended over
  the bytes that follow it; \<^verbatim>\<open>s[lo:]\<close> ends at the length. A failed check is a panic.
\<close>

text \<open>The visible bytes, and the bytes of the underlying array that follow them.\<close>

type_synonym gslice = "bytes \<times> bytes"

definition reslice :: "gslice \<Rightarrow> nat \<Rightarrow> nat \<Rightarrow> gslice option" where
  "reslice s lo hi =
     (let array = fst s @ snd s in
      if lo \<le> hi \<and> hi \<le> length array then Some (take (hi - lo) (drop lo array), drop hi array) else None)"

definition reslice_from :: "gslice \<Rightarrow> nat \<Rightarrow> gslice option" where
  "reslice_from s lo = reslice s lo (length (fst s))"

text \<open>A slice with no spare capacity, as \<^verbatim>\<open>make([]byte, n)\<close> gives.\<close>

definition exact :: "bytes \<Rightarrow> gslice" where
  "exact bs = (bs, [])"

text \<open>\<^verbatim>\<open>binary.BigEndian.Uint16\<close> and \<^verbatim>\<open>Uint32\<close> check the length.\<close>

fun read16 :: "bytes \<Rightarrow> u16 option" where
  "read16 (a # b # _) = Some (be16 a b)"
| "read16 _ = None"

fun read32 :: "bytes \<Rightarrow> u32 option" where
  "read32 (a # b # c # d # _) = Some (be32 a b c d)"
| "read32 _ = None"

text \<open>\<^verbatim>\<open>copy(dst, src)\<close>: as many bytes as both have.\<close>

definition copy_over :: "bytes \<Rightarrow> bytes \<Rightarrow> bytes" where
  "copy_over dst src = take (length dst) src @ drop (length src) dst"

text \<open>An operation that may panic, in a function that may also return an error.\<close>

fun panics :: "'a option \<Rightarrow> 'e fault + 'a" where
  "panics None = Inl Panic"
| "panics (Some x) = Inr x"

lemma panics_iff [simp]:
  "panics x = Inr y \<longleftrightarrow> x = Some y" "panics x = Inl e \<longleftrightarrow> x = None \<and> e = Panic"
  by (cases x; auto)+

lemma bind_res_cong [fundef_cong]:
  "r = r' \<Longrightarrow> (\<And>x. r' = Inr x \<Longrightarrow> f x = g x) \<Longrightarrow> bind_res r f = bind_res r' g"
  by (cases r') auto

lemma reslice_iff:
  "reslice s lo hi = Some r \<longleftrightarrow> lo \<le> hi \<and> hi \<le> length (fst s) + length (snd s) \<and>
     r = (take (hi - lo) (drop lo (fst s @ snd s)), drop hi (fst s @ snd s))"
  by (auto simp: reslice_def Let_def)

lemma reslice_visible:
  assumes "lo \<le> hi" and "hi \<le> length v"
  shows "reslice (v, t) lo hi = Some (take (hi - lo) (drop lo v), drop hi v @ t)"
proof -
  have "take (hi - lo) (drop lo (v @ t)) = take (hi - lo) (drop lo v)"
    using assms by simp
  with assms show ?thesis by (auto simp: reslice_def Let_def)
qed

lemma reslice_from_eq:
  "reslice_from (v, t) lo = (if lo \<le> length v then Some (drop lo v, t) else None)"
  by (auto simp: reslice_from_def reslice_def)

lemma reslice_None_iff: "reslice s lo hi = None \<longleftrightarrow> \<not> (lo \<le> hi \<and> hi \<le> length (fst s) + length (snd s))"
  by (auto simp: reslice_def Let_def)

lemma length_copy_over [simp]: "length (copy_over dst src) = length dst"
  by (auto simp: copy_over_def)

lemma copy_over_fits: "length src \<le> length dst \<Longrightarrow> copy_over dst src = src @ drop (length src) dst"
  by (simp add: copy_over_def)

lemma copy_over_full: "length dst \<le> length src \<Longrightarrow> copy_over dst src = take (length dst) src"
  by (simp add: copy_over_def)

lemma read16_put16 [simp, wire]: "read16 (put16 w @ r) = Some w"
  using be16_put16 [of w] by (simp add: put16_def)

lemma read32_put32 [simp, wire]: "read32 (put32 w @ r) = Some w"
  using be32_put32 [of w] by (simp add: put32_def)

lemma read16_put16' [simp, wire]: "read16 (put16 w) = Some w" and read32_put32' [simp, wire]: "read32 (put32 w') = Some w'"
  using read16_put16 [of w "[]"] read32_put32 [of w' "[]"] by simp_all

lemma read16_length: "2 \<le> length bs \<longleftrightarrow> (\<exists>w. read16 bs = Some w)"
  by (induction bs rule: read16.induct) auto

lemma read32_length: "4 \<le> length bs \<longleftrightarrow> (\<exists>w. read32 bs = Some w)"
  by (induction bs rule: read32.induct) auto

lemma header_split:
  assumes "4 \<le> length v"
  obtains i l r where "v = put16 i @ put16 l @ r"
proof -
  from assms obtain a b c d r where "v = a # b # c # d # r"
    by (auto simp: numeral_eq_Suc Suc_le_length_iff)
  then have "v = put16 (be16 a b) @ put16 (be16 c d) @ r"
    using put16_be16 by simp
  then show ?thesis using that by blast
qed

lemma header_eq_iff [simp]:
  "put16 i @ put16 l @ r = put16 i' @ put16 l' @ r' \<longleftrightarrow> i = i' \<and> l = l' \<and> r = r'"
  by (simp add: put16_inj)

lemma put16_not_Nil [simp]: "put16 w \<noteq> []" and put32_not_Nil [simp]: "put32 w' \<noteq> []"
  by (simp_all add: put16_def put32_def)

end
