(* ===== verification/Dhcp6_Options.thy ===== *)
theory Dhcp6_Options
  imports Go_Slice
begin

text \<open>
  DHCPv6 options (\<^verbatim>\<open>dhcp6/options.go\<close>): the decoder on slices with spare capacity, the
  encoder in the order a map iteration yields, the option constructors and the accessors.
\<close>

section \<open>Data\<close>

record option6 =
  ID :: u16
  Length :: u16
  Value :: gslice

type_synonym options6 = "u16 \<Rightarrow> option6 list option"

text \<open>The option codes the code uses.\<close>

abbreviation (input) OptClientID :: u16 where "OptClientID \<equiv> 1"
abbreviation (input) OptServerID :: u16 where "OptServerID \<equiv> 2"
abbreviation (input) OptIaNa :: u16 where "OptIaNa \<equiv> 3"
abbreviation (input) OptIaTa :: u16 where "OptIaTa \<equiv> 4"
abbreviation (input) OptIaAddr :: u16 where "OptIaAddr \<equiv> 5"
abbreviation (input) OptOro :: u16 where "OptOro \<equiv> 6"
abbreviation (input) OptPreference :: u16 where "OptPreference \<equiv> 7"
abbreviation (input) OptStatusCode :: u16 where "OptStatusCode \<equiv> 13"
abbreviation (input) OptVendorClass :: u16 where "OptVendorClass \<equiv> 16"
abbreviation (input) OptRecursiveDNS :: u16 where "OptRecursiveDNS \<equiv> 23"
abbreviation (input) OptBootfileURL :: u16 where "OptBootfileURL \<equiv> 59"
abbreviation (input) OptClientArchType :: u16 where "OptClientArchType \<equiv> 61"

datatype option6_error = OroOddLength u16 | PayloadTooShort u16 u16 nat

definition make_option :: "u16 \<Rightarrow> gslice \<Rightarrow> option6" where
  "make_option i v = \<lparr>ID = i, Length = word_of_nat (length (fst v)), Value = v\<rparr>"

definition opts_append :: "options6 \<Rightarrow> option6 \<Rightarrow> options6" where
  "opts_append opts x = opts(ID x \<mapsto> (case opts (ID x) of None \<Rightarrow> [] | Some xs \<Rightarrow> xs) @ [x])"

definition opts_add :: "options6 \<Rightarrow> option6 \<Rightarrow> options6" where
  "opts_add opts x =
     (let opts' = (if opts (ID x) = None then opts(ID x \<mapsto> []) else opts)
      in opts'(ID x \<mapsto> the (opts' (ID x)) @ [x]))"

section \<open>Decoding\<close>

definition unmarshal_option :: "gslice \<Rightarrow> option6_error fault + option6" where
  "unmarshal_option s =
     bind_res (panics (reslice s 2 4)) (\<lambda>lb. bind_res (panics (read16 (fst lb))) (\<lambda>optionLength.
     bind_res (panics (reslice s 0 2)) (\<lambda>ib. bind_res (panics (read16 (fst ib))) (\<lambda>optionID.
     bind_res
       (if optionID = OptOro then
          (if optionLength mod 2 \<noteq> 0 then Inl (Fault (OroOddLength optionLength)) else Inr ())
        else bind_res (panics (reslice_from s 4)) (\<lambda>rest.
          if length (fst rest) < unat optionLength
          then Inl (Fault (PayloadTooShort optionID optionLength (length (fst rest)))) else Inr ()))
       (\<lambda>_. bind_res (panics (reslice s 4 (unat (4 + optionLength)))) (\<lambda>v.
         Inr \<lparr>ID = optionID, Length = optionLength, Value = v\<rparr>))))))"

function unmarshal_loop :: "gslice \<Rightarrow> options6 \<Rightarrow> option6_error fault + options6" where
  "unmarshal_loop s ret =
     (if fst s = [] then Inr ret
      else bind_res (unmarshal_option s) (\<lambda>x.
        bind_res (panics (reslice s 4 (unat (4 + Length x)))) (\<lambda>v.
        bind_res (panics (reslice_from s (unat (4 + Length x)))) (\<lambda>rest.
          unmarshal_loop rest (opts_append ret \<lparr>ID = ID x, Length = Length x, Value = v\<rparr>)))))"
  by pat_completeness auto
termination
  by (relation "measure (\<lambda>(s, _). length (fst s))") (auto simp: reslice_iff reslice_from_def)

declare unmarshal_loop.simps [simp del]

definition unmarshal_options :: "gslice \<Rightarrow> option6_error fault + options6" where
  "unmarshal_options s = unmarshal_loop s Map.empty"

section \<open>Encoding\<close>

definition marshal_option :: "option6 \<Rightarrow> bytes" where
  "marshal_option x = put16 (ID x) @ put16 (Length x) @ fst (Value x)"

text \<open>
  \<^verbatim>\<open>Options.Marshal\<close> ranges over a map: the order of the keys \<open>ks\<close> is the runtime's choice.
  Writing to a \<^verbatim>\<open>bytes.Buffer\<close> does not fail, so there is no error to return.
\<close>

fun marshal_options :: "u16 list \<Rightarrow> options6 \<Rightarrow> bytes" where
  "marshal_options [] opts = []"
| "marshal_options (k # ks) opts =
     concat (map marshal_option (case opts k of None \<Rightarrow> [] | Some xs \<Rightarrow> xs)) @ marshal_options ks opts"

section \<open>What the decoder accepts\<close>

lemma unmarshal_option_header:
  "unmarshal_option (put16 i @ put16 l @ r, t) =
     (if i = 6 then
        (if l mod 2 \<noteq> 0 then Inl (Fault (OroOddLength l))
         else bind_res (panics (reslice (put16 i @ put16 l @ r, t) 4 (unat (4 + l))))
           (\<lambda>v. Inr \<lparr>ID = i, Length = l, Value = v\<rparr>))
      else if length r < unat l then Inl (Fault (PayloadTooShort i l (length r)))
      else bind_res (panics (reslice (put16 i @ put16 l @ r, t) 4 (unat (4 + l))))
           (\<lambda>v. Inr \<lparr>ID = i, Length = l, Value = v\<rparr>))"
  by (simp add: unmarshal_option_def reslice_visible reslice_from_eq)

lemma unat_add_4: "unat (4 + l :: u16) = (if unat l < 65532 then 4 + unat l else unat l - 65532)"
proof -
  have "(4 + n) mod 65536 = n - 65532" if "n < 65536" "\<not> n < 65532" for n :: nat
    using that by (intro mod_nat_eqI) auto
  then show ?thesis
    using unsigned_less [of l, where ?'a = nat] by (auto simp: unat_word_ariths)
qed

text \<open>The visible part of an option table: what a reader of the values sees.\<close>

definition seen :: "option6 \<Rightarrow> u16 \<times> u16 \<times> bytes" where
  "seen x = (ID x, Length x, fst (Value x))"

definition view6 :: "options6 \<Rightarrow> u16 \<Rightarrow> (u16 \<times> u16 \<times> bytes) list option" where
  "view6 opts k = map_option (map seen) (opts k)"

text \<open>An option the decoder reads back: its length field is its payload's, below 65532.\<close>

definition framed :: "option6 \<Rightarrow> bool" where
  "framed x \<longleftrightarrow> unat (Length x) = length (fst (Value x)) \<and> length (fst (Value x)) < 65532 \<and>
     (ID x = 6 \<longrightarrow> Length x mod 2 = 0)"

lemma unmarshal_loop_framed:
  assumes "framed x"
  shows "unmarshal_loop (marshal_option x @ r, t) ret =
    unmarshal_loop (r, t) (opts_append ret (x\<lparr>Value := (fst (Value x), r @ t)\<rparr>))"
proof -
  define s where "s = (marshal_option x @ r, t)"
  have n: "unat (4 + Length x) = 4 + length (fst (Value x))"
    using assms by (simp add: unat_add_4 framed_def)
  have v: "reslice s 4 (unat (4 + Length x)) = Some (fst (Value x), r @ t)"
    by (simp add: s_def marshal_option_def n reslice_visible)
  have "unmarshal_option s = Inr \<lparr>ID = ID x, Length = Length x, Value = (fst (Value x), r @ t)\<rparr>"
    using assms v by (cases "ID x = 6") (simp_all add: s_def marshal_option_def unmarshal_option_header framed_def)
  moreover have "reslice_from s (unat (4 + Length x)) = Some (r, t)"
    by (simp add: s_def marshal_option_def n reslice_from_eq)
  moreover have "fst s \<noteq> []" by (simp add: s_def marshal_option_def put16_def)
  ultimately show ?thesis
    using v by (subst s_def [symmetric]) (subst unmarshal_loop.simps, cases x, simp)
qed

definition encode_all :: "option6 list \<Rightarrow> bytes" where
  "encode_all xs = concat (map marshal_option xs)"

definition collect :: "option6 list \<Rightarrow> options6" where
  "collect xs = foldl opts_append Map.empty xs"

lemma encode_all_simps [simp]:
  "encode_all [] = []" "encode_all (x # xs) = marshal_option x @ encode_all xs"
  "encode_all (xs @ ys) = encode_all xs @ encode_all ys"
  by (simp_all add: encode_all_def)

lemma view6_append:
  "view6 (opts_append opts x) =
     (view6 opts)(ID x \<mapsto> (case view6 opts (ID x) of None \<Rightarrow> [] | Some xs \<Rightarrow> xs) @ [seen x])"
  by (auto simp: view6_def opts_append_def fun_eq_iff split: option.split)

lemma view6_append_cong:
  "view6 opts = view6 opts' \<Longrightarrow> seen x = seen y \<Longrightarrow> view6 (opts_append opts x) = view6 (opts_append opts' y)"
  by (simp add: view6_append) (simp add: seen_def)

lemma unmarshal_loop_all:
  assumes "list_all framed xs" and "view6 ret = view6 ret'"
  shows "\<exists>acc. unmarshal_loop (encode_all xs @ r, t) ret = unmarshal_loop (r, t) acc \<and>
    view6 acc = view6 (foldl opts_append ret' xs)"
  using assms
proof (induction xs arbitrary: ret ret')
  case (Cons x xs)
  let ?y = "x\<lparr>Value := (fst (Value x), encode_all xs @ r @ t)\<rparr>"
  have "unmarshal_loop (encode_all (x # xs) @ r, t) ret = unmarshal_loop (encode_all xs @ r, t) (opts_append ret ?y)"
    using unmarshal_loop_framed [of x "encode_all xs @ r" t ret] Cons.prems(1) by simp
  moreover have "view6 (opts_append ret ?y) = view6 (opts_append ret' x)"
    using Cons.prems(2) by (intro view6_append_cong) (simp_all add: seen_def)
  ultimately show ?case
    using Cons.IH [of "opts_append ret ?y" "opts_append ret' x"] Cons.prems(1) by simp
qed auto

text \<open>One step of the decoder on an input it does not reject.\<close>

lemma unmarshal_loop_Inr:
  assumes "unmarshal_loop (v, t) ret = Inr opts" and "v \<noteq> []"
  obtains x r where "framed x" "v = marshal_option x @ r" "unmarshal_loop (r, t) (opts_append ret x) = Inr opts"
proof -
  from assms obtain x u where x: "unmarshal_option (v, t) = Inr x"
    and u: "reslice (v, t) 4 (unat (4 + Length x)) = Some u" and le: "unat (4 + Length x) \<le> length v"
    and rest: "unmarshal_loop (drop (unat (4 + Length x)) v, t)
        (opts_append ret \<lparr>ID = ID x, Length = Length x, Value = u\<rparr>) = Inr opts"
    by (subst (asm) unmarshal_loop.simps) (auto simp: bind_res_Inr_iff reslice_from_eq split: if_splits)
  from u have n: "unat (4 + Length x) = 4 + unat (Length x)" "unat (Length x) < 65532"
    using unsigned_less [of "Length x", where ?'a = nat] by (auto simp: reslice_iff unat_add_4 split: if_splits)
  with le obtain i l r where v: "v = put16 i @ put16 l @ r"
    by (metis header_split le_add1 order_trans)
  with x have "ID x = i" "Length x = l" "i = 6 \<longrightarrow> l mod 2 = 0"
    unfolding v by (auto simp: unmarshal_option_header bind_res_Inr_iff split: if_splits)
  moreover from this n le v have l: "unat l \<le> length r" by simp
  moreover from u n l \<open>Length x = l\<close> v have "fst u = take (unat l) r"
    by (auto simp: reslice_visible)
  ultimately show ?thesis
    using that [of "\<lparr>ID = ID x, Length = Length x, Value = u\<rparr>" "drop (unat l) r"] rest n v
    by (simp add: framed_def marshal_option_def)
qed

lemma unmarshal_loop_decodes:
  assumes "unmarshal_loop (v, t) ret = Inr opts"
  shows "\<exists>xs. list_all framed xs \<and> v = encode_all xs \<and> opts = foldl opts_append ret xs"
  using assms
proof (induction "length v" arbitrary: v ret rule: less_induct)
  case less
  show ?case
  proof (cases "v = []")
    case True
    with less.prems show ?thesis
      by (intro exI [of _ "[]"]) (simp add: unmarshal_loop.simps)
  next
    case False
    with less.prems obtain x r where x: "framed x" "v = marshal_option x @ r"
      and r: "unmarshal_loop (r, t) (opts_append ret x) = Inr opts"
      by (rule unmarshal_loop_Inr)
    from x have "length r < length v" by (simp add: marshal_option_def)
    from less.hyps [OF this r] obtain xs where "list_all framed xs" "r = encode_all xs" "opts = foldl opts_append (opts_append ret x) xs"
      by blast
    with x show ?thesis by (intro exI [of _ "x # xs"]) simp
  qed
qed

lemma unmarshal_options_encoded:
  assumes "list_all framed xs"
  shows "\<exists>opts. unmarshal_options (encode_all xs, t) = Inr opts \<and> view6 opts = view6 (collect xs)"
  using unmarshal_loop_all [OF assms refl, of "[]" t Map.empty]
  by (auto simp: unmarshal_options_def collect_def unmarshal_loop.simps)

lemma unmarshal_options_decodes:
  "unmarshal_options (v, t) = Inr opts \<Longrightarrow> \<exists>xs. list_all framed xs \<and> v = encode_all xs \<and> opts = collect xs"
  unfolding unmarshal_options_def collect_def by (rule unmarshal_loop_decodes)

section \<open>Tables and their encodings\<close>

text \<open>A table as the code builds it: options filed under their own id, no empty entry.\<close>

definition filed :: "options6 \<Rightarrow> bool" where
  "filed opts \<longleftrightarrow> (\<forall>k xs. opts k = Some xs \<longrightarrow> xs \<noteq> [] \<and> (\<forall>x \<in> set xs. ID x = k))"

definition in_order :: "u16 list \<Rightarrow> options6 \<Rightarrow> option6 list" where
  "in_order ks opts = concat (map (\<lambda>k. case opts k of None \<Rightarrow> [] | Some xs \<Rightarrow> xs) ks)"

definition enumerates :: "u16 list \<Rightarrow> options6 \<Rightarrow> bool" where
  "enumerates ks opts \<longleftrightarrow> distinct ks \<and> set ks = dom opts"

lemma marshal_options_encode: "marshal_options ks opts = encode_all (in_order ks opts)"
  by (induction ks) (simp_all add: in_order_def encode_all_def)

lemma opts_add_eq_append [simp]: "opts_add opts x = opts_append opts x"
  by (auto simp: opts_add_def opts_append_def)

lemma filed_append [simp]: "filed opts \<Longrightarrow> filed (opts_append opts x)"
  by (cases "opts (ID x)") (auto simp: filed_def opts_append_def)

lemma filed_empty [simp]: "filed Map.empty"
  by (simp add: filed_def)

lemma filed_foldl: "filed opts \<Longrightarrow> filed (foldl opts_append opts xs)"
  by (induction xs arbitrary: opts) simp_all

lemma filed_collect [simp]: "filed (collect xs)"
  by (simp add: collect_def filed_foldl)

lemma foldl_append_one_key:
  assumes "\<forall>x \<in> set xs. ID x = k" and "xs \<noteq> []"
  shows "foldl opts_append opts xs = opts(k \<mapsto> (case opts k of None \<Rightarrow> [] | Some ys \<Rightarrow> ys) @ xs)"
  using assms
proof (induction xs rule: rev_induct)
  case (snoc x xs)
  then show ?case by (cases "xs = []") (auto simp: opts_append_def split: option.splits)
qed simp

lemma foldl_in_order:
  assumes "filed opts" and "distinct ks" and "set ks \<inter> dom acc = {}" and "set ks \<subseteq> dom opts"
  shows "foldl opts_append acc (in_order ks opts) = acc ++ opts |` set ks"
  using assms
proof (induction ks arbitrary: acc)
  case (Cons k ks)
  then obtain xs where xs: "opts k = Some xs" by auto
  with Cons.prems(1) have "xs \<noteq> []" "\<forall>x \<in> set xs. ID x = k" by (auto simp: filed_def)
  with Cons.prems(3) have "foldl opts_append acc xs = acc(k \<mapsto> xs)"
    by (subst foldl_append_one_key) (auto simp: domIff)
  then have "foldl opts_append acc (in_order (k # ks) opts) = foldl opts_append (acc(k \<mapsto> xs)) (in_order ks opts)"
    using xs by (simp add: in_order_def)
  also have "\<dots> = acc(k \<mapsto> xs) ++ opts |` set ks"
    using Cons.prems by (intro Cons.IH) (auto split: if_splits)
  also have "\<dots> = acc ++ opts |` set (k # ks)"
    using xs Cons.prems(2) by (auto simp: fun_eq_iff map_add_def restrict_map_def split: option.split)
  finally show ?case .
qed (simp add: in_order_def)

lemma collect_in_order:
  assumes "filed opts" and "enumerates ks opts"
  shows "collect (in_order ks opts) = opts"
  using foldl_in_order [OF assms(1), of ks Map.empty] assms(2) by (simp add: enumerates_def collect_def)

definition all_framed :: "options6 \<Rightarrow> bool" where
  "all_framed opts \<longleftrightarrow> (\<forall>k xs. opts k = Some xs \<longrightarrow> list_all framed xs)"

lemma in_order_framed:
  assumes "all_framed opts" shows "list_all framed (in_order ks opts)"
proof -
  have "list_all framed (case opts k of None \<Rightarrow> [] | Some xs \<Rightarrow> xs)" for k
    using assms by (cases "opts k") (simp_all add: all_framed_def)
  then show ?thesis by (auto simp: in_order_def list_all_iff)
qed

lemma decode_marshalled:
  assumes "filed opts" and "all_framed opts" and "enumerates ks opts"
  shows "\<exists>opts'. unmarshal_options (marshal_options ks opts, t) = Inr opts' \<and> view6 opts' = view6 opts"
  using unmarshal_options_encoded [OF in_order_framed [OF assms(2)], of ks t] collect_in_order [OF assms(1,3)]
  by (simp add: marshal_options_encode)

section \<open>Inputs the decoder does not survive\<close>

lemma unmarshal_loop_header:
  "unmarshal_loop (put16 i @ put16 l @ r, t) ret =
     (if i = 6 \<and> l mod 2 \<noteq> 0 then Inl (Fault (OroOddLength l))
      else if i \<noteq> 6 \<and> length r < unat l then Inl (Fault (PayloadTooShort i l (length r)))
      else if unat l < 65532 \<and> unat l \<le> length r
      then unmarshal_loop (drop (unat l) r, t)
        (opts_append ret \<lparr>ID = i, Length = l, Value = (take (unat l) r, drop (unat l) r @ t)\<rparr>)
      else Inl Panic)"
proof -
  define s where "s = (put16 i @ put16 l @ r, t)"
  define od where "od \<longleftrightarrow> l mod 2 \<noteq> 0"
  have ne: "fst s \<noteq> []" by (simp add: s_def put16_def)
  have big: "reslice s 4 (unat (4 + l)) = None" if "\<not> unat l < 65532"
    using that unsigned_less [of l, where ?'a = nat] by (simp add: reslice_None_iff unat_add_4)
  have over: "reslice_from s (unat (4 + l)) = None" if "unat l < 65532" "\<not> unat l \<le> length r"
    using that by (simp add: s_def reslice_from_eq unat_add_4)
  have ok: "reslice s 4 (unat (4 + l)) = Some (take (unat l) r, drop (unat l) r @ t)"
    "reslice_from s (unat (4 + l)) = Some (drop (unat l) r, t)" if "unat l < 65532" "unat l \<le> length r"
    using that by (simp_all add: s_def reslice_visible reslice_from_eq unat_add_4)
  have opt: "unmarshal_option s =
     (if i = 6 \<and> od then Inl (Fault (OroOddLength l))
      else if i \<noteq> 6 \<and> length r < unat l then Inl (Fault (PayloadTooShort i l (length r)))
      else bind_res (panics (reslice s 4 (unat (4 + l)))) (\<lambda>v. Inr \<lparr>ID = i, Length = l, Value = v\<rparr>))"
    by (simp add: s_def unmarshal_option_header od_def)
  have "unmarshal_loop s ret = (if i = 6 \<and> od then Inl (Fault (OroOddLength l))
      else if i \<noteq> 6 \<and> length r < unat l then Inl (Fault (PayloadTooShort i l (length r)))
      else if unat l < 65532 \<and> unat l \<le> length r
      then unmarshal_loop (drop (unat l) r, t)
        (opts_append ret \<lparr>ID = i, Length = l, Value = (take (unat l) r, drop (unat l) r @ t)\<rparr>)
      else Inl Panic)" (is "_ = ?rhs")
  proof (cases "i = 6 \<and> od \<or> i \<noteq> 6 \<and> length r < unat l")
    case True
    with opt ne show "unmarshal_loop s ret = ?rhs" by (subst unmarshal_loop.simps) auto
  next
    case False
    consider "\<not> unat l < 65532" | "unat l < 65532" "\<not> unat l \<le> length r" | "unat l < 65532" "unat l \<le> length r"
      by blast
    then show "unmarshal_loop s ret = ?rhs"
    proof cases
      case 1
      with False opt ne big show ?thesis by (subst unmarshal_loop.simps) auto
    next
      case 2
      with False opt ne over show ?thesis
        by (subst unmarshal_loop.simps) (cases "reslice s 4 (unat (4 + l))"; auto)
    next
      case 3
      with False opt ne ok show ?thesis by (subst unmarshal_loop.simps) auto
    qed
  qed
  then show ?thesis by (simp only: s_def od_def)
qed

text \<open>A remainder of one to three bytes: the header is read out of the spare capacity.\<close>

definition residual_oro :: "bytes \<Rightarrow> u16 \<Rightarrow> bool" where
  "residual_oro array l \<longleftrightarrow> (\<exists>r. array = put16 6 @ put16 l @ r) \<and> l mod 2 \<noteq> 0"

lemma unmarshal_loop_short:
  assumes "v \<noteq> []" and "length v < 4"
  shows "(unmarshal_loop (v, t) ret = Inl Panic \<longleftrightarrow> (\<forall>l. \<not> residual_oro (v @ t) l)) \<and>
    (\<exists>e. unmarshal_loop (v, t) ret = Inl e)"
proof (cases "4 \<le> length (v @ t)")
  case False
  then have "unmarshal_option (v, t) = Inl Panic"
    by (auto simp: unmarshal_option_def reslice_def Let_def)
  moreover have "\<not> residual_oro (v @ t) l" for l
  proof
    assume "residual_oro (v @ t) l"
    then obtain r where "v @ t = put16 6 @ put16 l @ r" by (auto simp: residual_oro_def)
    from arg_cong [OF this, of length] False show False by simp
  qed
  ultimately show ?thesis using assms(1) by (subst (1 2) unmarshal_loop.simps) simp
next
  case True
  then obtain i l r where vt: "v @ t = put16 i @ put16 l @ r" by (rule header_split)
  have "reslice (v, t) 2 4 = Some (put16 l, r)" "reslice (v, t) 0 2 = Some (put16 i, put16 l @ r)"
    "reslice_from (v, t) 4 = None"
    using assms(2) True vt by (auto simp: reslice_def Let_def reslice_from_eq)
  then have opt: "unmarshal_option (v, t) = (if i = 6 then
      (if l mod 2 \<noteq> 0 then Inl (Fault (OroOddLength l))
       else bind_res (panics (reslice (v, t) 4 (unat (4 + l)))) (\<lambda>u. Inr \<lparr>ID = i, Length = l, Value = u\<rparr>))
    else Inl Panic)"
    by (simp add: unmarshal_option_def)
  have "residual_oro (v @ t) l' \<longleftrightarrow> i = 6 \<and> l' = l \<and> l mod 2 \<noteq> 0" for l'
      by (auto simp: residual_oro_def vt)
  moreover have "reslice_from (v, t) (unat (4 + l)) = None \<or> reslice (v, t) 4 (unat (4 + l)) = None"
    using assms(2) by (auto simp: reslice_from_eq reslice_def)
  ultimately show ?thesis
    using assms(1) opt
    by (subst (1 2) unmarshal_loop.simps) (cases "reslice (v, t) 4 (unat (4 + l))"; auto)
qed

definition crashes :: "bytes \<Rightarrow> bytes \<Rightarrow> bool" where
  "crashes w t \<longleftrightarrow>
     w \<noteq> [] \<and> length w < 4 \<and> (\<forall>l. \<not> residual_oro (w @ t) l) \<or>
     (\<exists>i l r. w = put16 i @ put16 l @ r \<and> (if i = 6 then l mod 2 = 0 \<and> (length r < unat l \<or> 65532 \<le> unat l)
        else 65532 \<le> unat l \<and> unat l \<le> length r))"

lemma crashes_header:
  "crashes (put16 i @ put16 l @ r) t \<longleftrightarrow>
     (if i = 6 then l mod 2 = 0 \<and> (length r < unat l \<or> 65532 \<le> unat l) else 65532 \<le> unat l \<and> unat l \<le> length r)"
  using put16_inj by (auto simp: crashes_def)

lemma crashes_not_framed: "framed x \<Longrightarrow> \<not> crashes (marshal_option x @ r) t"
  by (auto simp: marshal_option_def crashes_header framed_def)

text \<open>A crash lies at the start or behind a first option that is read.\<close>

lemma crash_behind_options:
  "(\<exists>xs w. list_all framed xs \<and> v = encode_all xs @ w \<and> crashes w t) \<longleftrightarrow>
     crashes v t \<or> (\<exists>x r. framed x \<and> v = marshal_option x @ r \<and>
       (\<exists>xs w. list_all framed xs \<and> r = encode_all xs @ w \<and> crashes w t))" (is "?L \<longleftrightarrow> ?R")
proof
  assume ?L
  then obtain xs w where xs: "list_all framed xs" "v = encode_all xs @ w" "crashes w t" by blast
  show ?R
  proof (cases xs)
    case (Cons x ys)
    with xs show ?thesis
      by (intro disjI2 exI [of _ x] exI [of _ "encode_all ys @ w"] conjI) (auto)
  qed (use xs in simp)
next
  assume ?R
  then show ?L
    by (elim disjE exE conjE)
      (rule exI [of _ "[]"], simp, metis append_assoc encode_all_simps(2) list.pred_inject(2))
qed

lemma unmarshal_loop_Panic:
  "unmarshal_loop (v, t) ret = Inl Panic \<longleftrightarrow> (\<exists>xs w. list_all framed xs \<and> v = encode_all xs @ w \<and> crashes w t)"
proof (induction "length v" arbitrary: v ret rule: less_induct)
  case less
  note step = crash_behind_options [of v t]
  consider "v = []" | "v \<noteq> []" "length v < 4" | "4 \<le> length v" by linarith
  then show ?case
  proof cases
    case 1
    then show ?thesis by (simp add: unmarshal_loop.simps crashes_def)
  next
    case 2
    then have "framed x \<Longrightarrow> v \<noteq> marshal_option x @ r" for x r
      by (auto simp: marshal_option_def)
    moreover have "crashes v t \<longleftrightarrow> (\<forall>l. \<not> residual_oro (v @ t) l)"
      using 2 by (auto simp: crashes_def)
    ultimately show ?thesis using 2 unmarshal_loop_short [of v t ret] step by auto
  next
    case 3
    then obtain i l r where v: "v = put16 i @ put16 l @ r" by (rule header_split)
    show ?thesis
    proof (cases "unat l < 65532 \<and> unat l \<le> length r \<and> (i = 6 \<longrightarrow> l mod 2 = 0)")
      case True
      define x where "x = \<lparr>ID = i, Length = l, Value = (take (unat l) r, drop (unat l) r @ t)\<rparr>"
      have x: "framed x" "v = marshal_option x @ drop (unat l) r"
        using True by (simp_all add: x_def framed_def marshal_option_def v)
      have one: "framed y \<Longrightarrow> v = marshal_option y @ r' \<Longrightarrow> r' = drop (unat l) r" for y r'
        unfolding v marshal_option_def using put16_inj by (auto simp: framed_def)
      have "unmarshal_loop (v, t) ret = Inl Panic \<longleftrightarrow>
          (\<exists>xs w. list_all framed xs \<and> drop (unat l) r = encode_all xs @ w \<and> crashes w t)"
        using True less.hyps [of "drop (unat l) r"] by (auto simp: v unmarshal_loop_header simp del: not_mod_2_eq_0_eq_1)
      also have "\<dots> \<longleftrightarrow> (\<exists>y r'. framed y \<and> v = marshal_option y @ r' \<and>
          (\<exists>xs w. list_all framed xs \<and> r' = encode_all xs @ w \<and> crashes w t))"
        using x one by metis
      finally show ?thesis using step crashes_not_framed x by metis
    next
      case False
      then have "\<not> framed x \<or> v \<noteq> marshal_option x @ r'" for x r'
        unfolding v marshal_option_def using put16_inj by (auto simp: framed_def)
      moreover have "unmarshal_loop (v, t) ret = Inl Panic \<longleftrightarrow> crashes v t"
        using False by (auto simp: v unmarshal_loop_header crashes_header) (metis even_iff_mod_2_eq_zero not_mod_2_eq_0_eq_1)+
      ultimately show ?thesis using step by blast
    qed
  qed
qed

section \<open>Decoded tables\<close>

lemma all_framed_append: "all_framed opts \<Longrightarrow> framed x \<Longrightarrow> all_framed (opts_append opts x)"
  by (cases "opts (ID x)") (auto simp: all_framed_def opts_append_def)

lemma all_framed_foldl: "all_framed opts \<Longrightarrow> list_all framed xs \<Longrightarrow> all_framed (foldl opts_append opts xs)"
  by (induction xs arbitrary: opts) (simp_all add: all_framed_append)

lemma decoded_tables:
  assumes "unmarshal_options s = Inr opts" shows "filed opts" "all_framed opts"
proof -
  from assms obtain xs where "list_all framed xs" "opts = collect xs"
    using unmarshal_options_decodes [of "fst s" "snd s"] by auto
  then show "filed opts" "all_framed opts"
    using all_framed_foldl [of Map.empty xs] by (simp_all add: collect_def filed_foldl all_framed_def)
qed

section \<open>Properties\<close>

text \<open>A small table for the examples: a client id and an option request for option 59.\<close>

definition sample_options6 :: options6 where
  "sample_options6 = [1 \<mapsto> [make_option 1 (exact [0, 3, 0, 1])], 6 \<mapsto> [make_option 6 (exact [0, 59])]]"

lemma sample_options6_ok: "filed sample_options6" "all_framed sample_options6" "enumerates [6, 1] sample_options6"
  by (auto simp: filed_def all_framed_def enumerates_def sample_options6_def make_option_def framed_def exact_def)

text \<open>
  Whatever order the map is ranged over in, and whatever follows the packet in its buffer,
  the encoding of a table decodes to the table: same ids, lengths and values in the same order
  under each id.
\<close>

theorem options6_roundtrip:
  assumes "filed opts" and "all_framed opts" and "enumerates ks opts"
  shows "\<exists>opts'. unmarshal_options (marshal_options ks opts, t) = Inr opts' \<and> view6 opts' = view6 opts"
  by (rule decode_marshalled [OF assms])

theorem options6_roundtrip_witness:
  "\<exists>opts'. unmarshal_options (marshal_options [6, 1] sample_options6, [7]) = Inr opts' \<and>
     view6 opts' = view6 sample_options6"
  by (rule options6_roundtrip [OF sample_options6_ok])

text \<open>
  The decoder accepts exactly the concatenations of well-framed options, and returns them
  collected by id in order of appearance.
\<close>

theorem options6_accepts:
  "(\<exists>opts. unmarshal_options (v, t) = Inr opts \<and> view6 opts = table) \<longleftrightarrow>
     (\<exists>xs. list_all framed xs \<and> v = encode_all xs \<and> view6 (collect xs) = table)"
  using unmarshal_options_decodes unmarshal_options_encoded by metis

text \<open>
  The decoder panics exactly when, after some well-framed options, there remain one to three
  bytes, an option request that is longer than the input, or a length of 65532 and more; nothing
  else makes it panic.
\<close>

theorem options6_panics:
  "unmarshal_options (v, t) = Inl Panic \<longleftrightarrow>
     (\<exists>xs w. list_all framed xs \<and> v = encode_all xs @ w \<and> crashes w t)"
  unfolding unmarshal_options_def by (rule unmarshal_loop_Panic)

end
