(* ===== verification/Dhcp6_Fields.thy ===== *)
theory Dhcp6_Fields
  imports Dhcp6_Options "HOL-Library.Monad_Syntax"
begin

text \<open>
  The option constructors, the accessors of a decoded table and the log rendering of
  \<^verbatim>\<open>dhcp6/options.go\<close>. A result of \<^term>\<open>None\<close> is a panic of the Go code.
\<close>

section \<open>Constructors\<close>

definition make_ia_na :: "gslice \<Rightarrow> u32 \<Rightarrow> u32 \<Rightarrow> option6 \<Rightarrow> option6 option" where
  "make_ia_na iaid t1 t2 iaOption =
     do { i \<leftarrow> reslice iaid 0 4;
          Some (make_option OptIaNa (exact (fst i @ put32 t1 @ put32 t2 @ marshal_option iaOption))) }"

definition make_ia_addr :: "bytes \<Rightarrow> u32 \<Rightarrow> u32 \<Rightarrow> option6" where
  "make_ia_addr addr preferred valid =
     make_option OptIaAddr (exact (take 16 (copy_over (replicate 24 0) addr) @ put32 preferred @ put32 valid))"

definition make_status :: "u16 \<Rightarrow> string \<Rightarrow> option6" where
  "make_status code message = make_option OptStatusCode (exact (put16 code @ bytes_of message))"

definition put_dns :: "bytes \<Rightarrow> nat \<times> bytes \<Rightarrow> bytes" where
  "put_dns value entry = take (fst entry * 16) value @ copy_over (drop (fst entry * 16) value) (snd entry)"

definition make_dns_servers :: "bytes list \<Rightarrow> option6" where
  "make_dns_servers addresses =
     make_option OptRecursiveDNS (exact (foldl put_dns (replicate (16 * length addresses) 0)
       (zip [0..<length addresses] addresses)))"

section \<open>Accessors\<close>

fun request_loop :: "gslice \<Rightarrow> nat list \<Rightarrow> u16 set \<Rightarrow> u16 set option" where
  "request_loop v [] ret = Some ret"
| "request_loop v (i # is) ret =
     do { s \<leftarrow> reslice v (i * 2) ((i + 1) * 2);
          w \<leftarrow> read16 (fst s);
          request_loop v is (insert w ret) }"

definition requested_options :: "options6 \<Rightarrow> u16 set option" where
  "requested_options opts =
     (case opts OptOro of
        None \<Rightarrow> Some {}
      | Some [] \<Rightarrow> None
      | Some (x # _) \<Rightarrow> request_loop (Value x) [0..<unat (Length x) div 2] {})"

definition has_boot_file_url_option :: "options6 \<Rightarrow> bool option" where
  "has_boot_file_url_option opts = map_option (\<lambda>requested. OptBootfileURL \<in> requested) (requested_options opts)"

definition has_client_id :: "options6 \<Rightarrow> bool" where "has_client_id opts \<longleftrightarrow> opts OptClientID \<noteq> None"
definition has_server_id :: "options6 \<Rightarrow> bool" where "has_server_id opts \<longleftrightarrow> opts OptServerID \<noteq> None"
definition has_ia_na :: "options6 \<Rightarrow> bool" where "has_ia_na opts \<longleftrightarrow> opts OptIaNa \<noteq> None"
definition has_ia_ta :: "options6 \<Rightarrow> bool" where "has_ia_ta opts \<longleftrightarrow> opts OptIaTa \<noteq> None"

definition has_client_arch_type :: "options6 \<Rightarrow> bool" where
  "has_client_arch_type opts \<longleftrightarrow> opts OptClientArchType \<noteq> None"

text \<open>The nil slice that stands for an absent option has no bytes and no capacity.\<close>

definition first_value :: "options6 \<Rightarrow> u16 \<Rightarrow> gslice option" where
  "first_value opts k =
     (case opts k of None \<Rightarrow> Some (exact []) | Some [] \<Rightarrow> None | Some (x # _) \<Rightarrow> Some (Value x))"

definition client_id :: "options6 \<Rightarrow> gslice option" where "client_id opts = first_value opts OptClientID"
definition server_id :: "options6 \<Rightarrow> gslice option" where "server_id opts = first_value opts OptServerID"
definition boot_file_url :: "options6 \<Rightarrow> gslice option" where "boot_file_url opts = first_value opts OptBootfileURL"

fun ia_ids_of :: "option6 list \<Rightarrow> gslice list option" where
  "ia_ids_of [] = Some []"
| "ia_ids_of (x # xs) =
     do { i \<leftarrow> reslice (Value x) 0 4; is \<leftarrow> ia_ids_of xs; Some (i # is) }"

definition ia_na_ids :: "options6 \<Rightarrow> gslice list option" where
  "ia_na_ids opts = (case opts OptIaNa of None \<Rightarrow> Some [] | Some xs \<Rightarrow> ia_ids_of xs)"

definition client_arch_type :: "options6 \<Rightarrow> u16 option" where
  "client_arch_type opts =
     (case opts OptClientArchType of None \<Rightarrow> Some 0 | Some [] \<Rightarrow> None | Some (x # _) \<Rightarrow> read16 (fst (Value x)))"

section \<open>Log rendering\<close>

text \<open>A line carries the values its format string prints.\<close>

datatype log_line =
    GenericLine u16 u16 bytes
  | IaNaLine u16 bytes u32 u32
  | IaAddrLine u16 bytes u32 u32 bytes
  | NestedLine u16 u16 bytes

definition nested_line :: "gslice \<Rightarrow> u16 \<Rightarrow> u16 \<Rightarrow> log_line option" where
  "nested_line s i l =
     (if i = OptIaAddr then
        do { a \<leftarrow> reslice s 4 20;
             p \<leftarrow> reslice s 20 24; preferred \<leftarrow> read32 (fst p);
             v \<leftarrow> reslice s 24 28; valid \<leftarrow> read32 (fst v);
             r \<leftarrow> reslice s 28 (unat (4 + l));
             Some (IaAddrLine l (copy_over (replicate 16 0) (fst a)) preferred valid (fst r)) }
      else do { r \<leftarrow> reslice s 4 (unat (4 + l)); Some (NestedLine i l (fst r)) })"

function nested_lines :: "gslice \<Rightarrow> log_line list \<Rightarrow> log_line list option" where
  "nested_lines s ret =
     (if fst s = [] then Some ret
      else do { lb \<leftarrow> reslice s 2 4; l \<leftarrow> read16 (fst lb);
                ib \<leftarrow> reslice s 0 2; i \<leftarrow> read16 (fst ib);
                line \<leftarrow> nested_line s i l;
                rest \<leftarrow> reslice_from s (unat (4 + l));
                nested_lines rest (ret @ [line]) })"
  by pat_completeness auto
termination
  by (relation "measure (\<lambda>(s, _). length (fst s))")
    (auto simp: reslice_iff reslice_from_def nested_line_def bind_eq_Some_conv split: if_splits)

declare nested_lines.simps [simp del]

definition human_readable_ia_na :: "option6 \<Rightarrow> log_line list option" where
  "human_readable_ia_na x =
     do { a \<leftarrow> reslice (Value x) 0 4;
          b \<leftarrow> reslice (Value x) 4 8; t1 \<leftarrow> read32 (fst b);
          c \<leftarrow> reslice (Value x) 8 12; t2 \<leftarrow> read32 (fst c);
          if Length x \<le> 12 then Some [IaNaLine (Length x) (fst a) t1 t2]
          else do { s \<leftarrow> reslice_from (Value x) 12; nested_lines s [IaNaLine (Length x) (fst a) t1 t2] } }"

definition human_readable_one :: "option6 \<Rightarrow> log_line list option" where
  "human_readable_one x =
     (if ID x = 3 then human_readable_ia_na x else Some [GenericLine (ID x) (Length x) (fst (Value x))])"

fun human_readable_all :: "option6 list \<Rightarrow> log_line list option" where
  "human_readable_all [] = Some []"
| "human_readable_all (x # xs) =
     do { ls \<leftarrow> human_readable_one x; rest \<leftarrow> human_readable_all xs; Some (ls @ rest) }"

text \<open>The map is ranged over in the runtime's order \<open>ks\<close>.\<close>

definition human_readable :: "u16 list \<Rightarrow> options6 \<Rightarrow> log_line list option" where
  "human_readable ks opts = human_readable_all (in_order ks opts)"

end
