(* ===== verification/Dhcp6_Packet.thy ===== *)
theory Dhcp6_Packet
  imports Dhcp6_Fields
begin

text \<open>
  DHCPv6 packets (\<^verbatim>\<open>dhcp6/packet.go\<close>): decoding from a receive buffer, encoding, and the
  validation that decides whether the server answers.
\<close>

section \<open>Data\<close>

record packet6 =
  Type6 :: byte
  TransactionID6 :: bytes
  Options6 :: options6

definition MsgSolicit :: byte where "MsgSolicit = 1"
definition MsgAdvertise :: byte where "MsgAdvertise = 2"
definition MsgRequest6 :: byte where "MsgRequest6 = 3"
definition MsgReply :: byte where "MsgReply = 7"
definition MsgRelease6 :: byte where "MsgRelease6 = 8"
definition MsgInformationRequest :: byte where "MsgInformationRequest = 11"

lemmas message_types = MsgSolicit_def MsgAdvertise_def MsgRequest6_def MsgReply_def MsgRelease6_def
  MsgInformationRequest_def

datatype packet6_error = MalformedOptions option6_error

section \<open>Decoding and encoding\<close>

fun in_options :: "option6_error fault \<Rightarrow> packet6_error fault" where
  "in_options Panic = Panic"
| "in_options (Fault e) = Fault (MalformedOptions e)"

definition unmarshal6 :: "gslice \<Rightarrow> nat \<Rightarrow> packet6_error fault + packet6" where
  "unmarshal6 bs packetLength =
     bind_res (panics (reslice bs 4 packetLength)) (\<lambda>section.
     bind_res (case unmarshal_options section of Inl e \<Rightarrow> Inl (in_options e) | Inr opts \<Rightarrow> Inr opts) (\<lambda>opts.
     if fst bs = [] then Inl Panic
     else bind_res (panics (reslice bs 1 4)) (\<lambda>tid.
       Inr \<lparr>Type6 = fst bs ! 0, TransactionID6 = copy_over [0, 0, 0] (fst tid), Options6 = opts\<rparr>)))"

definition marshal6 :: "u16 list \<Rightarrow> packet6 \<Rightarrow> bytes" where
  "marshal6 ks p =
     (let marshalled = marshal_options ks (Options6 p);
          ret = replicate (length marshalled + 4) 0;
          ret = ret[0 := Type6 p];
          ret = take 1 ret @ copy_over (drop 1 ret) (TransactionID6 p)
      in take 4 ret @ copy_over (drop 4 ret) marshalled)"

section \<open>Validation\<close>

datatype discard_reason = NoBootFileURL | NoClientID | HasServerID | NoServerID | ForeignServerID | HasIA | UnknownPacket

definition discard_solicit :: "packet6 \<Rightarrow> discard_reason option option" where
  "discard_solicit p =
     do { url \<leftarrow> has_boot_file_url_option (Options6 p);
          Some (if \<not> url then Some NoBootFileURL
                else if \<not> has_client_id (Options6 p) then Some NoClientID
                else if has_server_id (Options6 p) then Some HasServerID
                else None) }"

definition discard_request :: "packet6 \<Rightarrow> bytes \<Rightarrow> discard_reason option option" where
  "discard_request p serverDuid =
     do { url \<leftarrow> has_boot_file_url_option (Options6 p);
          if \<not> url then Some (Some NoBootFileURL)
          else if \<not> has_client_id (Options6 p) then Some (Some NoClientID)
          else if \<not> has_server_id (Options6 p) then Some (Some NoServerID)
          else do { duid \<leftarrow> server_id (Options6 p);
                    Some (if fst duid \<noteq> serverDuid then Some ForeignServerID else None) } }"

definition discard_information_request :: "packet6 \<Rightarrow> bytes \<Rightarrow> discard_reason option option" where
  "discard_information_request p serverDuid =
     do { url \<leftarrow> has_boot_file_url_option (Options6 p);
          if \<not> url then Some (Some NoBootFileURL)
          else if has_ia_na (Options6 p) \<or> has_ia_ta (Options6 p) then Some (Some HasIA)
          else if has_server_id (Options6 p) then
            do { duid \<leftarrow> server_id (Options6 p);
                 Some (if fst duid \<noteq> serverDuid then Some ForeignServerID else None) }
          else Some None }"

text \<open>The outer \<^term>\<open>None\<close> is a panic; the inner option is the \<^verbatim>\<open>error\<close> returned.\<close>

definition should_discard :: "packet6 \<Rightarrow> bytes \<Rightarrow> discard_reason option option" where
  "should_discard p serverDuid =
     (if Type6 p = MsgSolicit then discard_solicit p
      else if Type6 p = MsgRequest6 then discard_request p serverDuid
      else if Type6 p = MsgInformationRequest then discard_information_request p serverDuid
      else if Type6 p = MsgRelease6 then Some None
      else Some (Some UnknownPacket))"

section \<open>Facts about the option requests\<close>

lemma request_loop_words:
  assumes "v = concat (map put16 ws)" and "set js \<subseteq> {..<length ws}"
  shows "request_loop (v, t) js ret = Some (ret \<union> (\<lambda>j. ws ! j) ` set js)"
  using assms(2)
proof (induction js arbitrary: ret)
  case (Cons j js)
  have "ws = take j ws @ ws ! j # drop (Suc j) ws"
    using Cons.prems by (intro id_take_nth_drop) simp
  from arg_cong [OF this, of "\<lambda>us. concat (map put16 us)"]
  have split: "v = concat (map put16 (take j ws)) @ put16 (ws ! j) @ concat (map put16 (drop (Suc j) ws))"
    by (simp only: assms(1) map_append concat_append list.map concat.simps append_assoc)
  have len: "length (concat (map put16 us)) = 2 * length us" for us
    by (induction us) simp_all
  have "reslice (v, t) (j * 2) ((j + 1) * 2) = Some (put16 (ws ! j), concat (map put16 (drop (Suc j) ws)) @ t)"
  proof (subst reslice_visible)
    show "(j + 1) * 2 \<le> length v" using Cons.prems len assms(1) by simp
    show "Some (take ((j + 1) * 2 - j * 2) (drop (j * 2) v), drop ((j + 1) * 2) v @ t) =
        Some (put16 (ws ! j), concat (map put16 (drop (Suc j) ws)) @ t)"
      using Cons.prems len by (subst (1 2) split) (simp add: min_def)
  qed simp
  then show ?case using Cons by auto
qed simp

lemma even_bytes_words:
  assumes "even (length (v :: bytes))" obtains ws where "v = concat (map put16 ws)"
  using assms
proof (induction "length v" arbitrary: v thesis rule: less_induct)
  case less
  show ?case
  proof (cases v)
    case Nil
    with less.prems(1) [of "[]"] show ?thesis by simp
  next
    case (Cons a v')
    with less.prems(2) obtain b r where v: "v = a # b # r" by (cases v') auto
    with less.prems(2) less.hyps [of r] obtain ws where "r = concat (map put16 ws)" by auto
    with v put16_be16 [of a b] have "v = concat (map put16 (be16 a b # ws))" by simp
    with less.prems(1) show ?thesis by blast
  qed
qed

lemma requested_options_words:
  assumes "opts 6 = Some (x # xs)" and "framed x" and "fst (Value x) = concat (map put16 ws)"
  shows "requested_options opts = Some (set ws)"
proof -
  have "length (concat (map put16 us)) = 2 * length us" for us
    by (induction us) simp_all
  then have "unat (Length x) div 2 = length ws"
    using assms(2,3) by (simp add: framed_def)
  moreover have "(\<lambda>j. ws ! j) ` {..<length ws} = set ws"
    by (auto simp: set_conv_nth)
  ultimately show ?thesis
    using assms(1) request_loop_words [OF assms(3), of "[0..<length ws]" "snd (Value x)" "{}"]
    by (simp add: requested_options_def atLeast0LessThan)
qed

section \<open>Facts about whole packets\<close>

lemma marshal6_eq:
  assumes "length (TransactionID6 p) = 3"
  shows "marshal6 ks p = Type6 p # TransactionID6 p @ marshal_options ks (Options6 p)"
  using assms
  by (simp add: marshal6_def Let_def copy_over_def numeral_eq_Suc)

lemma case_in_options_Inr [simp]:
  "(case r of Inl e \<Rightarrow> Inl (in_options e) | Inr x \<Rightarrow> Inr x) = Inr y \<longleftrightarrow> r = Inr y"
  by (cases r) simp_all

lemma unmarshal6_Inr:
  assumes "unmarshal6 bs n = Inr p"
  shows "length (TransactionID6 p) = 3" "filed (Options6 p)" "all_framed (Options6 p)"
proof -
  from assms obtain s where "unmarshal_options s = Inr (Options6 p)"
    and "length (TransactionID6 p) = 3"
    by (auto simp: unmarshal6_def bind_res_Inr_iff split: if_splits)
  then show "length (TransactionID6 p) = 3" "filed (Options6 p)" "all_framed (Options6 p)"
    using decoded_tables by auto
qed

lemma first_of_table: "filed opts \<Longrightarrow> opts k = Some xs \<Longrightarrow> \<exists>y ys. xs = y # ys"
  unfolding filed_def by (metis neq_Nil_conv)

lemma decoded_requests:
  assumes "filed opts" and "all_framed opts"
  shows "\<exists>ws. requested_options opts = Some (set ws)"
proof (cases "opts 6")
  case None
  then show ?thesis by (intro exI [of _ "[]"]) (simp add: requested_options_def)
next
  case (Some xs)
  then obtain y ys where xs: "opts 6 = Some (y # ys)" using first_of_table [OF assms(1)] by blast
  have "list_all framed (y # ys)" using assms(2) xs unfolding all_framed_def by blast
  moreover have "ID y = 6" using assms(1) xs unfolding filed_def by (metis list.set_intros(1))
  ultimately have y: "framed y" "ID y = 6" by simp_all
  then have "unat (Length y mod 2) = 0" by (simp add: framed_def)
  then have "even (unat (Length y))" by (simp add: unat_mod_distrib even_iff_mod_2_eq_zero)
  with y(1) obtain ws where "fst (Value y) = concat (map put16 ws)"
    using even_bytes_words [of "fst (Value y)"] by (auto simp: framed_def)
  from requested_options_words [of opts, OF xs y(1) this] show ?thesis by blast
qed

lemma should_discard_total:
  assumes "filed (Options6 p)" and "all_framed (Options6 p)"
  shows "should_discard p duid \<noteq> None"
proof -
  have "has_boot_file_url_option (Options6 p) \<noteq> None"
    using decoded_requests [OF assms] by (auto simp: has_boot_file_url_option_def)
  moreover have "server_id (Options6 p) \<noteq> None"
    using first_of_table [OF assms(1)]
    by (cases "Options6 p 2") (fastforce simp: server_id_def first_value_def)+
  ultimately show ?thesis
    by (auto simp: should_discard_def discard_solicit_def discard_request_def discard_information_request_def)
qed

definition names_server :: "options6 \<Rightarrow> bytes \<Rightarrow> bool" where
  "names_server opts duid \<longleftrightarrow> (\<exists>x xs. opts 2 = Some (x # xs) \<and> fst (Value x) = duid)"

definition acceptable :: "packet6 \<Rightarrow> bytes \<Rightarrow> bool" where
  "acceptable p duid \<longleftrightarrow>
     (let opts = Options6 p in
      Type6 p = MsgRelease6 \<or>
      (\<exists>requested. requested_options opts = Some requested \<and> 59 \<in> requested) \<and>
      (Type6 p = MsgSolicit \<and> opts 1 \<noteq> None \<and> opts 2 = None \<or>
       Type6 p = MsgRequest6 \<and> opts 1 \<noteq> None \<and> names_server opts duid \<or>
       Type6 p = MsgInformationRequest \<and> opts 3 = None \<and> opts 4 = None \<and> (opts 2 = None \<or> names_server opts duid)))"

lemma should_discard_iff:
  assumes "filed (Options6 p)" and "all_framed (Options6 p)"
  shows "should_discard p duid = Some None \<longleftrightarrow> acceptable p duid"
proof -
  obtain ws where ws: "requested_options (Options6 p) = Some (set ws)"
    using decoded_requests [OF assms] by blast
  have id: "Options6 p 2 = None \<and> \<not> names_server (Options6 p) duid \<or>
      (\<exists>x xs. Options6 p 2 = Some (x # xs) \<and> server_id (Options6 p) = Some (Value x) \<and>
        (names_server (Options6 p) duid \<longleftrightarrow> fst (Value x) = duid))"
    using first_of_table [OF assms(1)]
    by (cases "Options6 p 2") (fastforce simp: server_id_def first_value_def names_server_def)+
  consider "Type6 p = MsgSolicit" | "Type6 p = MsgRequest6" | "Type6 p = MsgInformationRequest" | "Type6 p = MsgRelease6"
    | "Type6 p \<notin> {MsgSolicit, MsgRequest6, MsgInformationRequest, MsgRelease6}" by blast
  then show ?thesis
  proof cases
    case 1
    then show ?thesis
      using ws by (auto simp: should_discard_def discard_solicit_def acceptable_def message_types
          has_boot_file_url_option_def has_client_id_def has_server_id_def)
  next
    case 2
    then show ?thesis
      using ws id by (auto simp: should_discard_def discard_request_def acceptable_def message_types
          has_boot_file_url_option_def has_client_id_def has_server_id_def)
  next
    case 3
    then show ?thesis
      using ws id by (auto simp: should_discard_def discard_information_request_def acceptable_def message_types
          has_boot_file_url_option_def has_ia_na_def has_ia_ta_def has_server_id_def)
  qed (simp_all add: should_discard_def acceptable_def message_types)
qed

lemma reslice_at:
  assumes "length xs = lo" and "length ys = hi - lo" and "lo \<le> hi"
  shows "reslice (xs @ ys @ zs, t) lo hi = Some (ys, zs @ t)"
  using assms by (simp add: reslice_visible)

lemma built_ia_addr:
  assumes "length addr = 16"
  shows "make_ia_addr addr preferred valid = \<lparr>ID = 5, Length = 24, Value = exact (addr @ put32 preferred @ put32 valid)\<rparr>"
  using assms by (simp add: make_ia_addr_def make_option_def copy_over_def exact_def)

lemma built_nested:
  assumes "length addr = 16"
  shows "nested_lines (marshal_option (make_ia_addr addr preferred valid), t) ret =
    Some (ret @ [IaAddrLine 24 addr preferred valid []])"
proof -
  let ?s = "(put16 5 @ put16 24 @ addr @ put32 preferred @ put32 valid, t)"
  have s: "(marshal_option (make_ia_addr addr preferred valid), t) = ?s"
    by (simp add: built_ia_addr [OF assms] marshal_option_def exact_def)
  have "reslice ?s 0 2 = Some (put16 5, put16 24 @ addr @ put32 preferred @ put32 valid @ t)"
    "reslice ?s 2 4 = Some (put16 24, addr @ put32 preferred @ put32 valid @ t)"
    using reslice_at [of "[]" 0 "put16 5" 2] reslice_at [of "put16 5" 2 "put16 24" 4] by auto
  moreover have "reslice ?s 4 20 = Some (addr, put32 preferred @ put32 valid @ t)"
    "reslice ?s 20 24 = Some (put32 preferred, put32 valid @ t)" "reslice ?s 24 28 = Some (put32 valid, t)"
    "reslice ?s 28 28 = Some ([], t)"
    using assms by (simp_all add: reslice_visible)
  moreover have "reslice_from ?s 28 = Some ([], t)" using assms by (simp add: reslice_from_eq)
  moreover have "copy_over (replicate 16 0) addr = addr" using assms by (simp add: copy_over_def)
  ultimately show ?thesis
    unfolding s by (subst nested_lines.simps) (simp add: nested_line_def nested_lines.simps)
qed

lemma built_ia_na:
  assumes "length iaid = 4" and "length addr = 16"
  shows "\<exists>x. make_ia_na (iaid, spare) t1 t2 (make_ia_addr addr preferred valid) = Some x \<and> framed x \<and> ID x = 3 \<and>
    ia_ids_of [x] = Some [(iaid, drop 4 (fst (Value x)))] \<and>
    human_readable_one x = Some [IaNaLine 40 iaid t1 t2, IaAddrLine 24 addr preferred valid []]"
proof -
  let ?n = "marshal_option (make_ia_addr addr preferred valid)"
  let ?v = "iaid @ put32 t1 @ put32 t2 @ ?n"
  define x where "x = make_option 3 (exact ?v)"
  have n: "length ?n = 28" using assms(2) by (simp add: built_ia_addr marshal_option_def exact_def)
  have x: "x = \<lparr>ID = 3, Length = 40, Value = (?v, [])\<rparr>"
    using assms(1) n by (simp add: x_def make_option_def exact_def)
  have "make_ia_na (iaid, spare) t1 t2 (make_ia_addr addr preferred valid) = Some x"
    using assms(1) by (simp add: make_ia_na_def x_def reslice_visible)
  moreover have "framed x" using assms(1) n by (simp add: x framed_def)
  moreover have "ia_ids_of [x] = Some [(iaid, drop 4 (fst (Value x)))]"
    using assms(1) by (simp add: x reslice_visible)
  moreover have "human_readable_one x = Some [IaNaLine 40 iaid t1 t2, IaAddrLine 24 addr preferred valid []]"
    using assms(1) built_nested [OF assms(2), of preferred valid "[]"]
    by (simp add: x human_readable_one_def human_readable_ia_na_def reslice_visible reslice_from_eq)
  ultimately show ?thesis by (intro exI [of _ x]) (simp add: x)
qed

lemma roundtrip6:
  assumes "length (TransactionID6 p) = 3" and "filed (Options6 p)" and "all_framed (Options6 p)"
    and "enumerates ks (Options6 p)"
  shows "\<exists>p'. unmarshal6 (marshal6 ks p @ residue, t) (length (marshal6 ks p)) = Inr p' \<and>
    Type6 p' = Type6 p \<and> TransactionID6 p' = TransactionID6 p \<and> view6 (Options6 p') = view6 (Options6 p)"
proof -
  let ?m = "marshal_options ks (Options6 p)"
  obtain a b c where tid: "TransactionID6 p = [a, b, c]"
    using assms(1) by (auto simp: numeral_3_eq_3 length_Suc_conv)
  obtain opts where opts: "unmarshal_options (?m, residue @ t) = Inr opts" "view6 opts = view6 (Options6 p)"
    using decode_marshalled [OF assms(2-4)] by blast
  have bs: "marshal6 ks p = Type6 p # a # b # c # ?m"
    using marshal6_eq [OF assms(1)] tid by simp
  have "reslice (marshal6 ks p @ residue, t) 4 (length (marshal6 ks p)) = Some (?m, residue @ t)"
    and "reslice (marshal6 ks p @ residue, t) 1 4 = Some ([a, b, c], ?m @ residue @ t)"
    by (simp_all add: bs reslice_visible numeral_eq_Suc)
  with opts show ?thesis
    by (simp add: unmarshal6_def bs tid copy_over_def)
qed

section \<open>Packets as a wire format\<close>

text \<open>
  The sender is free in the order of the options, and the receiver's buffer holds the packet, an older residue and spare
  capacity; what it reads is the packet up to the capacity of its values.
\<close>

definition sends6 :: "packet6 \<Rightarrow> gslice \<times> nat \<Rightarrow> bool" where
  "sends6 p w \<longleftrightarrow> (\<exists>ks residue t. w = ((marshal6 ks p @ residue, t), length (marshal6 ks p)) \<and> enumerates ks (Options6 p)) \<and>
     length (TransactionID6 p) = 3 \<and> filed (Options6 p) \<and> all_framed (Options6 p)"

definition seen6 :: "packet6 \<Rightarrow> _" where
  "seen6 p = (Type6 p, TransactionID6 p, view6 (Options6 p))"

interpretation dhcp6: codec sends6 "\<lambda>(b, n). case unmarshal6 b n of Inl e \<Rightarrow> Inl e | Inr p \<Rightarrow> Inr (seen6 p)" seen6
proof
  fix p w
  assume "sends6 p w"
  then obtain ks residue t where w: "w = ((marshal6 ks p @ residue, t), length (marshal6 ks p))"
      and p: "length (TransactionID6 p) = 3" "filed (Options6 p)" "all_framed (Options6 p)" "enumerates ks (Options6 p)"
    by (auto simp: sends6_def)
  show "(case w of (b, n) \<Rightarrow> case unmarshal6 b n of Inl e \<Rightarrow> Inl e | Inr p \<Rightarrow> Inr (seen6 p)) = Inr (seen6 p)"
    using roundtrip6 [OF p, of residue t] by (auto simp: w seen6_def)
qed

section \<open>Properties\<close>

definition sample_packet6 :: packet6 where
  "sample_packet6 = \<lparr>Type6 = MsgSolicit, TransactionID6 = [1, 2, 3], Options6 = sample_options6\<rparr>"

text \<open>
  C32. A packet survives encoding and decoding, whatever the map order and whatever the receive
  buffer holds behind the packet.
\<close>

theorem packet6_roundtrip:
  assumes "length (TransactionID6 p) = 3" and "filed (Options6 p)" and "all_framed (Options6 p)"
    and "enumerates ks (Options6 p)"
  shows "\<exists>p'. unmarshal6 (marshal6 ks p @ residue, t) (length (marshal6 ks p)) = Inr p' \<and>
    Type6 p' = Type6 p \<and> TransactionID6 p' = TransactionID6 p \<and> view6 (Options6 p') = view6 (Options6 p)"
proof -
  have "sends6 p ((marshal6 ks p @ residue, t), length (marshal6 ks p))"
    using assms by (auto simp: sends6_def)
  from dhcp6.decodes [OF this] show ?thesis
    by (auto simp: seen6_def split: sum.splits)
qed

theorem packet6_roundtrip_witness:
  "\<exists>p'. unmarshal6 (marshal6 [6, 1] sample_packet6 @ replicate 5 9, []) (length (marshal6 [6, 1] sample_packet6)) = Inr p' \<and>
     Type6 p' = MsgSolicit"
  using packet6_roundtrip [of sample_packet6 "[6, 1]" "replicate 5 9" "[]"] sample_options6_ok
  by (auto simp: sample_packet6_def)

text \<open>
  Validation never panics on a decoded packet, and a packet that passes it is one of the four
  message types the server answers; a Solicit carries a client id and no server id, a Request
  carries a client id and this server's id, an Information-request carries no identity association
  and no other server's id, and each of the three asks for the boot file URL.
\<close>

theorem accepted_packets:
  assumes "unmarshal6 bs n = Inr p"
  shows "should_discard p duid \<noteq> None \<and> (should_discard p duid = Some None \<longleftrightarrow> acceptable p duid)"
  using should_discard_total should_discard_iff unmarshal6_Inr(2,3) [OF assms] by blast

theorem accepted_packets_witness:
  "\<exists>p. unmarshal6 (marshal6 [6, 1] sample_packet6, []) 18 = Inr p \<and> acceptable p [] \<and> should_discard p [] \<noteq> None"
proof -
  have "case unmarshal6 (marshal6 [6, 1] sample_packet6, []) 18 of Inl _ \<Rightarrow> False | Inr p \<Rightarrow> should_discard p [] = Some None"
    by code_simp
  then obtain p where p: "unmarshal6 (marshal6 [6, 1] sample_packet6, []) 18 = Inr p" "should_discard p [] = Some None"
    by (auto split: sum.splits)
  with accepted_packets [OF p(1), of "[]"] show ?thesis by blast
qed

text \<open>
  One byte behind the fixed header brings the server down: whatever a five-byte packet
  contains, in a zeroed receive buffer it makes the decoder panic instead of returning an error.
\<close>

theorem short_packet_panics:
  "unmarshal6 ([ty, x, y, z, e] @ 0 # residue, t) 5 = Inl Panic"
proof -
  have "reslice ([ty, x, y, z, e] @ 0 # residue, t) 4 5 = Some ([e], 0 # residue @ t)"
    by (simp add: reslice_def numeral_eq_Suc)
  moreover have "put16 6 = [0, 6]" by code_simp
  then have "crashes [e] (0 # residue @ t)"
    by (simp add: crashes_def residual_oro_def)
  then have "unmarshal_options ([e], 0 # residue @ t) = Inl Panic"
    unfolding unmarshal_options_def unmarshal_loop_Panic
    by (intro exI [of _ "[]"] exI [of _ "[e]"]) simp
  ultimately show ?thesis by (simp add: unmarshal6_def)
qed

text \<open>
  An option the server builds for a client reads back as it was meant: the client's own
  interface id, the two renewal times, and one nested address option with the address and its
  lifetimes, which the log renders without a panic.
\<close>

theorem ia_na_reads_back:
  assumes "length iaid = 4" and "length addr = 16"
  shows "\<exists>x. make_ia_na (iaid, spare) t1 t2 (make_ia_addr addr preferred valid) = Some x \<and> framed x \<and> ID x = 3 \<and>
    ia_ids_of [x] = Some [(iaid, drop 4 (fst (Value x)))] \<and>
    human_readable_one x = Some [IaNaLine 40 iaid t1 t2, IaAddrLine 24 addr preferred valid []]"
  by (rule built_ia_na [OF assms])

theorem ia_na_reads_back_witness:
  "\<exists>x. make_ia_na ([1, 2, 3, 4], []) 50 80 (make_ia_addr (replicate 16 9) 100 200) = Some x \<and>
     human_readable_one x = Some [IaNaLine 40 [1, 2, 3, 4] 50 80, IaAddrLine 24 (replicate 16 9) 100 200 []]"
proof -
  have "length [1, 2, 3, 4 :: byte] = 4" "length (replicate 16 (9 :: byte)) = 16" by simp_all
  from ia_na_reads_back [OF this] show ?thesis by blast
qed

text \<open>
  The log line for a received packet can bring the server down: an identity association whose
  nested address option claims fewer than 24 bytes decodes, and then panics in the rendering.
\<close>

theorem short_ia_addr_panics:
  assumes "length iaid = 4" and "unat l < 24" and "length payload = unat l"
  shows "\<exists>x. framed x \<and> ID x = 3 \<and>
    fst (Value x) = iaid @ put32 t1 @ put32 t2 @ put16 5 @ put16 l @ payload \<and> human_readable_one x = None"
proof -
  define v where "v = iaid @ put32 t1 @ put32 t2 @ put16 5 @ put16 l @ payload"
  define x where "x = make_option 3 (exact v)"
  let ?s = "(put16 5 @ put16 l @ payload, [])"
  have len: "length v = 16 + unat l" using assms by (simp add: v_def)
  have L: "unat (Length x) = 16 + unat l"
  proof -
    have "length v < 65536" using len assms(2) by simp
    then have "unat (word_of_nat (length v) :: u16) = length v" by (simp add: unat_of_nat take_bit_eq_mod)
    then show ?thesis by (simp only: x_def make_option_def exact_def len option6.select_convs fst_conv)
  qed
  have "reslice ?s 28 (unat (4 + l)) = None"
    using assms(2) by (simp add: reslice_None_iff unat_add_4)
  then have "nested_line ?s 5 l = None"
    by (simp add: nested_line_def split: bind_splits)
  moreover have "reslice ?s 2 4 = Some (put16 l, payload)" "reslice ?s 0 2 = Some (put16 5, put16 l @ payload)"
    by (simp_all add: reslice_visible)
  ultimately have "nested_lines ?s ret = None" for ret
    by (subst nested_lines.simps) simp
  moreover have "\<not> Length x \<le> 12" using L by (simp add: word_le_nat_alt)
  moreover have "Value x = (v, [])" "ID x = 3" by (simp_all add: x_def make_option_def exact_def)
  ultimately have "human_readable_one x = None"
    using assms(1) by (simp add: human_readable_one_def human_readable_ia_na_def reslice_visible reslice_from_eq v_def
        split: bind_splits)
  moreover have "framed x" using L len assms(2) by (simp add: framed_def x_def make_option_def exact_def)
  moreover have "ID x = 3" "fst (Value x) = v" by (simp_all add: x_def make_option_def exact_def)
  ultimately show ?thesis by (auto simp: v_def)
qed

theorem short_ia_addr_panics_witness:
  "\<exists>x. framed x \<and> fst (Value x) = [1, 2, 3, 4] @ put32 0 @ put32 0 @ put16 5 @ put16 0 @ [] \<and> human_readable_one x = None"
proof -
  have "length [1, 2, 3, 4 :: byte] = 4" "unat (0 :: u16) < 24" "length ([] :: bytes) = unat (0 :: u16)" by simp_all
  from short_ia_addr_panics [OF this, of 0 0] show ?thesis by blast
qed

end
