(* ===== verification/Address_Pool.thy ===== *)
theory Address_Pool
  imports Go_Std
begin

text \<open>
  The DHCPv6 address pool of \<^verbatim>\<open>dhcp6/pool/random_address_pool.go\<close> and the
  \<^verbatim>\<open>IdentityAssociation\<close> of \<^verbatim>\<open>types/types.go\<close>: reservation with expiry of old leases,
  release, and the queue of expirations. Time is read through a clock (\<open>timeNow\<close> gives the
  n-th reading, in nanoseconds); the random draws are an argument. Every operation runs under
  the pool's mutex, so an execution is a sequence of whole operations.
\<close>

section \<open>Data\<close>

record association =
  IPAddress :: bytes
  ClientID :: bytes
  InterfaceID :: bytes
  CreatedAt :: int

record expiration =
  expiresAt :: int
  ia :: association

text \<open>The queue: \<^verbatim>\<open>Shift\<close> on an empty queue panics (\<^term>\<open>None\<close>), \<^verbatim>\<open>Peek\<close> gives nil.\<close>

type_synonym 'a fifo = "'a list"

abbreviation (input) new_fifo :: "'a fifo" where "new_fifo \<equiv> []"

definition fifo_push :: "'a \<Rightarrow> 'a fifo \<Rightarrow> 'a fifo" where
  "fifo_push v q = q @ [v]"

definition fifo_shift :: "'a fifo \<Rightarrow> ('a \<times> 'a fifo) option" where
  "fifo_shift q = (case q of [] \<Rightarrow> None | v # vs \<Rightarrow> Some (v, vs))"

definition fifo_size :: "'a fifo \<Rightarrow> nat" where
  "fifo_size q = length q"

definition fifo_peek :: "'a fifo \<Rightarrow> 'a option" where
  "fifo_peek q = (case q of [] \<Rightarrow> None | v # vs \<Rightarrow> Some v)"

record pool =
  poolStartAddress :: nat
  poolSize :: u64
  identityAssociations :: "u64 \<Rightarrow> association option"
  usedIps :: "u64 set"
  expirations :: "expiration fifo"
  validLifetime :: u32
  timeNow :: "nat \<Rightarrow> int"
  reads :: nat

datatype pool_error = NoFreeAddresses

section \<open>Big integers\<close>

text \<open>\<^verbatim>\<open>big.Int\<close>: \<^verbatim>\<open>SetBytes\<close>, \<^verbatim>\<open>Bytes\<close> (no leading zeros), \<^verbatim>\<open>Uint64\<close> (low 64 bits).\<close>

definition big_set_bytes :: "bytes \<Rightarrow> nat" where
  "big_set_bytes bs = foldl (\<lambda>n b. n * 256 + unat b) 0 bs"

fun big_bytes :: "nat \<Rightarrow> bytes" where
  "big_bytes n = (if n = 0 then [] else big_bytes (n div 256) @ [word_of_nat (n mod 256)])"

declare big_bytes.simps [simp del]

definition big_uint64 :: "nat \<Rightarrow> u64" where
  "big_uint64 n = word_of_nat n"

lemma big_set_bytes_big_bytes [simp]: "big_set_bytes (big_bytes n) = n"
proof (induction n rule: big_bytes.induct)
  case (1 n)
  have snoc: "big_set_bytes (bs @ [b]) = big_set_bytes bs * 256 + unat b" for bs b
    by (simp add: big_set_bytes_def)
  show ?case
  proof (cases "n = 0")
    case True
    then show ?thesis by (simp add: big_bytes.simps big_set_bytes_def)
  next
    case False
    have "unat (word_of_nat (n mod 256) :: byte) = n mod 256"
      by (simp add: unat_of_nat take_bit_eq_mod)
    with "1.IH" [OF False] False show ?thesis
      by (subst big_bytes.simps) (simp add: snoc)
  qed
qed

lemma big_set_bytes_snoc: "big_set_bytes (bs @ [b]) = big_set_bytes bs * 256 + unat b"
  by (simp add: big_set_bytes_def)

lemma big_set_bytes_Cons: "big_set_bytes (b # bs) = unat b * 256 ^ length bs + big_set_bytes bs"
proof (induction bs rule: rev_induct)
  case Nil
  then show ?case by (simp add: big_set_bytes_def)
next
  case (snoc x xs)
  then show ?case
    using big_set_bytes_snoc [of "b # xs" x] by (simp add: big_set_bytes_snoc algebra_simps)
qed

lemma length_big_bytes:
  assumes "256 ^ k \<le> n" and "n < 256 ^ Suc k" shows "length (big_bytes n) = Suc k"
  using assms
proof (induction k arbitrary: n)
  case 0
  then have "n div 256 = 0" "n \<noteq> 0" by auto
  then show ?case by (subst big_bytes.simps) (simp add: big_bytes.simps)
next
  case (Suc k)
  then have "256 ^ k \<le> n div 256" "n div 256 < 256 ^ Suc k" "n \<noteq> 0"
    by (auto simp: less_eq_div_iff_mult_less_eq less_mult_imp_div_less mult.commute)
  with Suc.IH show ?case by (subst big_bytes.simps) simp
qed

section \<open>Operations\<close>

definition new_pool :: "bytes \<Rightarrow> u64 \<Rightarrow> u32 \<Rightarrow> (nat \<Rightarrow> int) \<Rightarrow> pool" where
  "new_pool first len lifetime clock =
     \<lparr>poolStartAddress = big_set_bytes first, poolSize = len,
      identityAssociations = Map.empty, usedIps = {}, expirations = new_fifo,
      validLifetime = lifetime, timeNow = clock, reads = 0\<rparr>"

definition time_now :: "pool \<Rightarrow> int \<times> pool" where
  "time_now p = (timeNow p (reads p), p\<lparr>reads := Suc (reads p)\<rparr>)"

definition association_expiration :: "pool \<Rightarrow> int \<Rightarrow> int" where
  "association_expiration p now = now + int (unat (validLifetime p)) * 1000000000"

definition iaid_hash :: "bytes \<Rightarrow> bytes \<Rightarrow> u64" where
  "iaid_hash clientID interfaceID = fnv1a_write (fnv1a_write fnv1a_offset clientID) interfaceID"

definition ip_key :: "association \<Rightarrow> u64" where
  "ip_key a = big_uint64 (big_set_bytes (IPAddress a))"

definition ia_key :: "association \<Rightarrow> u64" where
  "ia_key a = iaid_hash (ClientID a) (InterfaceID a)"

function expire_associations :: "pool \<Rightarrow> pool" where
  "expire_associations p =
     (if fifo_size (expirations p) < 1 then p
      else case (fifo_peek (expirations p), fifo_shift (expirations p)) of
        (Some e, Some (_, q)) \<Rightarrow>
          (let (now, p') = time_now p in
           if now < expiresAt e then p'
           else expire_associations
             (p'\<lparr>expirations := q,
                identityAssociations := (identityAssociations p')(ia_key (ia e) := None),
                usedIps := usedIps p' - {ip_key (ia e)}\<rparr>))
      | _ \<Rightarrow> p)"
  by pat_completeness auto
termination
  by (relation "measure (\<lambda>p. length (expirations p))")
    (auto simp: fifo_shift_def time_now_def split: list.splits)

declare expire_associations.simps [simp del]

text \<open>
  The retry loop: draw offsets until one is free. \<^term>\<open>None\<close> means the loop does not return
  (a zero pool size would crash in the remainder; the caller's check excludes it).
\<close>

partial_function (option) find_free :: "(nat \<Rightarrow> u64) \<Rightarrow> pool \<Rightarrow> nat \<Rightarrow> (nat \<times> nat) option" where
  "find_free draws p k =
     (if poolSize p = 0 then None
      else let hostOffset = draws k mod poolSize p;
               newIP = poolStartAddress p + unat hostOffset in
        if big_uint64 newIP \<in> usedIps p then find_free draws p (Suc k)
        else Some (newIP, Suc k))"

definition allocate :: "bytes \<Rightarrow> bytes \<Rightarrow> nat \<Rightarrow> pool \<Rightarrow> association \<times> pool" where
  "allocate clientID interfaceID newIP p =
     (let (now, p1) = time_now p;
          a = \<lparr>IPAddress = big_bytes newIP, ClientID = clientID, InterfaceID = interfaceID, CreatedAt = now\<rparr>
      in (a, p1\<lparr>identityAssociations := (identityAssociations p1)(iaid_hash clientID interfaceID \<mapsto> a),
                usedIps := insert (big_uint64 newIP) (usedIps p1),
                expirations := fifo_push \<lparr>expiresAt = association_expiration p1 now, ia = a\<rparr> (expirations p1)\<rparr>))"

fun reserve_loop :: "(nat \<Rightarrow> u64) \<Rightarrow> bytes \<Rightarrow> bytes list \<Rightarrow> nat \<Rightarrow> association list \<Rightarrow> pool \<Rightarrow>
    (association list \<times> pool_error option \<times> pool) option" where
  "reserve_loop draws clientID [] k ret p = Some (ret, None, p)"
| "reserve_loop draws clientID (interfaceID # ids) k ret p =
     (case identityAssociations p (iaid_hash clientID interfaceID) of
        Some a \<Rightarrow> reserve_loop draws clientID ids k (ret @ [a]) p
      | None \<Rightarrow>
          if word_of_nat (card (usedIps p)) = poolSize p then Some (ret, Some NoFreeAddresses, p)
          else (case find_free draws p k of
              None \<Rightarrow> None
            | Some (newIP, k') \<Rightarrow>
                (let (a, p') = allocate clientID interfaceID newIP p in
                 reserve_loop draws clientID ids k' (ret @ [a]) p')))"

definition reserve_addresses :: "(int \<Rightarrow> nat \<Rightarrow> u64) \<Rightarrow> bytes \<Rightarrow> bytes list \<Rightarrow> pool \<Rightarrow>
    (association list \<times> pool_error option \<times> pool) option" where
  "reserve_addresses rng clientID interfaceIDs p =
     (let (seed, p1) = time_now (expire_associations p) in
      reserve_loop (rng seed) clientID interfaceIDs 0 [] p1)"

fun release_addresses :: "bytes \<Rightarrow> bytes list \<Rightarrow> pool \<Rightarrow> pool" where
  "release_addresses clientID [] p = p"
| "release_addresses clientID (interfaceID # ids) p =
     (case identityAssociations p (iaid_hash clientID interfaceID) of
        None \<Rightarrow> release_addresses clientID ids p
      | Some a \<Rightarrow> release_addresses clientID ids
          (p\<lparr>usedIps := usedIps p - {ip_key a},
             identityAssociations := (identityAssociations p)(iaid_hash clientID interfaceID := None)\<rparr>))"

section \<open>What the operations keep\<close>

definition same_config :: "pool \<Rightarrow> pool \<Rightarrow> bool" where
  "same_config p q \<longleftrightarrow> poolStartAddress p = poolStartAddress q \<and> poolSize p = poolSize q \<and>
     validLifetime p = validLifetime q \<and> timeNow p = timeNow q"

definition in_pool :: "pool \<Rightarrow> association \<Rightarrow> bool" where
  "in_pool p a \<longleftrightarrow> (\<exists>off < unat (poolSize p). IPAddress a = big_bytes (poolStartAddress p + off))"

definition pool_keys :: "pool \<Rightarrow> u64 set" where
  "pool_keys p = (\<lambda>off. big_uint64 (poolStartAddress p + off)) ` {..<unat (poolSize p)}"

text \<open>
  The safety invariant, kept by every operation: addresses in use, leased or waiting to expire
  all lie in the pool's range, and an association is stored under its own hash.
\<close>

definition pool_ok :: "pool \<Rightarrow> bool" where
  "pool_ok p \<longleftrightarrow> usedIps p \<subseteq> pool_keys p \<and>
     (\<forall>h a. identityAssociations p h = Some a \<longrightarrow> in_pool p a \<and> ia_key a = h) \<and>
     (\<forall>e \<in> set (expirations p). in_pool p (ia e))"

text \<open>
  The lease invariant, kept as long as nothing is released: the queue holds exactly the live
  associations, once each, no two of them with one address, and their addresses are the used ones.
\<close>

definition lease_inv :: "pool \<Rightarrow> bool" where
  "lease_inv p \<longleftrightarrow>
     distinct (map (\<lambda>e. ia_key (ia e)) (expirations p)) \<and>
     distinct (map (\<lambda>e. ip_key (ia e)) (expirations p)) \<and>
     (\<forall>h a. identityAssociations p h = Some a \<longleftrightarrow> (\<exists>e \<in> set (expirations p). ia e = a \<and> ia_key a = h)) \<and>
     usedIps p = (\<lambda>e. ip_key (ia e)) ` set (expirations p)"

lemma same_config_refl [simp]: "same_config p p"
  by (simp add: same_config_def)

lemma same_config_trans: "same_config p q \<Longrightarrow> same_config q r \<Longrightarrow> same_config p r"
  by (simp add: same_config_def)

lemma in_pool_cong: "same_config p q \<Longrightarrow> in_pool p a = in_pool q a"
  and pool_keys_cong: "same_config p q \<Longrightarrow> pool_keys p = pool_keys q"
  by (simp_all add: same_config_def in_pool_def pool_keys_def)

lemma time_now_simps [simp]:
  "fst (time_now p) = timeNow p (reads p)"
  "snd (time_now p) = p\<lparr>reads := Suc (reads p)\<rparr>"
  by (simp_all add: time_now_def)

lemma reads_irrelevant [simp]:
  "pool_ok (p\<lparr>reads := n\<rparr>) = pool_ok p" "lease_inv (p\<lparr>reads := n\<rparr>) = lease_inv p"
  "same_config p (q\<lparr>reads := n\<rparr>) = same_config p q" "same_config (p\<lparr>reads := n\<rparr>) q = same_config p q"
  by (simp_all add: pool_ok_def lease_inv_def same_config_def in_pool_def pool_keys_def)

text \<open>One round of the expiry loop, in terms of the queue as a list.\<close>

definition drop_lease :: "pool \<Rightarrow> pool" where
  "drop_lease p =
     (case expirations p of [] \<Rightarrow> p
      | e # q \<Rightarrow> p\<lparr>reads := Suc (reads p), expirations := q,
          identityAssociations := (identityAssociations p)(ia_key (ia e) := None),
          usedIps := usedIps p - {ip_key (ia e)}\<rparr>)"

lemma expire_associations_eq:
  "expire_associations p =
     (case expirations p of [] \<Rightarrow> p
      | e # q \<Rightarrow> if timeNow p (reads p) < expiresAt e then p\<lparr>reads := Suc (reads p)\<rparr>
                 else expire_associations (drop_lease p))"
  by (subst expire_associations.simps)
    (simp add: fifo_size_def fifo_peek_def fifo_shift_def time_now_def drop_lease_def split: list.split)

lemma expire_induct [case_names Empty Live Expired]:
  assumes "\<And>p. expirations p = [] \<Longrightarrow> P p p"
    and "\<And>p e q. expirations p = e # q \<Longrightarrow> timeNow p (reads p) < expiresAt e \<Longrightarrow>
      P p (p\<lparr>reads := Suc (reads p)\<rparr>)"
    and "\<And>p e q. expirations p = e # q \<Longrightarrow> \<not> timeNow p (reads p) < expiresAt e \<Longrightarrow>
      P (drop_lease p) (expire_associations (drop_lease p)) \<Longrightarrow> P p (expire_associations (drop_lease p))"
  shows "P p (expire_associations p)"
proof (induction "length (expirations p)" arbitrary: p rule: less_induct)
  case less
  show ?case
  proof (cases "expirations p")
    case Nil
    with assms(1) show ?thesis by (subst expire_associations_eq) simp
  next
    case (Cons e q)
    then have "length (expirations (drop_lease p)) < length (expirations p)"
      by (simp add: drop_lease_def)
    from less [OF this] assms(2,3) [OF Cons] Cons show ?thesis
      by (subst expire_associations_eq) simp
  qed
qed

lemma drop_lease_keeps:
  "same_config p (drop_lease p)" "pool_ok p \<Longrightarrow> pool_ok (drop_lease p)"
  by (auto simp: drop_lease_def same_config_def pool_ok_def in_pool_def pool_keys_def split: list.split)

lemma drop_lease_lease_inv:
  assumes "lease_inv p" shows "lease_inv (drop_lease p)"
proof (cases "expirations p")
  case Nil
  with assms show ?thesis by (simp add: drop_lease_def)
next
  case (Cons e q)
  with assms have "ia_key (ia e) \<notin> (\<lambda>e. ia_key (ia e)) ` set q" and "ip_key (ia e) \<notin> (\<lambda>e. ip_key (ia e)) ` set q"
    by (simp_all add: lease_inv_def)
  then have "ia_key (ia x) \<noteq> ia_key (ia e)" and "ip_key (ia x) \<noteq> ip_key (ia e)" if "x \<in> set q" for x
    using that by (metis image_eqI)+
  with Cons assms show ?thesis
    by (auto simp: lease_inv_def drop_lease_def)
qed

lemma expire_keeps:
  "same_config p (expire_associations p)" "pool_ok p \<Longrightarrow> pool_ok (expire_associations p)"
  "lease_inv p \<Longrightarrow> lease_inv (expire_associations p)"
  by (induction p rule: expire_induct)
    (auto intro: same_config_trans drop_lease_keeps drop_lease_lease_inv)

section \<open>Finding a free address\<close>

lemma big_uint64_inj:
  assumes "big_uint64 (s + i) = big_uint64 (s + j)" and "i < 2 ^ 64" and "j < 2 ^ 64"
  shows "i = j"
proof -
  have "(word_of_nat i :: u64) = word_of_nat j"
    using assms(1) by (simp add: big_uint64_def)
  then have "unat (word_of_nat i :: u64) = unat (word_of_nat j :: u64)" by simp
  with assms(2,3) show ?thesis
    by (simp add: unat_of_nat take_bit_eq_mod)
qed

lemma unat_u64_less: "unat (w :: u64) < 2 ^ 64"
  using unsigned_less [of w, where ?'a = nat] by simp

lemma card_pool_keys: "card (pool_keys p) = unat (poolSize p)"
proof -
  have "inj_on (\<lambda>off. big_uint64 (poolStartAddress p + off)) {..<unat (poolSize p)}"
    using unat_u64_less [of "poolSize p"] by (auto intro!: inj_onI dest!: big_uint64_inj)
  then show ?thesis by (simp add: pool_keys_def card_image)
qed

lemma finite_pool_keys [simp]: "finite (pool_keys p)"
  by (simp add: pool_keys_def)

lemma used_le_size:
  assumes "pool_ok p" shows "card (usedIps p) \<le> unat (poolSize p)"
  using assms card_mono [of "pool_keys p" "usedIps p"] by (simp add: pool_ok_def card_pool_keys)

lemma free_slot:
  assumes "pool_ok p" and "word_of_nat (card (usedIps p)) \<noteq> poolSize p"
  obtains off where "off < unat (poolSize p)" "big_uint64 (poolStartAddress p + off) \<notin> usedIps p"
proof -
  have "usedIps p \<noteq> pool_keys p"
    using assms(2) card_pool_keys [of p] by auto
  with assms(1) show ?thesis
    using that by (auto simp: pool_ok_def pool_keys_def)
qed

definition free_slot_of :: "pool \<Rightarrow> nat \<Rightarrow> bool" where
  "free_slot_of p ip \<longleftrightarrow> big_uint64 ip \<notin> usedIps p \<and> (\<exists>off < unat (poolSize p). ip = poolStartAddress p + off)"

lemma find_free_correct:
  assumes ret: "find_free draws p k = Some r"
  shows "free_slot_of p (fst r)"
proof (rule find_free.raw_induct [where P = "\<lambda>draws p k r. free_slot_of p (fst r)", OF _ ret])
  fix f :: "(nat \<Rightarrow> u64) \<Rightarrow> pool \<Rightarrow> nat \<Rightarrow> (nat \<times> nat) option" and draws p k r
  assume IH: "\<And>draws p k r. f draws p k = Some r \<Longrightarrow> free_slot_of p (fst r)"
    and step: "(if poolSize p = 0 then None
      else let hostOffset = draws k mod poolSize p; newIP = poolStartAddress p + unat hostOffset
        in if big_uint64 newIP \<in> usedIps p then f draws p (Suc k) else Some (newIP, Suc k)) = Some r"
  have "unat (draws k mod poolSize p) < unat (poolSize p)" if "poolSize p \<noteq> 0"
    using that by (simp add: unat_mod_distrib unat_gt_0)
  with step IH show "free_slot_of p (fst r)"
    by (auto simp: Let_def free_slot_of_def split: if_splits)
qed

text \<open>The draws eventually hit every offset: then the loop returns whenever a slot is free.\<close>

definition fair_draws :: "(nat \<Rightarrow> u64) \<Rightarrow> u64 \<Rightarrow> bool" where
  "fair_draws draws len \<longleftrightarrow> (\<forall>k. \<forall>off < unat len. \<exists>j \<ge> k. unat (draws j mod len) = off)"

lemma find_free_returns:
  assumes "big_uint64 (poolStartAddress p + unat (draws j mod poolSize p)) \<notin> usedIps p"
    and "k \<le> j" and "poolSize p \<noteq> 0"
  shows "\<exists>r. find_free draws p k = Some r"
  using assms(2)
proof (induction k rule: inc_induct)
  case base
  with assms show ?case by (simp add: find_free.simps)
next
  case (step k)
  then show ?case
    using assms(3) by (subst find_free.simps) (simp add: Let_def)
qed

lemma find_free_fair:
  assumes "pool_ok p" and "word_of_nat (card (usedIps p)) \<noteq> poolSize p" and "fair_draws draws (poolSize p)"
  shows "\<exists>r. find_free draws p k = Some r"
proof -
  obtain off where off: "off < unat (poolSize p)" "big_uint64 (poolStartAddress p + off) \<notin> usedIps p"
    using free_slot [OF assms(1,2)] .
  then obtain j where "k \<le> j" "unat (draws j mod poolSize p) = off"
    using assms(3) by (auto simp: fair_draws_def)
  with off show ?thesis
    using find_free_returns [of p draws j k] by (cases "poolSize p = 0") auto
qed

section \<open>Reservation and release\<close>

lemma allocate_correct:
  assumes "allocate c i ip p = (a, p')" and "free_slot_of p ip" and "identityAssociations p (iaid_hash c i) = None"
  shows "same_config p p'" "in_pool p a" "identityAssociations p' = (identityAssociations p)(iaid_hash c i \<mapsto> a)"
    and "pool_ok p \<Longrightarrow> pool_ok p'" "lease_inv p \<Longrightarrow> lease_inv p'"
    and "ClientID a = c" "InterfaceID a = i"
proof -
  obtain off where ip: "ip = poolStartAddress p + off" "off < unat (poolSize p)" and free: "big_uint64 ip \<notin> usedIps p"
    using assms(2) by (auto simp: free_slot_of_def)
  have a: "ia_key a = iaid_hash c i" "ip_key a = big_uint64 ip" "IPAddress a = big_bytes ip"
    and "ClientID a = c" "InterfaceID a = i"
    and p': "identityAssociations p' = (identityAssociations p)(iaid_hash c i \<mapsto> a)"
      "usedIps p' = insert (big_uint64 ip) (usedIps p)" "\<exists>t. expirations p' = expirations p @ [\<lparr>expiresAt = t, ia = a\<rparr>]"
    and cfg: "same_config p p'"
    using assms(1) by (auto simp: allocate_def time_now_def Let_def ia_key_def ip_key_def fifo_push_def same_config_def)
  show "same_config p p'" "identityAssociations p' = (identityAssociations p)(iaid_hash c i \<mapsto> a)"
    "ClientID a = c" "InterfaceID a = i" by fact+
  show in_p: "in_pool p a"
    using a ip by (auto simp: in_pool_def)
  show "pool_ok p'" if "pool_ok p"
    using that p' a(1) in_p ip in_pool_cong [OF cfg] pool_keys_cong [OF cfg]
    by (auto simp: pool_ok_def) (auto simp: pool_keys_def)
  show "lease_inv p'" if inv: "lease_inv p"
  proof -
    have "ia_key (ia e) \<noteq> ia_key a" if "e \<in> set (expirations p)" for e
    proof -
      from inv that have "identityAssociations p (ia_key (ia e)) = Some (ia e)"
        unfolding lease_inv_def by blast
      with assms(3) a(1) show ?thesis by auto
    qed
    moreover have "ip_key (ia e) \<noteq> ip_key a" if "e \<in> set (expirations p)" for e
    proof -
      from inv that have "ip_key (ia e) \<in> usedIps p"
        by (simp add: lease_inv_def)
      with free a(2) show ?thesis by auto
    qed
    ultimately have "ia_key a \<notin> (\<lambda>e. ia_key (ia e)) ` set (expirations p)"
      and "ip_key a \<notin> (\<lambda>e. ip_key (ia e)) ` set (expirations p)" by force+
    moreover from this a(1) have "ia_key (ia e) \<noteq> iaid_hash c i" if "e \<in> set (expirations p)" for e
      using that by (metis image_eqI)
    ultimately show ?thesis using inv p' a by (auto simp: lease_inv_def)
  qed
qed

text \<open>What a run of the reservation loop guarantees about its result.\<close>

definition reserved :: "bytes \<Rightarrow> bytes list \<Rightarrow> pool \<Rightarrow> association list \<Rightarrow> pool_error option \<Rightarrow> pool \<Rightarrow> bool" where
  "reserved c ids p new e p' \<longleftrightarrow>
     same_config p p' \<and> identityAssociations p \<subseteq>\<^sub>m identityAssociations p' \<and>
     (pool_ok p \<longrightarrow> pool_ok p') \<and> (lease_inv p \<longrightarrow> lease_inv p') \<and>
     (case e of None \<Rightarrow> length new = length ids
      | Some _ \<Rightarrow> length new < length ids \<and> word_of_nat (card (usedIps p')) = poolSize p' \<and>
          identityAssociations p' (iaid_hash c (ids ! length new)) = None) \<and>
     (\<forall>j < length new. identityAssociations p' (iaid_hash c (ids ! j)) = Some (new ! j))"

lemma reserve_loop_reserved:
  assumes "reserve_loop draws c ids k ret p = Some (ret', e, p')"
  shows "\<exists>new. ret' = ret @ new \<and> reserved c ids p new e p'"
  using assms
proof (induction ids arbitrary: k ret p)
  case Nil
  then show ?case by (simp add: reserved_def)
next
  case (Cons i ids)
  consider (live) a where "identityAssociations p (iaid_hash c i) = Some a"
    | (full) "identityAssociations p (iaid_hash c i) = None" "word_of_nat (card (usedIps p)) = poolSize p"
    | (new) "identityAssociations p (iaid_hash c i) = None" "word_of_nat (card (usedIps p)) \<noteq> poolSize p"
    by (cases "identityAssociations p (iaid_hash c i)") auto
  then show ?case
  proof cases
    case live
    with Cons.prems Cons.IH [of k "ret @ [a]" p] obtain rest
      where "ret' = (ret @ [a]) @ rest" and rest: "reserved c ids p rest e p'" by auto
    moreover have "reserved c (i # ids) p (a # rest) e p'"
      using rest live by (auto simp: reserved_def less_Suc_eq_0_disj map_le_def dom_def split: option.splits)
    ultimately show ?thesis by auto
  next
    case full
    with Cons.prems show ?thesis by (auto simp: reserved_def)
  next
    case new
    with Cons.prems obtain ip k' where ff: "find_free draws p k = Some (ip, k')"
      by (auto split: option.splits)
    obtain a p1 where al: "allocate c i ip p = (a, p1)" by fastforce
    from Cons.prems new ff al have "reserve_loop draws c ids k' (ret @ [a]) p1 = Some (ret', e, p')"
      by simp
    from Cons.IH [OF this] obtain rest
      where "ret' = (ret @ [a]) @ rest" and rest: "reserved c ids p1 rest e p'" by auto
    note ac = allocate_correct [OF al _ new(1)]
    from find_free_correct [OF ff] have "free_slot_of p ip" by simp
    note ac = ac [OF this]
    have "identityAssociations p \<subseteq>\<^sub>m identityAssociations p1"
      using ac(3) new(1) by (auto simp: map_le_def)
    moreover have "identityAssociations p' (iaid_hash c i) = Some a"
      using rest ac(3) by (auto simp: reserved_def map_le_def)
    ultimately have "reserved c (i # ids) p (a # rest) e p'"
      using rest ac by (auto simp: reserved_def less_Suc_eq_0_disj intro: same_config_trans map_le_trans split: option.splits)
    with \<open>ret' = (ret @ [a]) @ rest\<close> show ?thesis by auto
  qed
qed

lemma reserve_addresses_reserved:
  assumes "reserve_addresses rng c ids p = Some (ret, e, p')"
  shows "reserved c ids (expire_associations p) ret e p'"
proof -
  from assms have "reserved c ids ((expire_associations p)\<lparr>reads := Suc (reads (expire_associations p))\<rparr>) ret e p'"
    by (auto simp: reserve_addresses_def time_now_def Let_def dest!: reserve_loop_reserved)
  then show ?thesis by (simp add: reserved_def)
qed

section \<open>Termination of a reservation\<close>

lemma reserve_loop_returns:
  assumes "pool_ok p" and "fair_draws draws (poolSize p)"
  shows "\<exists>r. reserve_loop draws c ids k ret p = Some r"
  using assms
proof (induction ids arbitrary: k ret p)
  case (Cons i ids)
  show ?case
  proof (cases "identityAssociations p (iaid_hash c i) = None \<and> word_of_nat (card (usedIps p)) \<noteq> poolSize p")
    case False
    with Cons show ?thesis by (auto split: option.splits)
  next
    case True
    with find_free_fair [OF Cons.prems(1) _ Cons.prems(2)] obtain ip k' where ff: "find_free draws p k = Some (ip, k')"
      by fastforce
    obtain a p1 where al: "allocate c i ip p = (a, p1)" by fastforce
    from find_free_correct [OF ff] have "free_slot_of p ip" by simp
    from allocate_correct [OF al this] True Cons.prems have "pool_ok p1" "fair_draws draws (poolSize p1)"
      by (auto simp: same_config_def)
    from Cons.IH [OF this] True ff al show ?thesis by simp
  qed
qed simp

lemma reserve_returns:
  assumes "pool_ok p" and "\<And>seed. fair_draws (rng seed) (poolSize p)"
  shows "\<exists>r. reserve_addresses rng c ids p = Some r"
proof -
  define q where "q = (expire_associations p)\<lparr>reads := Suc (reads (expire_associations p))\<rparr>"
  have "pool_ok q" and "poolSize q = poolSize p"
    using assms(1) expire_keeps(1,2) [of p] by (simp_all add: q_def same_config_def)
  with assms(2) have "\<exists>r. reserve_loop (rng seed) c ids 0 [] q = Some r" for seed
    by (intro reserve_loop_returns) simp_all
  then show ?thesis
    by (simp add: reserve_addresses_def time_now_def q_def)
qed

section \<open>Release\<close>

lemma release_keeps:
  "same_config p (release_addresses c ids p) \<and> expirations (release_addresses c ids p) = expirations p \<and>
   reads (release_addresses c ids p) = reads p"
  by (induction c ids p rule: release_addresses.induct) (auto simp: same_config_def split: option.split)

lemma release_associations:
  "identityAssociations (release_addresses c ids p) = identityAssociations p |` (- iaid_hash c ` set ids)"
  by (induction c ids p rule: release_addresses.induct) (auto simp: restrict_map_def fun_eq_iff split: option.split)

lemma release_used:
  "usedIps (release_addresses c ids p) =
     usedIps p - ip_key ` {a. \<exists>i \<in> set ids. identityAssociations p (iaid_hash c i) = Some a}"
proof (induction ids arbitrary: p)
  case (Cons i ids)
  show ?case
  proof (cases "identityAssociations p (iaid_hash c i)")
    case None
    then have "{a. \<exists>j \<in> set (i # ids). identityAssociations p (iaid_hash c j) = Some a} =
        {a. \<exists>j \<in> set ids. identityAssociations p (iaid_hash c j) = Some a}" by auto
    with None show ?thesis by (simp add: Cons.IH)
  next
    case (Some a)
    define q where "q = p\<lparr>usedIps := usedIps p - {ip_key a},
      identityAssociations := (identityAssociations p)(iaid_hash c i := None)\<rparr>"
    have "{x. \<exists>j \<in> set (i # ids). identityAssociations p (iaid_hash c j) = Some x} =
        insert a {x. \<exists>j \<in> set ids. identityAssociations q (iaid_hash c j) = Some x}"
      using Some by (auto simp: q_def split: if_splits) (metis option.inject)
    moreover have "release_addresses c (i # ids) p = release_addresses c ids q"
      using Some by (simp add: q_def)
    moreover have "usedIps q = usedIps p - {ip_key a}" by (simp add: q_def)
    ultimately show ?thesis
      by (simp only: Cons.IH image_insert) blast
  qed
qed simp

lemma release_spec:
  "identityAssociations (release_addresses c ids p) = identityAssociations p |` (- iaid_hash c ` set ids)"
  "usedIps (release_addresses c ids p) =
     usedIps p - ip_key ` {a. \<exists>i \<in> set ids. identityAssociations p (iaid_hash c i) = Some a}"
  "same_config p (release_addresses c ids p)" "expirations (release_addresses c ids p) = expirations p"
  "reads (release_addresses c ids p) = reads p"
  using release_keeps by (simp_all add: release_associations release_used)

lemma release_pool_ok: "pool_ok p \<Longrightarrow> pool_ok (release_addresses c ids p)"
  using release_spec [where c = c and ids = ids and p = p]
    in_pool_cong [OF release_spec(3) [where c = c and ids = ids and p = p]]
    pool_keys_cong [OF release_spec(3) [where c = c and ids = ids and p = p]]
  by (auto simp: pool_ok_def restrict_map_def split: if_splits)

section \<open>Time\<close>

text \<open>
  With a clock that never runs back, the queue is ordered by expiry and each entry expires one
  lifetime after its association was created, at a moment the clock has shown.
\<close>

definition timed :: "pool \<Rightarrow> bool" where
  "timed p \<longleftrightarrow> sorted_wrt (\<lambda>e f. expiresAt e \<le> expiresAt f) (expirations p) \<and>
     (\<forall>e \<in> set (expirations p). expiresAt e = association_expiration p (CreatedAt (ia e)) \<and>
        (\<exists>n < reads p. CreatedAt (ia e) = timeNow p n))"

lemma drop_lease_simps:
  assumes "expirations p = e # q"
  shows "reads (drop_lease p) = Suc (reads p)" "expirations (drop_lease p) = q"
  using assms by (simp_all add: drop_lease_def)

lemma association_expiration_cong: "same_config p q \<Longrightarrow> association_expiration p t = association_expiration q t"
  by (simp add: same_config_def association_expiration_def)

lemma timed_mono:
  assumes "timed p" and "same_config p q" and "reads p \<le> reads q" and "sorted_wrt (\<lambda>e f. expiresAt e \<le> expiresAt f) (expirations q)"
    and "set (expirations q) \<subseteq> set (expirations p)"
  shows "timed q"
proof -
  have "expiresAt e = association_expiration q (CreatedAt (ia e)) \<and> (\<exists>n < reads q. CreatedAt (ia e) = timeNow q n)"
    if "e \<in> set (expirations q)" for e
  proof -
    from that assms(5) have "e \<in> set (expirations p)" by auto
    with assms(1) obtain n where "expiresAt e = association_expiration p (CreatedAt (ia e))"
      "n < reads p" "CreatedAt (ia e) = timeNow p n" by (auto simp: timed_def)
    with assms(2,3) show ?thesis
      by (auto simp: association_expiration_cong [OF assms(2)] same_config_def intro!: exI [of _ n])
  qed
  with assms(4) show ?thesis by (simp add: timed_def)
qed

lemma expire_queue:
  "reads p \<le> reads (expire_associations p)" "\<exists>k. expirations (expire_associations p) = drop k (expirations p)"
proof (induction p rule: expire_induct)
  case (Empty p)
  { case 1 show ?case by simp }
  { case 2 show ?case by (rule exI [of _ 0]) simp }
next
  case (Live p e q)
  { case 1 show ?case by simp }
  { case 2 show ?case by (rule exI [of _ 0]) simp }
next
  case (Expired p e q)
  note s = drop_lease_simps [OF Expired(1)]
  { case 1 show ?case using Expired(3) s by simp }
  { case 2
    from Expired(4) obtain k where "expirations (expire_associations (drop_lease p)) = drop k (expirations (drop_lease p))" ..
    with s Expired(1) show ?case by (intro exI [of _ "Suc k"]) simp }
qed

lemma sorted_wrt_drop: "sorted_wrt P xs \<Longrightarrow> sorted_wrt P (drop k xs)"
  by (metis append_take_drop_id sorted_wrt_append)

lemma expire_timed: "timed p \<Longrightarrow> timed (expire_associations p)"
proof (rule timed_mono [OF _ expire_keeps(1) expire_queue(1)])
  obtain k where k: "expirations (expire_associations p) = drop k (expirations p)"
    using expire_queue(2) by blast
  then show "set (expirations (expire_associations p)) \<subseteq> set (expirations p)"
    by (simp add: set_drop_subset)
  show "sorted_wrt (\<lambda>e f. expiresAt e \<le> expiresAt f) (expirations (expire_associations p))" if "timed p"
    using that k by (simp add: timed_def sorted_wrt_drop)
qed

text \<open>After expiry every queued lease outlives the moment expiry began.\<close>

lemma expire_leaves_live:
  assumes "timed p" and "mono (timeNow p)" and "e \<in> set (expirations (expire_associations p))"
  shows "timeNow p (reads p) < expiresAt e"
  using assms
proof (induction p rule: expire_induct)
  case (Live p e' q)
  then show ?case by (auto simp: timed_def)
next
  case (Expired p e' q)
  have "timeNow p (reads p) \<le> timeNow p (Suc (reads p))"
    using Expired.prems(2) by (simp add: mono_def)
  moreover have "timeNow (drop_lease p) = timeNow p"
    using drop_lease_keeps(1) [of p] by (simp add: same_config_def)
  moreover have "timed (drop_lease p)"
  proof (rule timed_mono [OF Expired.prems(1) drop_lease_keeps(1)])
    show "sorted_wrt (\<lambda>e f. expiresAt e \<le> expiresAt f) (expirations (drop_lease p))"
      using Expired.prems(1) Expired(1) by (simp add: timed_def drop_lease_simps [OF Expired(1)])
  qed (auto simp: drop_lease_simps [OF Expired(1)] Expired(1))
  ultimately show ?case
    using Expired.IH Expired.prems drop_lease_simps(1) [OF Expired(1)] by simp
qed simp

text \<open>And it removes no lease that outlives the moment expiry ended.\<close>

lemma expire_keeps_live:
  assumes "mono (timeNow p)" and "e \<in> set (expirations p)"
    and "timeNow p (reads (expire_associations p)) < expiresAt e"
  shows "e \<in> set (expirations (expire_associations p))"
  using assms
proof (induction p rule: expire_induct)
  case (Expired p e' q)
  have "timeNow (drop_lease p) = timeNow p"
    using drop_lease_keeps(1) [of p] by (simp add: same_config_def)
  moreover have "reads p \<le> reads (expire_associations (drop_lease p))"
    using expire_queue(1) [of "drop_lease p"] drop_lease_simps(1) [OF Expired(1)] by simp
  then have "timeNow p (reads p) \<le> timeNow p (reads (expire_associations (drop_lease p)))"
    using Expired.prems(1) by (simp add: mono_def)
  then have "e \<noteq> e'" using Expired(2) Expired.prems(3) by auto
  ultimately show ?case
    using Expired.IH Expired.prems drop_lease_simps(2) [OF Expired(1)] Expired(1) by auto
qed auto

lemma allocate_timed:
  assumes "allocate c i ip p = (a, p')" and "timed p" and "mono (timeNow p)"
  shows "timed p'" "reads p' = Suc (reads p)" "CreatedAt a = timeNow p (reads p)"
    "\<exists>e. expirations p' = expirations p @ [e] \<and> ia e = a"
proof -
  have p': "timeNow p' = timeNow p" "reads p' = Suc (reads p)" "validLifetime p' = validLifetime p"
    and a: "CreatedAt a = timeNow p (reads p)"
    and q: "expirations p' = expirations p @ [\<lparr>expiresAt = association_expiration p (timeNow p (reads p)), ia = a\<rparr>]"
    using assms(1) by (auto simp: allocate_def time_now_def Let_def fifo_push_def association_expiration_def)
  then show "reads p' = Suc (reads p)" "CreatedAt a = timeNow p (reads p)"
    "\<exists>e. expirations p' = expirations p @ [e] \<and> ia e = a" by simp_all
  have "expiresAt e \<le> association_expiration p (timeNow p (reads p))" if "e \<in> set (expirations p)" for e
    using assms(2,3) that by (fastforce simp: timed_def association_expiration_def mono_def less_imp_le)
  moreover have "association_expiration p' t = association_expiration p t" for t
    using p' by (simp add: association_expiration_def)
  ultimately show "timed p'"
    using assms(2) p' a q by (auto simp: timed_def sorted_wrt_append less_Suc_eq)
qed

lemma reserve_loop_timed:
  assumes "reserve_loop draws c ids k ret p = Some (ret', e, p')" and "timed p" and "mono (timeNow p)"
  shows "timed p' \<and> reads p \<le> reads p' \<and> (\<exists>new. expirations p' = expirations p @ new \<and>
      (\<forall>l \<in> set new. timeNow p (reads p) \<le> CreatedAt (ia l)))"
  using assms
proof (induction ids arbitrary: k ret p)
  case (Cons i ids)
  show ?case
  proof (cases "identityAssociations p (iaid_hash c i) = None \<and> word_of_nat (card (usedIps p)) \<noteq> poolSize p")
    case False
    with Cons show ?thesis by (auto split: option.splits if_splits)
  next
    case True
    with Cons.prems(1) obtain ip k' where "find_free draws p k = Some (ip, k')"
      by (auto split: option.splits)
    moreover obtain a p1 where al: "allocate c i ip p = (a, p1)" by fastforce
    ultimately have rest: "reserve_loop draws c ids k' (ret @ [a]) p1 = Some (ret', e, p')"
      using Cons.prems(1) True by simp
    note at = allocate_timed [OF al Cons.prems(2,3)]
    have clock: "timeNow p1 = timeNow p"
      using al by (auto simp: allocate_def time_now_def Let_def)
    have "timed p' \<and> reads p1 \<le> reads p' \<and> (\<exists>new. expirations p' = expirations p1 @ new \<and>
        (\<forall>l \<in> set new. timeNow p1 (reads p1) \<le> CreatedAt (ia l)))"
      using Cons.IH [OF rest at(1)] Cons.prems(3) clock by simp
    then obtain new where new: "timed p'" "reads p1 \<le> reads p'" "expirations p' = expirations p1 @ new"
        "\<And>l. l \<in> set new \<Longrightarrow> timeNow p1 (reads p1) \<le> CreatedAt (ia l)" by blast
    obtain l where l: "expirations p1 = expirations p @ [l]" "ia l = a" using at(4) by blast
    have "timeNow p (reads p) \<le> timeNow p1 (reads p1)"
      using Cons.prems(3) clock at(2) by (simp add: mono_def)
    with new(4) l(2) at(3) have "\<forall>x \<in> set (l # new). timeNow p (reads p) \<le> CreatedAt (ia x)"
      by fastforce
    with new l at(2) show ?thesis by (intro conjI exI [of _ "l # new"]) simp_all
  qed
qed auto

lemma reserve_timed:
  assumes "reserve_addresses rng c ids p = Some (ret, e, p')" and "timed p" and "mono (timeNow p)"
  shows "timed p'" "reads (expire_associations p) < reads p'"
    "\<exists>new. expirations p' = expirations (expire_associations p) @ new \<and>
      (\<forall>l \<in> set new. timeNow p (reads p) \<le> CreatedAt (ia l))"
proof -
  define q where "q = (expire_associations p)\<lparr>reads := Suc (reads (expire_associations p))\<rparr>"
  have cfg: "same_config (expire_associations p) q" and "timeNow q = timeNow p"
    using expire_keeps(1) [of p] by (auto simp: q_def same_config_def)
  have "timed q"
    by (rule timed_mono [OF expire_timed [OF assms(2)] cfg])
      (use expire_timed [OF assms(2)] in \<open>simp_all add: q_def timed_def\<close>)
  moreover have "mono (timeNow q)" using assms(3) \<open>timeNow q = timeNow p\<close> by simp
  moreover have "reserve_loop (rng (timeNow p (reads (expire_associations p)))) c ids 0 [] q = Some (ret, e, p')"
    using assms(1) expire_keeps(1) [of p] by (simp add: reserve_addresses_def time_now_def q_def same_config_def)
  ultimately have r: "timed p' \<and> reads q \<le> reads p' \<and> (\<exists>new. expirations p' = expirations q @ new \<and>
      (\<forall>l \<in> set new. timeNow q (reads q) \<le> CreatedAt (ia l)))"
    using reserve_loop_timed by blast
  then show "timed p'" "reads (expire_associations p) < reads p'" by (auto simp: q_def)
  have "timeNow p (reads p) \<le> timeNow q (reads q)"
    using assms(3) expire_queue(1) [of p] \<open>timeNow q = timeNow p\<close> by (simp add: q_def mono_def)
  with r show "\<exists>new. expirations p' = expirations (expire_associations p) @ new \<and>
      (\<forall>l \<in> set new. timeNow p (reads p) \<le> CreatedAt (ia l))"
    by (fastforce simp: q_def)
qed

section \<open>Histories\<close>

text \<open>Clients call the two operations in any order; each runs alone, under the pool's mutex.\<close>

datatype pool_op = Reserve bytes "bytes list" | Release bytes "bytes list"

inductive pool_step :: "(int \<Rightarrow> nat \<Rightarrow> u64) \<Rightarrow> pool \<Rightarrow> pool_op \<Rightarrow> pool \<Rightarrow> bool" for rng where
  step_reserve: "reserve_addresses rng c ids p = Some (ret, e, p') \<Longrightarrow> pool_step rng p (Reserve c ids) p'"
| step_release: "pool_step rng p (Release c ids) (release_addresses c ids p)"

inductive pool_run :: "(int \<Rightarrow> nat \<Rightarrow> u64) \<Rightarrow> pool \<Rightarrow> pool_op list \<Rightarrow> pool \<Rightarrow> bool" for rng where
  run_Nil: "pool_run rng p [] p"
| run_Cons: "pool_step rng p a p1 \<Longrightarrow> pool_run rng p1 as p2 \<Longrightarrow> pool_run rng p (a # as) p2"

inductive_cases pool_step_reserveE: "pool_step rng p (Reserve c ids) p'"
inductive_cases pool_step_releaseE: "pool_step rng p (Release c ids) p'"
inductive_simps pool_run_Nil [simp]: "pool_run rng p [] p'"
inductive_simps pool_run_Cons [simp]: "pool_run rng p (a # as) p'"

lemma pool_step_ok:
  assumes "pool_step rng p a p'"
  shows "same_config p p'" "pool_ok p \<Longrightarrow> pool_ok p'"
  using assms
  by (cases; auto simp: release_pool_ok release_spec(3)
      dest!: reserve_addresses_reserved intro: same_config_trans [OF expire_keeps(1)] simp: reserved_def expire_keeps)+

lemma pool_run_ok:
  assumes "pool_run rng p as p'"
  shows "same_config p p'" "pool_ok p \<Longrightarrow> pool_ok p'"
  using assms by induction (auto intro: pool_step_ok same_config_trans)

definition is_reserve :: "pool_op \<Rightarrow> bool" where
  "is_reserve a \<longleftrightarrow> (\<exists>c ids. a = Reserve c ids)"

lemma reserve_step_inv:
  assumes "pool_step rng p a p'" and "is_reserve a"
  shows "lease_inv p \<Longrightarrow> lease_inv p'" "timed p \<Longrightarrow> mono (timeNow p) \<Longrightarrow> timed p'"
proof -
  from assms obtain c ids ret e where r: "reserve_addresses rng c ids p = Some (ret, e, p')"
    by (auto simp: is_reserve_def elim: pool_step_reserveE)
  show "lease_inv p'" if "lease_inv p"
    using reserve_addresses_reserved [OF r] expire_keeps(3) [OF that] by (simp add: reserved_def)
  show "timed p'" if "timed p" "mono (timeNow p)"
    by (rule reserve_timed(1) [OF r that])
qed

lemma reserve_run_inv:
  assumes "pool_run rng p as p'" and "list_all is_reserve as"
  shows "lease_inv p \<Longrightarrow> lease_inv p'" "timed p \<Longrightarrow> mono (timeNow p) \<Longrightarrow> timed p'"
  using assms
proof induction
  case (run_Cons p a p1 as p2)
  have "timeNow p = timeNow p1" using pool_step_ok(1) [OF run_Cons(1)] by (simp add: same_config_def)
  { case 1 then show ?case using run_Cons reserve_step_inv(1) [OF run_Cons(1)] by simp }
  { case 2 then show ?case using run_Cons reserve_step_inv(2) [OF run_Cons(1)] \<open>timeNow p = timeNow p1\<close> by simp }
qed simp_all

text \<open>The moment a lease ends.\<close>

definition lease_end :: "u32 \<Rightarrow> association \<Rightarrow> int" where
  "lease_end lifetime a = CreatedAt a + int (unat lifetime) * 1000000000"

lemma expire_keeps_association:
  assumes "lease_inv p" and "timed p" and "mono (timeNow p)" and "identityAssociations p h = Some a"
    and "timeNow p (reads (expire_associations p)) < lease_end (validLifetime p) a"
  shows "identityAssociations (expire_associations p) h = Some a"
proof -
  from assms(1,4) obtain l where l: "l \<in> set (expirations p)" "ia l = a" "ia_key a = h"
    by (auto simp: lease_inv_def)
  then have "expiresAt l = lease_end (validLifetime p) a"
    using assms(2) by (auto simp: timed_def association_expiration_def lease_end_def)
  then have "l \<in> set (expirations (expire_associations p))"
    using expire_keeps_live [of p l] assms(3,5) l(1) by simp
  moreover have "lease_inv (expire_associations p)" by (rule expire_keeps(3) [OF assms(1)])
  ultimately show ?thesis using l(2,3) unfolding lease_inv_def by blast
qed

text \<open>Reservations, of any clients, keep a lease that has not ended when the last of them is done.\<close>

lemma reserve_keeps_association:
  assumes "reserve_addresses rng c ids p = Some (ret, e, p')" and "lease_inv p" and "timed p" and "mono (timeNow p)"
    and "identityAssociations p h = Some a" and "timeNow p (reads p') < lease_end (validLifetime p) a"
  shows "identityAssociations (expire_associations p) h = Some a" and "identityAssociations p' h = Some a"
proof -
  have "timeNow p (reads (expire_associations p)) \<le> timeNow p (reads p')"
    using reserve_timed(2) [OF assms(1,3,4)] assms(4) by (simp add: mono_def less_imp_le)
  then show kept: "identityAssociations (expire_associations p) h = Some a"
    using expire_keeps_association [OF assms(2-5)] assms(6) by simp
  have "identityAssociations (expire_associations p) \<subseteq>\<^sub>m identityAssociations p'"
    using reserve_addresses_reserved [OF assms(1)] by (simp add: reserved_def)
  with kept show "identityAssociations p' h = Some a" by (auto simp: map_le_def dom_def)
qed

lemma reserve_step_reads:
  assumes "pool_step rng p a p'" and "is_reserve a" and "timed p" and "mono (timeNow p)"
  shows "reads p \<le> reads p'"
proof -
  from assms(1,2) obtain c ids ret e where "reserve_addresses rng c ids p = Some (ret, e, p')"
    by (auto simp: is_reserve_def elim: pool_step_reserveE)
  from reserve_timed(2) [OF this assms(3,4)] expire_queue(1) [of p] show ?thesis by simp
qed

lemma reserve_run_reads:
  assumes "pool_run rng p as p'" and "list_all is_reserve as" and "timed p" and "mono (timeNow p)"
  shows "reads p \<le> reads p'"
  using assms
proof induction
  case (run_Cons p b p1 as p2)
  then have b: "is_reserve b" and as: "list_all is_reserve as" by simp_all
  have "timed p1" by (rule reserve_step_inv(2) [OF run_Cons(1) b run_Cons.prems(2,3)])
  moreover have "mono (timeNow p1)"
    using pool_step_ok(1) [OF run_Cons(1)] run_Cons.prems(3) by (simp add: same_config_def)
  ultimately have "reads p1 \<le> reads p2" using run_Cons.IH as by simp
  with reserve_step_reads [OF run_Cons(1) b run_Cons.prems(2,3)] show ?case by simp
qed simp

lemma reserve_run_keeps:
  assumes "pool_run rng p as p'" and "list_all is_reserve as" and "lease_inv p" and "timed p" and "mono (timeNow p)"
    and "identityAssociations p h = Some a" and "timeNow p (reads p') < lease_end (validLifetime p) a"
  shows "identityAssociations p' h = Some a"
  using assms
proof induction
  case (run_Cons p b p1 as p2)
  then have b: "is_reserve b" and as: "list_all is_reserve as" by simp_all
  have cfg: "timeNow p1 = timeNow p" "validLifetime p1 = validLifetime p"
    using pool_step_ok(1) [OF run_Cons(1)] by (simp_all add: same_config_def)
  have inv: "lease_inv p1" "timed p1"
    using reserve_step_inv [OF run_Cons(1) b] run_Cons.prems(2-4) by simp_all
  obtain c ids ret e where r: "reserve_addresses rng c ids p = Some (ret, e, p1)"
    using run_Cons(1) b by (auto simp: is_reserve_def elim: pool_step_reserveE)
  have "reads p1 \<le> reads p2" using reserve_run_reads [OF run_Cons(2) as inv(2)] run_Cons.prems(4) cfg by simp
  then have "timeNow p (reads p1) \<le> timeNow p (reads p2)" using run_Cons.prems(4) by (simp add: mono_def)
  with run_Cons.prems(6) have "timeNow p (reads p1) < lease_end (validLifetime p) a" by simp
  then have "identityAssociations p1 h = Some a"
    by (rule reserve_keeps_association(2) [OF r run_Cons.prems(2-5)])
  with run_Cons.IH as inv run_Cons.prems(4,6) cfg show ?case by simp
qed simp

text \<open>Interfaces that all have a lease are answered with their leases, and nothing is drawn.\<close>

lemma reserve_loop_known:
  "map Some as = map (\<lambda>i. identityAssociations p (iaid_hash c i)) ids \<Longrightarrow>
     reserve_loop draws c ids k ret p = Some (ret @ as, None, p)"
  by (induction ids arbitrary: as ret) (auto dest!: sym [of "Some _"])

lemma reserve_known:
  assumes "map Some as = map (\<lambda>i. identityAssociations (expire_associations p) (iaid_hash c i)) ids"
  shows "\<exists>p'. reserve_addresses rng c ids p = Some (as, None, p')"
  using reserve_loop_known [of as "(expire_associations p)\<lparr>reads := Suc (reads (expire_associations p))\<rparr>" c ids] assms
  by (simp add: reserve_addresses_def time_now_def)

text \<open>Where a lease comes from: some reservation of the history asked for it.\<close>

lemma expire_only_removes: "identityAssociations (expire_associations p) h = Some a \<Longrightarrow> identityAssociations p h = Some a"
proof (induction p rule: expire_induct)
  case (Expired p e q)
  then have "identityAssociations (drop_lease p) h = Some a" by simp
  with Expired(1) show ?case by (auto simp: drop_lease_def split: if_splits)
qed simp_all

lemma reserve_loop_provenance:
  assumes "reserve_loop draws c ids k ret p = Some (ret', e, p')" and "identityAssociations p' h = Some a"
  shows "identityAssociations p h = Some a \<or> ClientID a = c \<and> InterfaceID a \<in> set ids"
  using assms
proof (induction ids arbitrary: k ret p)
  case (Cons i ids)
  show ?case
  proof (cases "identityAssociations p (iaid_hash c i) = None \<and> word_of_nat (card (usedIps p)) \<noteq> poolSize p")
    case False
    with Cons show ?thesis by (auto split: option.splits if_splits)
  next
    case True
    with Cons.prems(1) obtain ip k' where "find_free draws p k = Some (ip, k')"
      by (auto split: option.splits)
    moreover obtain x p1 where al: "allocate c i ip p = (x, p1)" by fastforce
    ultimately have "reserve_loop draws c ids k' (ret @ [x]) p1 = Some (ret', e, p')"
      using Cons.prems(1) True by simp
    from Cons.IH [OF this Cons.prems(2)]
    have "identityAssociations p1 h = Some a \<or> ClientID a = c \<and> InterfaceID a \<in> set ids" .
    moreover have "identityAssociations p1 = (identityAssociations p)(iaid_hash c i \<mapsto> x)" "ClientID x = c" "InterfaceID x = i"
      using al by (auto simp: allocate_def time_now_def Let_def)
    ultimately show ?thesis by (auto split: if_splits)
  qed
qed simp

lemma reserve_provenance:
  assumes "reserve_addresses rng c ids p = Some (ret, e, p')" and "identityAssociations p' h = Some a"
  shows "identityAssociations p h = Some a \<or> ClientID a = c \<and> InterfaceID a \<in> set ids"
  using assms
  by (auto simp: reserve_addresses_def time_now_def Let_def dest!: reserve_loop_provenance dest: expire_only_removes)

definition requests :: "pool_op list \<Rightarrow> (bytes \<times> bytes) set" where
  "requests as = {(c, i). \<exists>ids. Reserve c ids \<in> set as \<and> i \<in> set ids}"

lemma pool_run_provenance:
  assumes "pool_run rng p as p'" and "identityAssociations p' h = Some a"
  shows "identityAssociations p h = Some a \<or> (ClientID a, InterfaceID a) \<in> requests as"
  using assms
proof induction
  case (run_Cons p b p1 as p2)
  then consider "identityAssociations p1 h = Some a" | "(ClientID a, InterfaceID a) \<in> requests as" by blast
  then show ?case
  proof cases
    case 1
    with run_Cons(1) show ?thesis
      by cases (auto simp: requests_def release_spec restrict_map_def split: if_splits dest: reserve_provenance)
  next
    case 2
    then show ?thesis by (auto simp: requests_def)
  qed
qed simp

lemma new_pool_inv [simp]:
  "pool_ok (new_pool first len lifetime clock)" "lease_inv (new_pool first len lifetime clock)"
  "timed (new_pool first len lifetime clock)"
  by (simp_all add: new_pool_def pool_ok_def lease_inv_def timed_def)

lemma new_pool_config: "same_config (new_pool first len lifetime clock) p \<longleftrightarrow>
    poolStartAddress p = big_set_bytes first \<and> poolSize p = len \<and> validLifetime p = lifetime \<and> timeNow p = clock"
  by (auto simp: new_pool_def same_config_def)

section \<open>The interface the packet builder relies on\<close>

text \<open>
  \<^verbatim>\<open>types.AddressPool\<close>: a provider with an invariant, whose reservations answer a prefix of the
  requested interfaces, all of them unless an error is returned, each association stored under
  the key of the interface it answers.
\<close>

locale address_pool =
  fixes reserve :: "bytes \<Rightarrow> bytes list \<Rightarrow> 'p \<Rightarrow> (association list \<times> 'e option \<times> 'p) option"
    and release :: "bytes \<Rightarrow> bytes list \<Rightarrow> 'p \<Rightarrow> 'p"
    and inv :: "'p \<Rightarrow> bool"
    and key :: "bytes \<Rightarrow> bytes \<Rightarrow> 'k"
  assumes reserve_inv: "inv p \<Longrightarrow> reserve c ids p = Some (as, e, p') \<Longrightarrow> inv p'"
    and release_inv: "inv p \<Longrightarrow> inv (release c ids p)"
    and reserve_all: "inv p \<Longrightarrow> reserve c ids p = Some (as, None, p') \<Longrightarrow> length as = length ids"
    and reserve_short: "inv p \<Longrightarrow> reserve c ids p = Some (as, Some err, p') \<Longrightarrow> length as < length ids"
    and reserve_key: "inv p \<Longrightarrow> reserve c ids p = Some (as, e, p') \<Longrightarrow> j < length as \<Longrightarrow>
      key (ClientID (as ! j)) (InterfaceID (as ! j)) = key c (ids ! j)"
begin

lemma reserve_length: "inv p \<Longrightarrow> reserve c ids p = Some (as, e, p') \<Longrightarrow> length as \<le> length ids"
  using reserve_all reserve_short by (cases e) fastforce+

lemma reserve_keys:
  assumes "inv p" and "reserve c ids p = Some (as, e, p')"
  shows "map (\<lambda>a. key (ClientID a) (InterfaceID a)) as = map (key c) (take (length as) ids)"
  using reserve_key [OF assms] reserve_length [OF assms] by (auto intro!: nth_equalityI)

lemma reserve_none: "inv p \<Longrightarrow> reserve c [] p = Some (as, e, p') \<Longrightarrow> as = [] \<and> e = None"
  using reserve_all reserve_short by (cases e) fastforce+

end

interpretation random_pool: address_pool "reserve_addresses rng" release_addresses pool_ok iaid_hash
  for rng :: "int \<Rightarrow> nat \<Rightarrow> u64"
proof unfold_locales
  fix p c ids as e p' j
  assume ok: "pool_ok p" and r: "reserve_addresses rng c ids p = Some (as, e, p')"
  note res = reserve_addresses_reserved [OF r]
  show "pool_ok p'" using res expire_keeps(2) [OF ok] by (simp add: reserved_def)
  then show "iaid_hash (ClientID (as ! j)) (InterfaceID (as ! j)) = iaid_hash c (ids ! j)" if "j < length as"
    using res that unfolding reserved_def pool_ok_def by (metis ia_key_def)
qed (auto simp: release_pool_ok reserved_def dest!: reserve_addresses_reserved)

section \<open>A sample history\<close>

text \<open>
  A pool of one address, 10.0.0.9, with leases of 100 seconds. Client 1 reserves at 0 seconds,
  client 2 at 60 seconds, client 3 at 110 seconds.
\<close>

definition demo_clock :: "nat \<Rightarrow> int" where
  "demo_clock n = (if n < 2 then 0 else if n < 5 then 60000000000 else 110000000000)"

definition demo_rng :: "int \<Rightarrow> nat \<Rightarrow> u64" where "demo_rng seed k = 0"

definition demo_lease :: "byte \<Rightarrow> int \<Rightarrow> association" where
  "demo_lease c t = \<lparr>IPAddress = [10, 0, 0, 9], ClientID = [c], InterfaceID = [0], CreatedAt = t\<rparr>"

definition demo_pool :: "association list \<Rightarrow> association list \<Rightarrow> nat \<Rightarrow> pool" where
  "demo_pool live queued n =
     \<lparr>poolStartAddress = 167772169, poolSize = 1, identityAssociations = map_of (map (\<lambda>a. (ia_key a, a)) live),
      usedIps = ip_key ` set live, expirations = map (\<lambda>a. \<lparr>expiresAt = CreatedAt a + 100000000000, ia = a\<rparr>) queued,
      validLifetime = 100, timeNow = demo_clock, reads = n\<rparr>"

lemma demo_new: "new_pool [10, 0, 0, 9] 1 100 demo_clock = demo_pool [] [] 0"
  by (simp add: new_pool_def demo_pool_def big_set_bytes_def)

lemma big_bytes_demo [simp]: "big_bytes 167772169 = [10, 0, 0, 9]"
  by (simp add: big_bytes.simps)

lemma demo_keys [simp]:
  "iaid_hash [1] [0] = 589727492704079044" "iaid_hash [2] [0] = 592597218053142079" "iaid_hash [3] [0] = 591640642936787734"
  by code_simp+

lemma demo_lease_simps [simp]: "ip_key (demo_lease c t) = 167772169" "ia_key (demo_lease c t) = iaid_hash [c] [0]"
  "CreatedAt (demo_lease c t) = t" "IPAddress (demo_lease c t) = [10, 0, 0, 9]"
  by (simp_all add: ip_key_def ia_key_def demo_lease_def big_set_bytes_def big_uint64_def)

lemmas demo_eval = reserve_addresses_def expire_associations_eq drop_lease_def demo_pool_def time_now_def
  allocate_def find_free.simps demo_rng_def fifo_push_def association_expiration_def big_uint64_def demo_clock_def

lemma demo_run:
  "reserve_addresses demo_rng [1] [[0]] (demo_pool [] [] 0) =
     Some ([demo_lease 1 0], None, demo_pool [demo_lease 1 0] [demo_lease 1 0] 2)"
  "release_addresses [1] [[0]] (demo_pool [demo_lease 1 0] [demo_lease 1 0] 2) = demo_pool [] [demo_lease 1 0] 2"
  "reserve_addresses demo_rng [2] [[0]] (demo_pool [] [demo_lease 1 0] 2) =
     Some ([demo_lease 2 60000000000], None,
       demo_pool [demo_lease 2 60000000000] [demo_lease 1 0, demo_lease 2 60000000000] 5)"
  "\<exists>p. reserve_addresses demo_rng [3] [[0]]
       (demo_pool [demo_lease 2 60000000000] [demo_lease 1 0, demo_lease 2 60000000000] 5) =
     Some ([demo_lease 3 110000000000], None, p) \<and>
     identityAssociations p (iaid_hash [2] [0]) = Some (demo_lease 2 60000000000) \<and>
     identityAssociations p (iaid_hash [3] [0]) = Some (demo_lease 3 110000000000)"
  by (simp_all add: demo_eval Let_def) (auto simp: demo_lease_def fun_eq_iff)

section \<open>Properties\<close>

text \<open>
  C30. Whatever clients reserve and release, every address leased by the pool lies within its
  configured range, and the lease is filed under the hash of its own client and interface.
\<close>

theorem pool_addresses_in_range:
  assumes "pool_run rng (new_pool first len lifetime clock) as p" and "identityAssociations p h = Some a"
  shows "(\<exists>off < unat len. IPAddress a = big_bytes (big_set_bytes first + off)) \<and>
    h = iaid_hash (ClientID a) (InterfaceID a)"
proof -
  have "pool_ok p" and "poolStartAddress p = big_set_bytes first" and "poolSize p = len"
    using pool_run_ok [OF assms(1)] by (simp_all add: new_pool_config)
  with assms(2) show ?thesis by (auto simp: pool_ok_def in_pool_def ia_key_def)
qed

theorem pool_addresses_in_range_witness:
  "\<exists>p a. pool_run demo_rng (new_pool [10, 0, 0, 9] 1 100 demo_clock) [Reserve [1] [[0]]] p \<and>
     identityAssociations p (iaid_hash [1] [0]) = Some a \<and>
     (\<exists>off < unat (1 :: u64). IPAddress a = big_bytes (big_set_bytes [10, 0, 0, 9] + off))"
proof -
  have run: "pool_run demo_rng (new_pool [10, 0, 0, 9] 1 100 demo_clock) [Reserve [1] [[0]]]
      (demo_pool [demo_lease 1 0] [demo_lease 1 0] 2)"
    using demo_run(1) by (auto simp: demo_new intro: step_reserve)
  have live: "identityAssociations (demo_pool [demo_lease 1 0] [demo_lease 1 0] 2) (iaid_hash [1] [0]) = Some (demo_lease 1 0)"
    by (simp add: demo_pool_def)
  show ?thesis using run live pool_addresses_in_range [OF run live] by blast
qed

lemma lease_inv_distinct:
  assumes "lease_inv p" and "identityAssociations p h = Some a" and "identityAssociations p h' = Some b" and "h \<noteq> h'"
  shows "IPAddress a \<noteq> IPAddress b"
proof
  assume eq: "IPAddress a = IPAddress b"
  from assms obtain e f where "e \<in> set (expirations p)" "f \<in> set (expirations p)" "ia e = a" "ia f = b"
      "ia_key a = h" "ia_key b = h'"
    by (auto simp: lease_inv_def)
  moreover from this eq have "ip_key (ia e) = ip_key (ia f)" by (simp add: ip_key_def)
  ultimately show False
    using assms(1,4) by (auto simp: lease_inv_def distinct_map dest: inj_onD)
qed

text \<open>
  C6. As long as no client releases, two live leases never share an address.
\<close>

theorem pool_leases_distinct:
  assumes "pool_run rng (new_pool first len lifetime clock) as p" and "list_all is_reserve as"
    and "identityAssociations p h = Some a" and "identityAssociations p h' = Some b" and "h \<noteq> h'"
  shows "IPAddress a \<noteq> IPAddress b"
  by (rule lease_inv_distinct [OF reserve_run_inv(1) [OF assms(1,2)] assms(3-5)]) simp

text \<open>
  C31. A reservation returns: as long as the random draws keep reaching every offset of the pool,
  the search for a free address ends, after any history.
\<close>

theorem reservation_returns:
  assumes "pool_run rng (new_pool first len lifetime clock) as p" and "\<And>seed. fair_draws (rng seed) len"
  shows "\<exists>ret e p'. reserve_addresses rng c ids p = Some (ret, e, p')"
proof -
  have "pool_ok p" and "poolSize p = len"
    using pool_run_ok [OF assms(1)] by (simp_all add: new_pool_config)
  with assms(2) reserve_returns [of p rng c ids] show ?thesis by auto
qed

text \<open>
  A reservation answers the requested interfaces in order, each with the lease the pool now
  holds for it; it answers all of them unless it returns an error, and then the pool is full and
  the first unanswered interface has no lease.
\<close>

theorem reservation_answers:
  assumes "reserve_addresses rng c ids p = Some (ret, e, p')"
  shows "map Some ret = map (\<lambda>i. identityAssociations p' (iaid_hash c i)) (take (length ret) ids) \<and>
    (case e of None \<Rightarrow> length ret = length ids
     | Some _ \<Rightarrow> length ret < length ids \<and> word_of_nat (card (usedIps p')) = poolSize p' \<and>
         identityAssociations p' (iaid_hash c (ids ! length ret)) = None)"
proof
  from reserve_addresses_reserved [OF assms]
  have r: "\<forall>j < length ret. identityAssociations p' (iaid_hash c (ids ! j)) = Some (ret ! j)" "length ret \<le> length ids"
    and e: "case e of None \<Rightarrow> length ret = length ids
     | Some _ \<Rightarrow> length ret < length ids \<and> word_of_nat (card (usedIps p')) = poolSize p' \<and>
         identityAssociations p' (iaid_hash c (ids ! length ret)) = None"
    by (auto simp: reserved_def split: option.splits)
  show "map Some ret = map (\<lambda>i. identityAssociations p' (iaid_hash c i)) (take (length ret) ids)"
    using r by (auto intro!: nth_equalityI)
  show "case e of None \<Rightarrow> length ret = length ids
     | Some _ \<Rightarrow> length ret < length ids \<and> word_of_nat (card (usedIps p')) = poolSize p' \<and>
         identityAssociations p' (iaid_hash c (ids ! length ret)) = None" by (fact e)
qed

text \<open>A second sample: two interfaces of one client served from a pool of two addresses.\<close>

definition pair_rng :: "int \<Rightarrow> nat \<Rightarrow> u64" where "pair_rng seed k = word_of_nat k"

definition pair_pool :: pool where
  "pair_pool = new_pool [10, 0, 0, 9] 2 100 (\<lambda>n. 0)"

lemma pair_run:
  "\<exists>p a b. reserve_addresses pair_rng [1] [[0], [1]] pair_pool = Some ([a, b], None, p) \<and>
     identityAssociations p (iaid_hash [1] [0]) = Some a \<and>
     identityAssociations p (iaid_hash [1] [1]) = Some b \<and> iaid_hash [1] [0] \<noteq> iaid_hash [1] [1]"
proof -
  have "iaid_hash [1] [1] = 589728592215707255" by code_simp
  then show ?thesis
    by (simp add: demo_eval pair_rng_def pair_pool_def new_pool_def big_set_bytes_def)
      (simp add: demo_eval pair_rng_def Let_def)
qed

theorem pool_leases_distinct_witness:
  "\<exists>p a b. pool_run pair_rng pair_pool [Reserve [1] [[0], [1]]] p \<and>
     identityAssociations p (iaid_hash [1] [0]) = Some a \<and> identityAssociations p (iaid_hash [1] [1]) = Some b \<and>
     IPAddress a \<noteq> IPAddress b"
proof -
  obtain p a b where r: "reserve_addresses pair_rng [1] [[0], [1]] pair_pool = Some ([a, b], None, p)"
    and live: "identityAssociations p (iaid_hash [1] [0]) = Some a" "identityAssociations p (iaid_hash [1] [1]) = Some b"
    and ne: "iaid_hash [1] [0] \<noteq> iaid_hash [1] [1]"
    using pair_run by blast
  have run: "pool_run pair_rng pair_pool [Reserve [1] [[0], [1]]] p"
    using r by (auto intro: step_reserve)
  moreover have "IPAddress a \<noteq> IPAddress b"
    by (rule pool_leases_distinct [OF run [unfolded pair_pool_def] _ live ne]) (simp add: is_reserve_def)
  ultimately show ?thesis using live by blast
qed

theorem reservation_returns_witness:
  "\<exists>ret e p'. reserve_addresses demo_rng [1] [[0]] (new_pool [10, 0, 0, 9] 1 100 demo_clock) = Some (ret, e, p')"
  by (rule reservation_returns [of demo_rng "[10, 0, 0, 9]" 1 100 demo_clock "[]"])
    (auto simp: fair_draws_def demo_rng_def)

theorem reservation_answers_witness:
  "\<exists>ret p'. reserve_addresses demo_rng [1] [[0]] (demo_pool [] [] 0) = Some (ret, None, p') \<and> length ret = 1"
  using reservation_answers [OF demo_run(1)] demo_run(1) by simp

text \<open>
  With a clock that never runs back and a positive lifetime, a reservation returns no lease
  that had expired when the reservation began.
\<close>

theorem reservation_not_expired:
  assumes "pool_run rng (new_pool first len lifetime clock) as p" and "list_all is_reserve as" and "mono clock"
    and "0 < lifetime" and "reserve_addresses rng c ids p = Some (ret, e, p')" and "a \<in> set ret"
  shows "clock (reads p) < CreatedAt a + int (unat lifetime) * 1000000000"
proof -
  have cfg: "timeNow p = clock" "validLifetime p = lifetime"
    using pool_run_ok(1) [OF assms(1)] by (simp_all add: new_pool_config)
  have inv: "lease_inv p" "timed p"
    using reserve_run_inv [OF assms(1,2)] assms(3) by (simp_all add: new_pool_def lease_inv_def timed_def)
  note res = reserve_addresses_reserved [OF assms(5)]
  have "lease_inv p'" and ok: "same_config p p'"
    using res expire_keeps(1,3) [of p] inv by (auto simp: reserved_def intro: same_config_trans)
  moreover from res assms(6) obtain h where "identityAssociations p' h = Some a"
    unfolding reserved_def by (metis in_set_conv_nth)
  ultimately obtain l where l: "l \<in> set (expirations p')" "ia l = a"
    by (auto simp: lease_inv_def)
  have rt: "timed p'" "\<exists>new. expirations p' = expirations (expire_associations p) @ new \<and>
      (\<forall>l \<in> set new. clock (reads p) \<le> CreatedAt (ia l))"
    using reserve_timed [OF assms(5) inv(2)] assms(3) cfg by simp_all
  have exp: "expiresAt l = CreatedAt a + int (unat lifetime) * 1000000000"
    using rt(1) l ok cfg by (auto simp: timed_def association_expiration_def same_config_def)
  consider "l \<in> set (expirations (expire_associations p))" | "clock (reads p) \<le> CreatedAt a"
    using rt(2) l by auto
  then show ?thesis
  proof cases
    case 1
    then have "clock (reads p) < expiresAt l"
      using expire_leaves_live [OF inv(2)] assms(3) cfg(1) by simp
    with exp show ?thesis by simp
  next
    case 2
    moreover have "0 < uint lifetime" using assms(4) by (simp add: word_less_def)
    ultimately show ?thesis by simp
  qed
qed

lemma demo_clock_mono: "mono demo_clock"
  by (auto simp: mono_def demo_clock_def)

theorem reservation_not_expired_witness:
  "\<exists>a p'. reserve_addresses demo_rng [1] [[0]] (new_pool [10, 0, 0, 9] 1 100 demo_clock) = Some ([a], None, p') \<and>
     demo_clock 0 < CreatedAt a + int (unat (100 :: u32)) * 1000000000"
  using reservation_not_expired [of demo_rng "[10, 0, 0, 9]" 1 100 demo_clock "[]" "demo_pool [] [] 0", OF _ _ demo_clock_mono _ demo_run(1)]
    demo_run(1) by (auto simp: demo_new) (simp add: demo_pool_def)

text \<open>
  A client that asks again before its lease ends keeps it: the same association, address
  included, is returned.
\<close>

theorem renewal_keeps_lease:
  assumes "pool_run rng (new_pool first len lifetime clock) as p" and "list_all is_reserve as" and "mono clock"
    and "identityAssociations p (iaid_hash c (ids ! j)) = Some a"
    and "reserve_addresses rng c ids p = Some (ret, e, p')" and "j < length ret"
    and "clock (reads p') < CreatedAt a + int (unat lifetime) * 1000000000"
  shows "ret ! j = a"
proof -
  have cfg: "timeNow p = clock" "validLifetime p = lifetime"
    using pool_run_ok(1) [OF assms(1)] by (simp_all add: new_pool_config)
  have inv: "lease_inv p" "timed p"
    using reserve_run_inv [OF assms(1,2)] assms(3) by (simp_all add: new_pool_def lease_inv_def timed_def)
  have "identityAssociations p' (iaid_hash c (ids ! j)) = Some a"
    by (rule reserve_keeps_association(2) [OF assms(5) inv _ assms(4)]) (use assms(3,7) cfg in \<open>simp_all add: lease_end_def\<close>)
  with reserve_addresses_reserved [OF assms(5)] assms(6) show ?thesis by (simp add: reserved_def)
qed

theorem renewal_keeps_lease_witness:
  "\<exists>p' b. reserve_addresses demo_rng [1] [[0]] (demo_pool [demo_lease 1 0] [demo_lease 1 0] 2) = Some ([b], None, p') \<and>
     b = demo_lease 1 0"
proof -
  have run: "pool_run demo_rng (new_pool [10, 0, 0, 9] 1 100 demo_clock) [Reserve [1] [[0]]]
      (demo_pool [demo_lease 1 0] [demo_lease 1 0] 2)"
    using demo_run(1) by (auto simp: demo_new intro: step_reserve)
  obtain b p' where r: "reserve_addresses demo_rng [1] [[0]] (demo_pool [demo_lease 1 0] [demo_lease 1 0] 2) = Some ([b], None, p')"
    and n: "reads p' = 4"
    by (simp add: demo_eval)
  have "[b] ! 0 = demo_lease 1 0"
    by (rule renewal_keeps_lease [OF run _ demo_clock_mono _ r])
      (simp_all add: is_reserve_def demo_pool_def n, simp add: demo_clock_def)
  with r show ?thesis by auto
qed

text \<open>
  Release removes exactly the leases of the named interfaces and frees exactly their
  addresses; it leaves the queue of expirations, and the pool's configuration, as they were.
\<close>

theorem release_frees:
  "identityAssociations (release_addresses c ids p) = identityAssociations p |` (- iaid_hash c ` set ids) \<and>
   usedIps (release_addresses c ids p) =
     usedIps p - ip_key ` {a. \<exists>i \<in> set ids. identityAssociations p (iaid_hash c i) = Some a} \<and>
   expirations (release_addresses c ids p) = expirations p \<and> same_config p (release_addresses c ids p)"
  by (simp add: release_spec)

text \<open>
  A released lease leaves its expiration behind, and that stale entry later takes the address
  away from its next owner: in this history client 3 is given the address client 2 holds, while
  both leases are live and unexpired.
\<close>

theorem released_address_leased_twice:
  "\<exists>p a b. pool_run demo_rng (new_pool [10, 0, 0, 9] 1 100 demo_clock)
       [Reserve [1] [[0]], Release [1] [[0]], Reserve [2] [[0]], Reserve [3] [[0]]] p \<and>
     identityAssociations p (iaid_hash [2] [0]) = Some a \<and> identityAssociations p (iaid_hash [3] [0]) = Some b \<and>
     ClientID a = [2] \<and> ClientID b = [3] \<and> IPAddress a = IPAddress b \<and>
     (\<forall>n. demo_clock n < CreatedAt a + 100000000000 \<and> demo_clock n < CreatedAt b + 100000000000)"
proof -
  note r = demo_run
  obtain p where p: "reserve_addresses demo_rng [3] [[0]]
       (demo_pool [demo_lease 2 60000000000] [demo_lease 1 0, demo_lease 2 60000000000] 5) =
     Some ([demo_lease 3 110000000000], None, p)"
    and live: "identityAssociations p (iaid_hash [2] [0]) = Some (demo_lease 2 60000000000)"
      "identityAssociations p (iaid_hash [3] [0]) = Some (demo_lease 3 110000000000)"
    using r(4) by blast
  have "pool_run demo_rng (new_pool [10, 0, 0, 9] 1 100 demo_clock)
       [Reserve [1] [[0]], Release [1] [[0]], Reserve [2] [[0]], Reserve [3] [[0]]] p"
    unfolding demo_new pool_run_Cons pool_run_Nil
    using step_reserve [OF r(1)] 
      step_release [where rng = demo_rng and c = "[1]" and ids = "[[0]]" and p = "demo_pool [demo_lease 1 0] [demo_lease 1 0] 2", unfolded r(2)]
      step_reserve [OF r(3)] step_reserve [OF p] by blast
  moreover have "\<forall>n. demo_clock n < CreatedAt (demo_lease 2 60000000000) + 100000000000 \<and>
      demo_clock n < CreatedAt (demo_lease 3 110000000000) + 100000000000"
    by (simp add: demo_clock_def)
  moreover have "ClientID (demo_lease 2 60000000000) = [2]" "ClientID (demo_lease 3 110000000000) = [3]"
    by (simp_all add: demo_lease_def)
  moreover have "IPAddress (demo_lease 2 60000000000) = IPAddress (demo_lease 3 110000000000)"
    by simp
  ultimately show ?thesis using live
    by (intro exI [of _ p] exI [of _ "demo_lease 2 60000000000"] exI [of _ "demo_lease 3 110000000000"] conjI) blast+
qed

end
