(* ===== verification/Go_Path.thy ===== *)
theory Go_Path
  imports Go_Std
begin

text \<open>
  \<^verbatim>\<open>path/filepath\<close> on Unix, for the rooted paths the program cleans: \<^verbatim>\<open>Clean\<close>,
  \<^verbatim>\<open>Join\<close>, \<^verbatim>\<open>Abs\<close> and \<^verbatim>\<open>Base\<close>. A rooted path is read as the list of its elements.
\<close>

section \<open>Cleaning\<close>

text \<open>
  The elements between the slashes, from left to right: empty ones and \<^verbatim>\<open>.\<close> are dropped,
  \<^verbatim>\<open>..\<close> removes the element before it and vanishes at the root. The first argument is the result so
  far, last element first.
\<close>

fun walk :: "string list \<Rightarrow> string list \<Rightarrow> string list" where
  "walk st [] = rev st"
| "walk st (e # es) =
     (if e = [] \<or> e = ''.'' then walk st es
      else if e = ''..'' then walk (case st of [] \<Rightarrow> [] | _ # st' \<Rightarrow> st') es
      else walk (e # st) es)"

fun join_slash :: "string list \<Rightarrow> string" where
  "join_slash [] = []"
| "join_slash [e] = e"
| "join_slash (e # es) = e @ CHR ''/'' # join_slash es"

definition rooted :: "string list \<Rightarrow> string" where
  "rooted es = CHR ''/'' # join_slash es"

definition clean :: "string \<Rightarrow> string" where
  "clean p = rooted (walk [] (split_on CHR ''/'' p))"

text \<open>\<^verbatim>\<open>Join\<close> ignores empty elements; here the first one is rooted and not empty.\<close>

definition join2 :: "string \<Rightarrow> string \<Rightarrow> string" where
  "join2 a b = (if b = [] then clean a else clean (a @ CHR ''/'' # b))"

definition abs_path :: "string \<Rightarrow> string \<Rightarrow> string" where
  "abs_path cwd p = (if has_prefix p ''/'' then clean p else join2 cwd p)"

fun last_element :: "string list \<Rightarrow> string \<Rightarrow> string" where
  "last_element [] d = d"
| "last_element (e # es) d = last_element es (if e = [] then d else e)"

text \<open>
  \<^verbatim>\<open>Base\<close>: the last non-empty element, \<^verbatim>\<open>.\<close> for the empty path and \<^verbatim>\<open>/\<close> for
  a path of slashes.
\<close>

definition base_name :: "string \<Rightarrow> string" where
  "base_name p = (if p = [] then ''.'' else last_element (split_on CHR ''/'' p) ''/'')"

section \<open>Facts\<close>

definition proper :: "string \<Rightarrow> bool" where
  "proper e \<longleftrightarrow> e \<noteq> [] \<and> e \<noteq> ''.'' \<and> e \<noteq> ''..'' \<and> CHR ''/'' \<notin> set e"

lemma split_on_no_seps: "e \<in> set (split_on sep s) \<Longrightarrow> sep \<notin> set e"
  by (induction s arbitrary: e) (auto split: if_splits list.splits)

lemma walk_proper:
  "\<forall>e \<in> set st. proper e \<Longrightarrow> \<forall>e \<in> set es. CHR ''/'' \<notin> set e \<Longrightarrow> e \<in> set (walk st es) \<Longrightarrow> proper e"
proof (induction st es rule: walk.induct)
  case (2 st e' es)
  then show ?case by (auto simp: proper_def split: if_splits list.splits)
qed simp

lemma walk_append_proper: "\<forall>e \<in> set es. proper e \<Longrightarrow> walk st (es @ fs) = walk (rev es @ st) fs"
  by (induction es arbitrary: st) (simp_all add: proper_def)

lemma walk_proper_id: "\<forall>e \<in> set es. proper e \<Longrightarrow> walk [] es = es"
  using walk_append_proper [of es "[]" "[]"] by simp

lemma split_on_snoc: "split_on sep (s @ sep # t) = split_on sep s @ split_on sep t"
  by (induction s) (auto split: list.splits simp: Cons_eq_append_conv)

lemma split_join_slash: "es \<noteq> [] \<Longrightarrow> \<forall>e \<in> set es. CHR ''/'' \<notin> set e \<Longrightarrow> split_on CHR ''/'' (join_slash es) = es"
  by (induction es rule: join_slash.induct) (simp_all add: split_on_no_sep split_on_append)

lemma join_slash_push [simp]: "join_slash ((c # e) # es) = c # join_slash (e # es)"
  by (cases es) simp_all

lemma join_slash_Nil [simp]: "es \<noteq> [] \<Longrightarrow> join_slash ([] # es) = CHR ''/'' # join_slash es"
  by (cases es) simp_all

lemma join_split_slash: "join_slash (split_on CHR ''/'' p) = p"
proof (induction p)
  case (Cons c p)
  then show ?case by (cases "split_on CHR ''/'' p") auto
qed simp

lemma split_rooted:
  assumes "\<forall>e \<in> set es. proper e"
  shows "walk [] (split_on CHR ''/'' (rooted es)) = es"
proof (cases "es = []")
  case False
  then have "split_on CHR ''/'' (rooted es) = [] # es"
    using assms split_join_slash [of es] by (simp add: rooted_def proper_def)
  with assms show ?thesis by (simp add: walk_proper_id)
qed (simp add: rooted_def)

lemma clean_shape: "\<exists>es. clean p = rooted es \<and> (\<forall>e \<in> set es. proper e)"
  unfolding clean_def using walk_proper [of "[]"] split_on_no_seps by (metis empty_iff list.set(1))

lemma clean_rooted: "\<forall>e \<in> set es. proper e \<Longrightarrow> clean (rooted es) = rooted es"
  by (simp add: clean_def split_rooted)

text \<open>Joining two clean rooted paths concatenates their elements.\<close>

lemma split_on_rooted:
  assumes "\<forall>e \<in> set es. proper e"
  shows "walk st (split_on CHR ''/'' (rooted es)) = rev st @ es"
proof (cases "es = []")
  case False
  then have "split_on CHR ''/'' (rooted es) = [] # es"
    using assms split_join_slash [of es] by (simp add: rooted_def proper_def)
  then have "walk st (split_on CHR ''/'' (rooted es)) = walk st (es @ [])" by simp
  also have "\<dots> = rev st @ es" by (subst walk_append_proper [OF assms]) simp
  finally show ?thesis .
qed (simp add: rooted_def)

lemma walk_split_append: "walk st (split_on CHR ''/'' (rooted es) @ fs) = walk (rev es @ st) fs"
  if "\<forall>e \<in> set es. proper e"
proof (cases "es = []")
  case False
  then have "split_on CHR ''/'' (rooted es) = [] # es"
    using that split_join_slash [of es] by (simp add: rooted_def proper_def)
  with that show ?thesis by (simp add: walk_append_proper)
qed (simp add: rooted_def)

lemma join2_rooted:
  assumes "\<forall>e \<in> set es. proper e" and "\<forall>e \<in> set fs. proper e"
  shows "join2 (rooted es) (rooted fs) = rooted (es @ fs)"
proof -
  have "rooted fs \<noteq> []" by (simp add: rooted_def)
  then have "join2 (rooted es) (rooted fs) = rooted (walk [] (split_on CHR ''/'' (rooted es) @ split_on CHR ''/'' (rooted fs)))"
    by (simp add: join2_def clean_def split_on_snoc)
  also have "\<dots> = rooted (es @ fs)"
    using assms by (simp add: walk_split_append split_on_rooted)
  finally show ?thesis .
qed

end
