(* ===== verification/Go_Url.thy ===== *)
theory Go_Url
  imports Go_Path
begin

text \<open>
  \<^verbatim>\<open>net/url\<close> as the program uses it: its parsed URLs (an argument, \<open>url_package\<close>), escaping and unescaping of query values and path segments,
  the first value of a query key; \<^verbatim>\<open>fmt.Sprintf\<close> for templates with string verbs;
  \<^verbatim>\<open>strings.TrimSpace\<close>.
\<close>

section \<open>Parsed URLs\<close>

text \<open>What the program uses of \<^verbatim>\<open>net/url\<close>; \<open>UrlPath\<close> is the path as parsing unescapes it.\<close>

record 'u url_package =
  UrlParse :: "string \<Rightarrow> string + 'u"
  UrlScheme :: "'u \<Rightarrow> string"
  UrlPath :: "'u \<Rightarrow> string"
  UrlResolve :: "'u \<Rightarrow> 'u \<Rightarrow> 'u"
  UrlRender :: "'u \<Rightarrow> string"

section \<open>Escaping\<close>

definition is_alnum :: "char \<Rightarrow> bool" where
  "is_alnum c =
     (let n = of_char c :: nat in 48 \<le> n \<and> n \<le> 57 \<or> 65 \<le> n \<and> n \<le> 90 \<or> 97 \<le> n \<and> n \<le> 122)"

definition unreserved :: "char \<Rightarrow> bool" where
  "unreserved c \<longleftrightarrow> is_alnum c \<or> c \<in> {CHR ''-'', CHR ''_'', CHR ''.'', CHR ''~''}"

definition upper_hex :: "nat \<Rightarrow> char" where
  "upper_hex d = (if d < 10 then char_of (48 + d) else char_of (55 + d))"

definition percent :: "char \<Rightarrow> string" where
  "percent c = [CHR ''%'', upper_hex (of_char c div 16), upper_hex (of_char c mod 16)]"

definition query_char :: "char \<Rightarrow> string" where
  "query_char c = (if c = CHR '' '' then ''+'' else if unreserved c then [c] else percent c)"

definition query_escape :: "string \<Rightarrow> string" where
  "query_escape s = concat (map query_char s)"

definition path_char :: "char \<Rightarrow> string" where
  "path_char c =
     (if unreserved c \<or> c \<in> {CHR ''$'', CHR ''&'', CHR ''+'', CHR '':'', CHR ''='', CHR ''@''} then [c] else percent c)"

definition path_escape :: "string \<Rightarrow> string" where
  "path_escape s = concat (map path_char s)"

text \<open>\<open>sp\<close> tells whether a plus sign stands for a space, as it does in queries.\<close>

fun unescape :: "bool \<Rightarrow> string \<Rightarrow> string option" where
  "unescape sp [] = Some []"
| "unescape sp (c # cs) =
     (if c = CHR ''%'' then
        (case cs of
           a # b # cs' \<Rightarrow>
             (case (hex_value a, hex_value b) of
                (Some x, Some y) \<Rightarrow> map_option ((#) (char_of (x * 16 + y))) (unescape sp cs')
              | _ \<Rightarrow> None)
         | _ \<Rightarrow> None)
      else map_option ((#) (if sp \<and> c = CHR ''+'' then CHR '' '' else c)) (unescape sp cs))"

abbreviation query_unescape :: "string \<Rightarrow> string option" where "query_unescape \<equiv> unescape True"
abbreviation path_unescape :: "string \<Rightarrow> string option" where "path_unescape \<equiv> unescape False"

section \<open>Queries\<close>

fun cut :: "char \<Rightarrow> string \<Rightarrow> string \<times> string" where
  "cut sep [] = ([], [])"
| "cut sep (c # cs) = (if c = sep then ([], cs) else case cut sep cs of (a, b) \<Rightarrow> (c # a, b))"

text \<open>
  \<^verbatim>\<open>URL.Query\<close>: pairs between ampersands; pieces with a semicolon and pieces that do not unescape are
  dropped. \<^verbatim>\<open>Get\<close> gives the first value of a key and the empty string without one.
\<close>

definition query_pair :: "string \<Rightarrow> (string \<times> string) option" where
  "query_pair piece =
     (if CHR '';'' \<in> set piece \<or> piece = [] then None
      else case cut CHR ''='' piece of (k, v) \<Rightarrow>
        (case (query_unescape k, query_unescape v) of (Some k, Some v) \<Rightarrow> Some (k, v) | _ \<Rightarrow> None))"

definition query_pairs :: "string \<Rightarrow> (string \<times> string) list" where
  "query_pairs q = List.map_filter query_pair (split_on CHR ''&'' q)"

definition query_get :: "string \<Rightarrow> string \<Rightarrow> string" where
  "query_get q key = (case map_of (query_pairs q) key of None \<Rightarrow> [] | Some v \<Rightarrow> v)"

section \<open>Formatting\<close>

text \<open>
  \<^verbatim>\<open>fmt.Sprintf\<close> with string arguments. What it does from the first verb on that is neither
  \<^verbatim>\<open>%s\<close> nor \<^verbatim>\<open>%%\<close> is the argument \<open>other\<close>.
\<close>

fun extra_args :: "string list \<Rightarrow> string" where
  "extra_args [] = []"
| "extra_args [a] = ''string='' @ a"
| "extra_args (a # as) = ''string='' @ a @ '', '' @ extra_args as"

fun sprintf :: "(string \<Rightarrow> string list \<Rightarrow> string) \<Rightarrow> string \<Rightarrow> string list \<Rightarrow> string" where
  "sprintf other [] args = (if args = [] then [] else ''%!(EXTRA '' @ extra_args args @ '')'')"
| "sprintf other (c # t) args =
     (if c \<noteq> CHR ''%'' then c # sprintf other t args
      else case t of
          [] \<Rightarrow> other [c] args
        | v # t' \<Rightarrow>
            if v = CHR ''s'' then (case args of [] \<Rightarrow> ''%!s(MISSING)'' @ sprintf other t' [] | a # as \<Rightarrow> a @ sprintf other t' as)
            else if v = CHR ''%'' then CHR ''%'' # sprintf other t' args
            else other (c # t) args)"

section \<open>Trimming\<close>

text \<open>The white space of Unicode, in UTF-8.\<close>

definition white_space :: "string list" where
  "white_space =
     map (map (char_of :: nat \<Rightarrow> char))
       ([[9], [10], [11], [12], [13], [32], [0xC2, 0x85], [0xC2, 0xA0], [0xE1, 0x9A, 0x80]] @
        map (\<lambda>i. [0xE2, 0x80, 0x80 + i]) [0..<11] @
        [[0xE2, 0x80, 0xA8], [0xE2, 0x80, 0xA9], [0xE2, 0x80, 0xAF], [0xE2, 0x81, 0x9F], [0xE3, 0x80, 0x80]])"

fun strip :: "nat \<Rightarrow> string list \<Rightarrow> string \<Rightarrow> string" where
  "strip 0 ws s = s"
| "strip (Suc n) ws s = (case find (has_prefix s) ws of None \<Rightarrow> s | Some w \<Rightarrow> strip n ws (drop (length w) s))"

text \<open>Each step removes at least one byte, so as many steps as bytes are enough.\<close>

definition trim_space :: "string \<Rightarrow> string" where
  "trim_space s =
     (let t = strip (length s) white_space s in rev (strip (length t) (map rev white_space) (rev t)))"

section \<open>Facts\<close>

lemma upper_hex_value [simp]: "d < 16 \<Longrightarrow> hex_value (upper_hex d) = Some d"
  by (auto simp: hex_value_def upper_hex_def Let_def)

lemma nibbles: "(of_char c :: nat) div 16 < 16" "(of_char c :: nat) mod 16 < 16"
  by (rule less_mult_imp_div_less) (use of_char_less [of c] in simp_all)

lemma unescape_percent [simp]: "unescape sp (percent c @ cs) = map_option ((#) c) (unescape sp cs)"
proof -
  have "(of_char c :: nat) div 16 < 16" "(of_char c :: nat) mod 16 < 16"
    using nibbles by simp_all
  moreover have "(of_char c :: nat) div 16 * 16 + of_char c mod 16 = of_char c" by simp
  ultimately show ?thesis by (simp add: percent_def)
qed

lemma unreserved_not_special: "unreserved c \<Longrightarrow> c \<notin> {CHR ''%'', CHR ''+'', CHR ''&'', CHR ''='', CHR '';'', CHR ''/'', CHR ''?''}"
  by (auto simp: unreserved_def is_alnum_def Let_def)

lemma query_unescape_escape: "query_unescape (query_escape s @ t) = map_option ((@) s) (query_unescape t)"
proof (induction s)
  case (Cons c s)
  have "query_unescape (query_char c @ u) = map_option ((#) c) (query_unescape u)" for u
    using unreserved_not_special [of c] by (auto simp: query_char_def)
  with Cons show ?case by (simp add: query_escape_def option.map_comp o_def)
qed (simp add: query_escape_def option.map_ident)

lemma query_escape_roundtrip [simp]: "query_unescape (query_escape s) = Some s"
  using query_unescape_escape [of s "[]"] by simp

lemma path_unescape_escape: "path_unescape (path_escape s @ t) = map_option ((@) s) (path_unescape t)"
proof (induction s)
  case (Cons c s)
  have "path_unescape (path_char c @ u) = map_option ((#) c) (path_unescape u)" for u
    using unreserved_not_special [of c] by (auto simp: path_char_def)
  with Cons show ?case by (simp add: path_escape_def option.map_comp o_def)
qed (simp add: path_escape_def option.map_ident)

lemma upper_hex_alnum: "d < 16 \<Longrightarrow> is_alnum (upper_hex d)"
  by (auto simp: is_alnum_def upper_hex_def Let_def)

lemma query_char_safe: "x \<in> set (query_char c) \<Longrightarrow> x \<notin> {CHR ''&'', CHR ''='', CHR '';'', CHR ''/'', CHR ''?''}"
proof -
  assume x: "x \<in> set (query_char c)"
  have "(of_char c :: nat) div 16 < 16" "(of_char c :: nat) mod 16 < 16"
    using nibbles by simp_all
  then have "unreserved (upper_hex (of_char c div 16))" "unreserved (upper_hex (of_char c mod 16))"
    by (simp_all add: unreserved_def upper_hex_alnum)
  with x show ?thesis
    using unreserved_not_special [of x] by (auto simp: query_char_def percent_def split: if_splits)
qed

lemma query_escape_safe: "x \<in> set (query_escape s) \<Longrightarrow> x \<notin> {CHR ''&'', CHR ''='', CHR '';'', CHR ''/'', CHR ''?''}"
  unfolding query_escape_def using query_char_safe by fastforce

lemma path_escape_no_question: "CHR ''?'' \<notin> set (path_escape s)"
proof -
  have "CHR ''?'' \<notin> set (path_char c)" for c
  proof -
    have "unreserved (upper_hex (of_char c div 16))" "unreserved (upper_hex (of_char c mod 16))"
      using nibbles by (simp_all add: unreserved_def upper_hex_alnum)
    moreover have "\<not> unreserved CHR ''?''" by (simp add: unreserved_def is_alnum_def)
    ultimately show ?thesis by (auto simp: path_char_def percent_def)
  qed
  then show ?thesis by (auto simp: path_escape_def)
qed

lemma query_escape_plain:
  "\<forall>c \<in> set s. unreserved c \<Longrightarrow> query_escape s = s"
  by (induction s) (auto simp: query_escape_def query_char_def unreserved_def is_alnum_def)

lemma cut_append: "sep \<notin> set s \<Longrightarrow> cut sep (s @ sep # t) = (s, t)"
  by (induction s) auto

lemma unescape_plain: "CHR ''%'' \<notin> set s \<Longrightarrow> CHR ''+'' \<notin> set s \<Longrightarrow> unescape sp s = Some s"
  by (induction s) auto

lemma query_pair_escaped:
  assumes "\<forall>c \<in> set k. unreserved c" and "CHR '';'' \<notin> set w" and "query_unescape w = Some v"
  shows "query_pair (k @ CHR ''='' # w) = Some (k, v)"
proof -
  have k: "CHR ''='' \<notin> set k" "CHR '';'' \<notin> set k" "CHR ''%'' \<notin> set k" "CHR ''+'' \<notin> set k"
    using assms(1) unreserved_not_special by blast+
  with assms show ?thesis by (simp add: query_pair_def cut_append unescape_plain)
qed

text \<open>A query whose pieces are keys and values as the program writes them.\<close>

lemma query_get_Cons:
  assumes "\<forall>c \<in> set k. unreserved c" and "CHR '';'' \<notin> set w" and "CHR ''&'' \<notin> set w" and "query_unescape w = Some v"
  shows "query_get (k @ CHR ''='' # w @ CHR ''&'' # q) key = (if key = k then v else query_get q key)"
    and "query_get (k @ CHR ''='' # w) key = (if key = k then v else [])"
proof -
  have amp: "CHR ''&'' \<notin> set (k @ CHR ''='' # w)"
    using assms(1,3) unreserved_not_special by auto
  from split_on_append [OF amp, of q] have "split_on CHR ''&'' (k @ CHR ''='' # w @ CHR ''&'' # q) = (k @ CHR ''='' # w) # split_on CHR ''&'' q"
    by simp
  with query_pair_escaped [OF assms(1,2,4)]
  show "query_get (k @ CHR ''='' # w @ CHR ''&'' # q) key = (if key = k then v else query_get q key)"
    by (simp add: query_get_def query_pairs_def map_filter_simps)
  from query_pair_escaped [OF assms(1,2,4)] split_on_no_sep [OF amp]
  show "query_get (k @ CHR ''='' # w) key = (if key = k then v else [])"
    by (simp add: query_get_def query_pairs_def map_filter_simps)
qed

lemma sprintf_plain: "CHR ''%'' \<notin> set s \<Longrightarrow> sprintf other (s @ t) args = s @ sprintf other t args"
  by (induction s) auto

end
