(* ===== verification/Dhcp6_Builder.thy ===== *)
theory Dhcp6_Builder
  imports Dhcp6_Packet Address_Pool Go_Url
begin

text \<open>
  What the DHCPv6 server answers: the boot configurations of \<^verbatim>\<open>dhcp6/boot_configuration.go\<close>
  and the packet builder of \<^verbatim>\<open>dhcp6/packet_builder.go\<close>, over any provider of the
  \<^verbatim>\<open>types.AddressPool\<close> interface. Errors are carried by their messages, which the builder
  puts into status options.
\<close>

section \<open>Boot configurations\<close>

text \<open>The \<^verbatim>\<open>BootConfiguration\<close> interface: \<^verbatim>\<open>GetBootURL\<close>, \<^verbatim>\<open>GetPreference\<close>, \<^verbatim>\<open>GetRecursiveDNS\<close>.\<close>

record boot_configuration =
  getBootURL :: "bytes \<Rightarrow> u16 \<Rightarrow> string + bytes"
  getPreference :: slice
  getRecursiveDNS :: "bytes list"

definition X86HTTPClient :: u16 where "X86HTTPClient = 0x10"

record static_boot_configuration =
  HTTPBootURL :: bytes
  IPxeBootURL :: bytes
  RecursiveDNS :: "bytes list"
  Preference :: slice
  UsePreference :: bool

definition make_static_boot_configuration ::
    "string \<Rightarrow> string \<Rightarrow> byte \<Rightarrow> bool \<Rightarrow> bytes list \<Rightarrow> static_boot_configuration" where
  "make_static_boot_configuration httpBootURL ipxeBootURL preference usePreference dns =
     \<lparr>HTTPBootURL = bytes_of httpBootURL, IPxeBootURL = bytes_of ipxeBootURL, RecursiveDNS = dns,
      Preference = (if usePreference then Some [preference] else None), UsePreference = usePreference\<rparr>"

definition static_get_boot_url :: "static_boot_configuration \<Rightarrow> bytes \<Rightarrow> u16 \<Rightarrow> string + bytes" where
  "static_get_boot_url bc client clientArchType =
     (if clientArchType = X86HTTPClient then Inr (HTTPBootURL bc) else Inr (IPxeBootURL bc))"

abbreviation (input) static_get_preference :: "static_boot_configuration \<Rightarrow> slice" where
  "static_get_preference bc \<equiv> Preference bc"

abbreviation (input) static_get_recursive_dns :: "static_boot_configuration \<Rightarrow> bytes list" where
  "static_get_recursive_dns bc \<equiv> RecursiveDNS bc"

definition static_configuration :: "static_boot_configuration \<Rightarrow> boot_configuration" where
  "static_configuration bc =
     \<lparr>getBootURL = static_get_boot_url bc, getPreference = static_get_preference bc, getRecursiveDNS = static_get_recursive_dns bc\<rparr>"

text \<open>
  The configuration that asks an HTTP server. The server's answer \<open>fetch\<close> (an error, or a status
  and the part of the body that could be read), \<^verbatim>\<open>net/url\<close> and \<open>quote\<close>, which renders \<^verbatim>\<open>%q\<close>, are parameters.
\<close>

record api_boot_configuration =
  URLPrefix :: string
  ApiRecursiveDNS :: "bytes list"
  ApiPreference :: slice
  ApiUsePreference :: bool

definition make_api_boot_configuration :: "string \<Rightarrow> byte \<Rightarrow> bool \<Rightarrow> bytes list \<Rightarrow> api_boot_configuration" where
  "make_api_boot_configuration url preference usePreference dns =
     \<lparr>URLPrefix = (if url \<noteq> [] \<and> last url = CHR ''/'' then url else url @ ''/'') @ ''v1'',
      ApiRecursiveDNS = dns, ApiPreference = (if usePreference then Some [preference] else None),
      ApiUsePreference = usePreference\<rparr>"

definition api_request_url :: "api_boot_configuration \<Rightarrow> bytes \<Rightarrow> u16 \<Rightarrow> string" where
  "api_request_url bc client clientArchType =
     URLPrefix bc @ ''/boot/'' @ concat (map hex_byte client) @ ''/'' @ format_nat (unat clientArchType)"

definition make_url_absolute ::
    "'u url_package \<Rightarrow> (string \<Rightarrow> string) \<Rightarrow> api_boot_configuration \<Rightarrow> string \<Rightarrow> string + string" where
  "make_url_absolute L quote bc urlStr =
     (case UrlParse L urlStr of
        Inl _ \<Rightarrow> Inl (quote urlStr @ '' is not an URL'')
      | Inr u \<Rightarrow>
          if UrlScheme L u = [] then
            (case UrlParse L (URLPrefix bc) of
               Inl err \<Rightarrow> Inl err
             | Inr base \<Rightarrow> Inr (UrlRender L (UrlResolve L base u)))
          else Inr (UrlRender L u))"

definition api_get_boot_url ::
    "(string \<Rightarrow> string + nat \<times> string) \<Rightarrow> (nat \<Rightarrow> string) \<Rightarrow> 'u url_package \<Rightarrow> (string \<Rightarrow> string) \<Rightarrow>
     api_boot_configuration \<Rightarrow> bytes \<Rightarrow> u16 \<Rightarrow> string + bytes" where
  "api_get_boot_url fetch status_text L quote bc client clientArchType =
     (let reqURL = api_request_url bc client clientArchType in
      case fetch reqURL of
        Inl err \<Rightarrow> Inl err
      | Inr (status, body) \<Rightarrow>
          if status \<noteq> 200 then Inl (reqURL @ '': '' @ status_text status)
          else Inr (bytes_of (case make_url_absolute L quote bc body of Inl _ \<Rightarrow> [] | Inr url \<Rightarrow> url)))"

abbreviation (input) api_get_preference :: "api_boot_configuration \<Rightarrow> slice" where
  "api_get_preference bc \<equiv> ApiPreference bc"

abbreviation (input) api_get_recursive_dns :: "api_boot_configuration \<Rightarrow> bytes list" where
  "api_get_recursive_dns bc \<equiv> ApiRecursiveDNS bc"

definition api_configuration ::
    "(string \<Rightarrow> string + nat \<times> string) \<Rightarrow> (nat \<Rightarrow> string) \<Rightarrow> 'u url_package \<Rightarrow> (string \<Rightarrow> string) \<Rightarrow>
     api_boot_configuration \<Rightarrow> boot_configuration" where
  "api_configuration fetch status_text L quote bc =
     \<lparr>getBootURL = api_get_boot_url fetch status_text L quote bc, getPreference = api_get_preference bc,
      getRecursiveDNS = api_get_recursive_dns bc\<rparr>"

section \<open>The builder\<close>

record packet_builder =
  PreferredLifetime :: u32
  ValidLifetime :: u32

abbreviation (input) make_packet_builder :: "u32 \<Rightarrow> u32 \<Rightarrow> packet_builder" where
  "make_packet_builder preferred valid \<equiv> \<lparr>PreferredLifetime = preferred, ValidLifetime = valid\<rparr>"

definition calculate_t1 :: "packet_builder \<Rightarrow> u32" where
  "calculate_t1 b = PreferredLifetime b div 2"

definition calculate_t2 :: "packet_builder \<Rightarrow> u32" where
  "calculate_t2 b = (PreferredLifetime b * 4) div 5"

definition extract_ll_address_or_id :: "gslice \<Rightarrow> bytes option" where
  "extract_ll_address_or_id optClientID =
     do { h \<leftarrow> reslice optClientID 0 2; idType \<leftarrow> read16 (fst h);
          r \<leftarrow> reslice_from optClientID (if idType = 1 then 8 else if idType = 3 then 4 else 2);
          Some (fst r) }"

definition interface_hash :: "bytes \<Rightarrow> u64" where
  "interface_hash interfaceID = fnv1a_write fnv1a_offset interfaceID"

definition ias_without_addresses :: "association list \<Rightarrow> gslice list \<Rightarrow> gslice list" where
  "ias_without_addresses associations allIAs =
     (let having = set (map (\<lambda>a. interface_hash (InterfaceID a)) associations)
      in filter (\<lambda>i. interface_hash (fst i) \<notin> having) allIAs)"

text \<open>Options are added one after the other to an initially empty table.\<close>

definition add_all :: "options6 \<Rightarrow> option6 list \<Rightarrow> options6" where
  "add_all opts xs = foldl opts_add opts xs"

definition http_client_class :: bytes where
  "http_client_class = [0, 0, 0, 0, 0, 10, 72, 84, 84, 80, 67, 108, 105, 101, 110, 116]"

fun ia_address_options :: "packet_builder \<Rightarrow> association list \<Rightarrow> option6 list option" where
  "ia_address_options b [] = Some []"
| "ia_address_options b (a # as) =
     do { x \<leftarrow> make_ia_na (exact (InterfaceID a)) (calculate_t1 b) (calculate_t2 b)
            (make_ia_addr (IPAddress a) (PreferredLifetime b) (ValidLifetime b));
          xs \<leftarrow> ia_address_options b as; Some (x # xs) }"

text \<open>\<^verbatim>\<open>err.Error()\<close> on a nil error panics.\<close>

fun ia_status_options :: "packet_builder \<Rightarrow> gslice list \<Rightarrow> string option \<Rightarrow> option6 list option" where
  "ia_status_options b [] err = Some []"
| "ia_status_options b (i # is) err =
     do { message \<leftarrow> err;
          x \<leftarrow> make_ia_na i (calculate_t1 b) (calculate_t2 b) (make_status 2 message);
          xs \<leftarrow> ia_status_options b is err; Some (x # xs) }"

definition http_client_options :: "u16 \<Rightarrow> option6 list" where
  "http_client_options clientArchType =
     (if 0x10 = clientArchType then [make_option OptVendorClass (exact http_client_class)] else [])"

definition dns_options :: "bytes list \<Rightarrow> option6 list" where
  "dns_options dns = (if 0 < length dns then [make_dns_servers dns] else [])"

definition make_msg_advertise ::
    "packet_builder \<Rightarrow> bytes \<Rightarrow> bytes \<Rightarrow> gslice \<Rightarrow> u16 \<Rightarrow> association list \<Rightarrow> bytes \<Rightarrow> slice \<Rightarrow> bytes list \<Rightarrow> packet6 option" where
  "make_msg_advertise b transactionID serverDUID clientID clientArchType associations bootFileURL preference dns =
     do { ias \<leftarrow> ia_address_options b associations;
          Some \<lparr>Type6 = MsgAdvertise, TransactionID6 = transactionID, Options6 = add_all Map.empty
            ([make_option OptClientID clientID] @ ias @ [make_option OptServerID (exact serverDUID)] @
             http_client_options clientArchType @ [make_option OptBootfileURL (exact bootFileURL)] @
             (case preference of None \<Rightarrow> [] | Some v \<Rightarrow> [make_option OptPreference (exact v)]) @ dns_options dns)\<rparr> }"

definition make_msg_reply ::
    "packet_builder \<Rightarrow> bytes \<Rightarrow> bytes \<Rightarrow> gslice \<Rightarrow> u16 \<Rightarrow> association list \<Rightarrow> gslice list \<Rightarrow> bytes \<Rightarrow> bytes list \<Rightarrow>
     string option \<Rightarrow> packet6 option" where
  "make_msg_reply b transactionID serverDUID clientID clientArchType associations without bootFileURL dns err =
     do { ias \<leftarrow> ia_address_options b associations;
          failed \<leftarrow> ia_status_options b without err;
          Some \<lparr>Type6 = MsgReply, TransactionID6 = transactionID, Options6 = add_all Map.empty
            ([make_option OptClientID clientID] @ ias @ failed @ [make_option OptServerID (exact serverDUID)] @
             http_client_options clientArchType @ [make_option OptBootfileURL (exact bootFileURL)] @ dns_options dns)\<rparr> }"

definition make_msg_information_request_reply ::
    "bytes \<Rightarrow> bytes \<Rightarrow> gslice \<Rightarrow> u16 \<Rightarrow> bytes \<Rightarrow> bytes list \<Rightarrow> packet6" where
  "make_msg_information_request_reply transactionID serverDUID clientID clientArchType bootFileURL dns =
     \<lparr>Type6 = MsgReply, TransactionID6 = transactionID, Options6 = add_all Map.empty
       ([make_option OptClientID clientID, make_option OptServerID (exact serverDUID)] @ http_client_options clientArchType @
        [make_option OptBootfileURL (exact bootFileURL)] @ dns_options dns)\<rparr>"

text \<open>\<^verbatim>\<open>copy(v[2:], "Release received.")\<close> into nineteen zero bytes.\<close>

definition make_msg_release_reply :: "bytes \<Rightarrow> bytes \<Rightarrow> gslice \<Rightarrow> packet6" where
  "make_msg_release_reply transactionID serverDUID clientID =
     \<lparr>Type6 = MsgReply, TransactionID6 = transactionID, Options6 = add_all Map.empty
       [make_option OptClientID clientID, make_option OptServerID (exact serverDUID),
        make_option OptStatusCode (exact ([0, 0] @ copy_over (replicate 17 0) (bytes_of ''Release received.'')))]\<rparr>"

definition make_msg_advertise_with_no_addrs ::
    "bytes \<Rightarrow> bytes \<Rightarrow> gslice \<Rightarrow> string \<Rightarrow> packet6" where
  "make_msg_advertise_with_no_addrs transactionID serverDUID clientID message =
     \<lparr>Type6 = MsgAdvertise, TransactionID6 = transactionID, Options6 = add_all Map.empty
       [make_option OptClientID clientID, make_option OptServerID (exact serverDUID), make_status 2 message]\<rparr>"

section \<open>Building a response\<close>

text \<open>
  The two calls of the pool are parameters over its state. The result is the response, the error
  and the pool's new state; \<^term>\<open>None\<close> is a panic, or a reservation that does not return.
\<close>

type_synonym 'p reserve_op = "bytes \<Rightarrow> bytes list \<Rightarrow> 'p \<Rightarrow> (association list \<times> string option \<times> 'p) option"

definition boot_url :: "packet6 \<Rightarrow> boot_configuration \<Rightarrow> (string + bytes) option" where
  "boot_url p configuration =
     do { cid \<leftarrow> client_id (Options6 p); addr \<leftarrow> extract_ll_address_or_id cid;
          arch \<leftarrow> client_arch_type (Options6 p); Some (getBootURL configuration addr arch) }"

definition respond_solicit ::
    "'p reserve_op \<Rightarrow> packet_builder \<Rightarrow> packet6 \<Rightarrow> bytes \<Rightarrow> boot_configuration \<Rightarrow> 'p \<Rightarrow>
     (packet6 option \<times> string option \<times> 'p) option" where
  "respond_solicit reserve b p serverDUID configuration pool =
     do { url \<leftarrow> boot_url p configuration;
          case url of Inl err \<Rightarrow> Some (None, Some err, pool)
          | Inr bootFileURL \<Rightarrow>
            do { cid \<leftarrow> client_id (Options6 p); ids \<leftarrow> ia_na_ids (Options6 p);
                 r \<leftarrow> reserve (fst cid) (map fst ids) pool;
                 case r of (associations, Some err, pool') \<Rightarrow>
                   Some (Some (make_msg_advertise_with_no_addrs (TransactionID6 p) serverDUID cid err), Some err, pool')
                 | (associations, None, pool') \<Rightarrow>
                   do { arch \<leftarrow> client_arch_type (Options6 p);
                        m \<leftarrow> make_msg_advertise b (TransactionID6 p) serverDUID cid arch associations bootFileURL
                          (getPreference configuration) (getRecursiveDNS configuration);
                        Some (Some m, None, pool') } } }"

definition respond_request ::
    "'p reserve_op \<Rightarrow> packet_builder \<Rightarrow> packet6 \<Rightarrow> bytes \<Rightarrow> boot_configuration \<Rightarrow> 'p \<Rightarrow>
     (packet6 option \<times> string option \<times> 'p) option" where
  "respond_request reserve b p serverDUID configuration pool =
     do { url \<leftarrow> boot_url p configuration;
          case url of Inl err \<Rightarrow> Some (None, Some err, pool)
          | Inr bootFileURL \<Rightarrow>
            do { cid \<leftarrow> client_id (Options6 p); ids \<leftarrow> ia_na_ids (Options6 p);
                 r \<leftarrow> reserve (fst cid) (map fst ids) pool;
                 case r of (associations, err, pool') \<Rightarrow>
                   do { arch \<leftarrow> client_arch_type (Options6 p);
                        m \<leftarrow> make_msg_reply b (TransactionID6 p) serverDUID cid arch associations
                          (ias_without_addresses associations ids) bootFileURL (getRecursiveDNS configuration) err;
                        Some (Some m, err, pool') } } }"

definition respond_information_request ::
    "packet6 \<Rightarrow> bytes \<Rightarrow> boot_configuration \<Rightarrow> 'p \<Rightarrow> (packet6 option \<times> string option \<times> 'p) option" where
  "respond_information_request p serverDUID configuration pool =
     do { url \<leftarrow> boot_url p configuration;
          case url of Inl err \<Rightarrow> Some (None, Some err, pool)
          | Inr bootFileURL \<Rightarrow>
            do { cid \<leftarrow> client_id (Options6 p); arch \<leftarrow> client_arch_type (Options6 p);
                 Some (Some (make_msg_information_request_reply (TransactionID6 p) serverDUID cid arch bootFileURL
                   (getRecursiveDNS configuration)), None, pool) } }"

definition respond_release ::
    "(bytes \<Rightarrow> bytes list \<Rightarrow> 'p \<Rightarrow> 'p) \<Rightarrow> packet6 \<Rightarrow> bytes \<Rightarrow> 'p \<Rightarrow> (packet6 option \<times> string option \<times> 'p) option" where
  "respond_release release p serverDUID pool =
     do { cid \<leftarrow> client_id (Options6 p); ids \<leftarrow> ia_na_ids (Options6 p);
          Some (Some (make_msg_release_reply (TransactionID6 p) serverDUID cid), None,
            release (fst cid) (map fst ids) pool) }"

definition build_response ::
    "'p reserve_op \<Rightarrow> (bytes \<Rightarrow> bytes list \<Rightarrow> 'p \<Rightarrow> 'p) \<Rightarrow> packet_builder \<Rightarrow> packet6 \<Rightarrow> bytes \<Rightarrow>
     boot_configuration \<Rightarrow> 'p \<Rightarrow> (packet6 option \<times> string option \<times> 'p) option" where
  "build_response reserve release b p serverDUID configuration pool =
     (if Type6 p = MsgSolicit then respond_solicit reserve b p serverDUID configuration pool
      else if Type6 p = MsgRequest6 then respond_request reserve b p serverDUID configuration pool
      else if Type6 p = MsgInformationRequest then respond_information_request p serverDUID configuration pool
      else if Type6 p = MsgRelease6 then respond_release release p serverDUID pool
      else Some (None, None, pool))"

section \<open>Tables built by adding options\<close>

lemma collect_lookup: "collect xs k = (let ys = filter (\<lambda>x. ID x = k) xs in if ys = [] then None else Some ys)"
proof (induction xs rule: rev_induct)
  case (snoc x xs)
  then show ?case by (auto simp: collect_def opts_append_def Let_def)
qed (simp add: collect_def)

lemma add_all_collect [simp]: "add_all Map.empty xs = collect xs"
proof -
  have "opts_add = opts_append" by (intro ext) simp
  then show ?thesis by (simp add: add_all_def collect_def)
qed

lemma make_option_simps [simp]: "ID (make_option k v) = k" "Value (make_option k v) = v"
  by (simp_all add: make_option_def)

lemma make_ia_addr_ID [simp]: "ID (make_ia_addr a p v) = 5" and make_status_ID [simp]: "ID (make_status c m) = 13"
  and make_dns_ID [simp]: "ID (make_dns_servers ds) = 23"
  by (simp_all add: make_ia_addr_def make_status_def make_dns_servers_def)

lemma make_ia_na_ID: "make_ia_na i t1 t2 x = Some y \<Longrightarrow> ID y = 3"
  by (auto simp: make_ia_na_def bind_eq_Some_conv)

lemma ia_address_IDs: "ia_address_options b as = Some xs \<Longrightarrow> y \<in> set xs \<Longrightarrow> ID y = 3"
  by (induction as arbitrary: xs) (auto simp: bind_eq_Some_conv dest: make_ia_na_ID)

lemma ia_status_IDs: "ia_status_options b is e = Some xs \<Longrightarrow> y \<in> set xs \<Longrightarrow> ID y = 3"
  by (induction "is" arbitrary: xs) (auto simp: bind_eq_Some_conv dest: make_ia_na_ID)

lemma filter_same_ID: "(\<And>y. y \<in> set xs \<Longrightarrow> ID y = k) \<Longrightarrow> filter (\<lambda>x. ID x = k') xs = (if k = k' then xs else [])"
  by (induction xs) auto

lemmas filter_ias = filter_same_ID [OF ia_address_IDs] filter_same_ID [OF ia_status_IDs]

lemma optional_IDs:
  "filter (\<lambda>x. ID x = k) (http_client_options arch) = (if k = 16 then http_client_options arch else [])"
  "filter (\<lambda>x. ID x = k) (dns_options ds) = (if k = 23 then dns_options ds else [])"
  by (auto simp: http_client_options_def dns_options_def)

text \<open>Sizes: what a client's options and the configuration may have for the answer to be framed.\<close>

lemma framed_make_option: "length (fst v) < 65532 \<Longrightarrow> k \<noteq> 6 \<Longrightarrow> framed (make_option k v)"
  by (simp add: framed_def make_option_def unat_of_nat take_bit_eq_mod)

lemma length_put_dns [simp]: "length (put_dns v entry) = length v"
  by (cases "fst entry * 16 \<le> length v") (simp_all add: put_dns_def copy_over_def)

lemma length_dns_value: "length (fst (Value (make_dns_servers ds))) = 16 * length ds"
proof -
  have "length (foldl put_dns v xs) = length v" for v xs
    by (induction xs arbitrary: v) simp_all
  then show ?thesis by (simp add: make_dns_servers_def exact_def)
qed

lemma framed_ia_na:
  assumes "make_ia_na i t1 t2 x = Some y" and "length (fst (Value x)) < 65500"
  shows "framed y"
proof -
  from assms(1) obtain j where j: "reslice i 0 4 = Some j" "y = make_option 3 (exact (fst j @ put32 t1 @ put32 t2 @ marshal_option x))"
    by (auto simp: make_ia_na_def bind_eq_Some_conv)
  then have "length (fst j) \<le> 4" by (auto simp: reslice_iff)
  with j(2) assms(2) show ?thesis
    by (auto intro!: framed_make_option simp: exact_def marshal_option_def)
qed

lemma framed_ia_address:
  assumes "make_ia_na i t1 t2 (make_ia_addr d p v) = Some y" shows "framed y"
proof -
  have "length (fst (Value (make_ia_addr d p v))) \<le> 24"
    by (simp add: make_ia_addr_def exact_def)
  with framed_ia_na [OF assms] show ?thesis by simp
qed

lemma framed_ia_addresses: "ia_address_options b as = Some xs \<Longrightarrow> list_all framed xs"
proof (induction as arbitrary: xs)
  case (Cons a as)
  then obtain y ys where "make_ia_na (exact (InterfaceID a)) (calculate_t1 b) (calculate_t2 b)
      (make_ia_addr (IPAddress a) (PreferredLifetime b) (ValidLifetime b)) = Some y"
    "ia_address_options b as = Some ys" "xs = y # ys"
    by (auto simp: bind_eq_Some_conv)
  with Cons.IH framed_ia_address show ?case by simp
qed simp

lemma framed_ia_statuses:
  "ia_status_options b is err = Some xs \<Longrightarrow> (\<And>m. err = Some m \<Longrightarrow> length m < 65000) \<Longrightarrow> list_all framed xs"
proof (induction "is" arbitrary: xs)
  case (Cons i "is")
  then obtain m x ys where err: "err = Some m" and x: "make_ia_na i (calculate_t1 b) (calculate_t2 b) (make_status 2 m) = Some x"
    and ys: "ia_status_options b is err = Some ys" "xs = x # ys"
    by (auto simp: bind_eq_Some_conv)
  have "length (fst (Value (make_status 2 m))) < 65500"
    using Cons.prems(2) [OF err] by (simp add: make_status_def exact_def)
  with framed_ia_na [OF x] Cons ys show ?case by simp
qed simp

section \<open>Responses\<close>

text \<open>What the configuration promises about sizes.\<close>

definition modest :: "boot_configuration \<Rightarrow> bytes \<Rightarrow> bool" where
  "modest configuration serverDUID \<longleftrightarrow> length serverDUID < 65532 \<and>
     (\<forall>c arch url. getBootURL configuration c arch = Inr url \<longrightarrow> length url < 65532) \<and>
     length (contents (getPreference configuration)) < 65532 \<and> 16 * length (getRecursiveDNS configuration) < 65532"

definition answers :: "packet6 \<Rightarrow> bytes \<Rightarrow> packet6 \<Rightarrow> bool" where
  "answers p serverDUID m \<longleftrightarrow> Type6 m = (if Type6 p = MsgSolicit then MsgAdvertise else MsgReply) \<and>
     TransactionID6 m = TransactionID6 p \<and>
     (\<exists>cid. client_id (Options6 p) = Some cid \<and> Options6 m 1 = Some [make_option 1 cid]) \<and>
     Options6 m 2 = Some [make_option 2 (exact serverDUID)]"

lemmas respond_defs = build_response_def respond_solicit_def respond_request_def respond_information_request_def
  respond_release_def

lemmas message_defs = make_msg_advertise_def make_msg_reply_def make_msg_information_request_reply_def
  make_msg_release_reply_def make_msg_advertise_with_no_addrs_def

lemma build_response_cases:
  assumes "build_response reserve release b p duid cfg pool = Some (Some m, e, pool')"
  obtains (advertise) cid ids arch url as where "Type6 p = MsgSolicit" "client_id (Options6 p) = Some cid"
      "ia_na_ids (Options6 p) = Some ids" "boot_url p cfg = Some (Inr url)"
      "reserve (fst cid) (map fst ids) pool = Some (as, None, pool')" "client_arch_type (Options6 p) = Some arch"
      "make_msg_advertise b (TransactionID6 p) duid cid arch as url (getPreference cfg) (getRecursiveDNS cfg) = Some m" "e = None"
  | (no_addrs) cid ids err url as where "Type6 p = MsgSolicit" "client_id (Options6 p) = Some cid"
      "ia_na_ids (Options6 p) = Some ids" "boot_url p cfg = Some (Inr url)"
      "reserve (fst cid) (map fst ids) pool = Some (as, Some err, pool')"
      "m = make_msg_advertise_with_no_addrs (TransactionID6 p) duid cid err" "e = Some err"
  | (reply) cid ids arch url as where "Type6 p = MsgRequest6" "client_id (Options6 p) = Some cid"
      "ia_na_ids (Options6 p) = Some ids" "boot_url p cfg = Some (Inr url)"
      "reserve (fst cid) (map fst ids) pool = Some (as, e, pool')" "client_arch_type (Options6 p) = Some arch"
      "make_msg_reply b (TransactionID6 p) duid cid arch as (ias_without_addresses as ids) url (getRecursiveDNS cfg) e = Some m"
  | (information) cid arch url where "Type6 p = MsgInformationRequest" "client_id (Options6 p) = Some cid"
      "boot_url p cfg = Some (Inr url)" "client_arch_type (Options6 p) = Some arch"
      "m = make_msg_information_request_reply (TransactionID6 p) duid cid arch url (getRecursiveDNS cfg)" "e = None" "pool' = pool"
  | (released) cid ids where "Type6 p = MsgRelease6" "client_id (Options6 p) = Some cid"
      "ia_na_ids (Options6 p) = Some ids" "m = make_msg_release_reply (TransactionID6 p) duid cid" "e = None"
      "pool' = release (fst cid) (map fst ids) pool"
proof -
  consider "Type6 p = MsgSolicit" | "Type6 p = MsgRequest6" | "Type6 p = MsgInformationRequest" | "Type6 p = MsgRelease6"
    using assms by (auto simp: build_response_def split: if_splits)
  then show thesis
  proof cases
    case 1
    with assms show ?thesis
      by (auto simp: build_response_def message_types respond_solicit_def bind_eq_Some_conv case_conv
          intro: advertise no_addrs)
  next
    case 2
    with assms show ?thesis
      by (auto simp: build_response_def message_types respond_request_def bind_eq_Some_conv case_conv
          intro: reply)
  next
    case 3
    with assms show ?thesis
      by (auto simp: build_response_def message_types respond_information_request_def bind_eq_Some_conv case_conv
          intro: information)
  next
    case 4
    with assms show ?thesis
      by (auto simp: build_response_def message_types respond_release_def bind_eq_Some_conv intro: released)
  qed
qed

lemma response_answers:
  assumes "build_response reserve release b p duid cfg pool = Some (Some m, e, pool')"
  shows "answers p duid m"
  using assms
proof (cases rule: build_response_cases)
  case advertise
  then show ?thesis
    by (auto simp: answers_def make_msg_advertise_def bind_eq_Some_conv collect_lookup Let_def filter_ias optional_IDs
        message_types split: option.split)
next
  case no_addrs
  then show ?thesis
    by (auto simp: answers_def make_msg_advertise_with_no_addrs_def collect_lookup Let_def)
next
  case reply
  then show ?thesis
    by (auto simp: answers_def make_msg_reply_def bind_eq_Some_conv collect_lookup Let_def filter_ias optional_IDs message_types)
next
  case information
  then show ?thesis
    by (auto simp: answers_def make_msg_information_request_reply_def collect_lookup Let_def optional_IDs message_types)
next
  case released
  then show ?thesis
    by (auto simp: answers_def make_msg_release_reply_def collect_lookup Let_def message_types)
qed

lemma first_value_small:
  assumes "all_framed opts" and "first_value opts k = Some v" shows "length (fst v) < 65532"
proof (cases "opts k")
  case None
  with assms(2) show ?thesis by (auto simp: first_value_def exact_def)
next
  case (Some xs)
  with assms(2) obtain y ys where "xs = y # ys" "v = Value y" by (cases xs) (auto simp: first_value_def)
  with Some assms(1) have "list_all framed (y # ys)" unfolding all_framed_def by blast
  then have "framed y" by simp
  with \<open>v = Value y\<close> show ?thesis by (simp add: framed_def)
qed

lemma all_framed_collect: "list_all framed xs \<Longrightarrow> all_framed (collect xs)"
  using all_framed_foldl [of Map.empty xs] by (simp add: collect_def all_framed_def)

lemma framed_optionals:
  "list_all framed (http_client_options arch)" "16 * length ds < 65532 \<Longrightarrow> list_all framed (dns_options ds)"
  using length_dns_value [of ds]
  by (auto simp: http_client_options_def http_client_class_def dns_options_def exact_def intro!: framed_make_option)
    (simp add: make_dns_servers_def framed_make_option)

lemma finite_dom_collect: "finite (dom (collect xs))"
proof -
  have "dom (collect xs) \<subseteq> ID ` set xs"
    by (auto simp: collect_lookup Let_def filter_empty_conv split: if_splits)
  then show ?thesis by (rule finite_subset) simp
qed

lemma enumerable: "finite (dom opts) \<Longrightarrow> \<exists>ks. enumerates ks opts"
  using finite_distinct_list [of "dom opts"] by (auto simp: enumerates_def)

lemma framed_collection: "list_all framed xs \<Longrightarrow> \<exists>ys. collect xs = collect ys \<and> list_all framed ys"
  by blast

text \<open>The parts of a response fit their length fields.\<close>

lemma framed_client_id: "all_framed opts \<Longrightarrow> client_id opts = Some c \<Longrightarrow> framed (make_option 1 c)"
  using first_value_small [of opts 1 c] by (auto simp: client_id_def intro: framed_make_option)

lemma framed_modest:
  assumes "modest cfg duid"
  shows "framed (make_option 2 (exact duid))" and "boot_url p cfg = Some (Inr url) \<Longrightarrow> framed (make_option 59 (exact url))"
    and "getPreference cfg = Some v \<Longrightarrow> framed (make_option 7 (exact v))" and "list_all framed (dns_options (getRecursiveDNS cfg))"
  using assms by (auto simp: modest_def boot_url_def bind_eq_Some_conv exact_def framed_optionals intro!: framed_make_option)

lemma framed_status_text: "length err < 65000 \<Longrightarrow> framed (make_status 2 err)"
  by (auto simp: make_status_def exact_def intro!: framed_make_option)

lemma response_framed:
  assumes "build_response reserve release b p duid cfg pool = Some (Some m, e, pool')"
    and "modest cfg duid" and "all_framed (Options6 p)" and "\<And>err. e = Some err \<Longrightarrow> length err < 65000"
  shows "all_framed (Options6 m)" "filed (Options6 m)" "finite (dom (Options6 m))"
proof -
  note cid = framed_client_id [OF assms(3)] and duid = framed_modest(1) [OF assms(2)] and url = framed_modest(2) [OF assms(2)]
    and pref = framed_modest(3) [OF assms(2)] and dns = framed_modest(4) [OF assms(2)]
  from assms(1) have "\<exists>xs. Options6 m = collect xs \<and> list_all framed xs"
  proof (cases rule: build_response_cases)
    case (advertise c ids arch u as)
    then obtain ias where ias: "ia_address_options b as = Some ias" and m: "Options6 m = collect
            ([make_option 1 c] @ ias @ [make_option 2 (exact duid)] @ http_client_options arch @ [make_option 59 (exact u)] @
             (case getPreference cfg of None \<Rightarrow> [] | Some v \<Rightarrow> [make_option 7 (exact v)]) @ dns_options (getRecursiveDNS cfg))"
      by (auto simp: make_msg_advertise_def bind_eq_Some_conv)
    show ?thesis
      unfolding m using advertise(2,4) cid duid url pref dns framed_ia_addresses [OF ias] framed_optionals(1)
      by (intro framed_collection) (auto split: option.split)
  next
    case (no_addrs c ids err)
    with cid duid framed_status_text [OF assms(4)] show ?thesis
      by (auto simp: make_msg_advertise_with_no_addrs_def intro!: exI)
  next
    case (reply c ids arch u as)
    then obtain ias failed where "ia_address_options b as = Some ias"
        "ia_status_options b (ias_without_addresses as ids) e = Some failed" and m: "Options6 m = collect
            ([make_option 1 c] @ ias @ failed @ [make_option 2 (exact duid)] @ http_client_options arch @
             [make_option 59 (exact u)] @ dns_options (getRecursiveDNS cfg))"
      by (auto simp: make_msg_reply_def bind_eq_Some_conv)
    then have "list_all framed ias" "list_all framed failed"
      using framed_ia_addresses framed_ia_statuses assms(4) by blast+
    with reply(2,4) cid duid url dns framed_optionals(1) show ?thesis
      unfolding m by (intro framed_collection) simp
  next
    case (information c arch u)
    then show ?thesis
      using cid duid url dns framed_optionals(1)
      by (auto simp: make_msg_information_request_reply_def intro!: exI)
  next
    case (released c ids)
    have "framed (make_option 13 (exact ([0, 0] @ copy_over (replicate 17 0) xs)))" for xs
      by (rule framed_make_option) (simp_all add: exact_def)
    with released cid duid show ?thesis
      by (auto simp: make_msg_release_reply_def simp del: replicate_numeral intro!: exI)
  qed
  then show "all_framed (Options6 m)" "filed (Options6 m)" "finite (dom (Options6 m))"
    by (auto simp: all_framed_collect finite_dom_collect)
qed

section \<open>The pool as the builder sees it\<close>

definition pool_message :: "pool_error \<Rightarrow> string" where
  "pool_message e = ''No more free ip addresses are currently available in the pool''"

definition random_reserve :: "(int \<Rightarrow> nat \<Rightarrow> u64) \<Rightarrow> pool reserve_op" where
  "random_reserve rng c ids p =
     map_option (\<lambda>(as, e, p'). (as, map_option pool_message e, p')) (reserve_addresses rng c ids p)"

interpretation leasing: address_pool "random_reserve rng" release_addresses pool_ok iaid_hash
  for rng :: "int \<Rightarrow> nat \<Rightarrow> u64"
proof unfold_locales
  fix p c ids as e p' j
  assume ok: "pool_ok p" and r: "random_reserve rng c ids p = Some (as, e, p')"
  then obtain e' where e': "reserve_addresses rng c ids p = Some (as, e', p')" "e = map_option pool_message e'"
    by (auto simp: random_reserve_def)
  show "pool_ok p'" by (rule random_pool.reserve_inv [OF ok e'(1)])
  show "iaid_hash (ClientID (as ! j)) (InterfaceID (as ! j)) = iaid_hash c (ids ! j)" if "j < length as"
    by (rule random_pool.reserve_key [OF ok e'(1) that])
qed (auto simp: random_reserve_def release_pool_ok dest: random_pool.reserve_all random_pool.reserve_short)

section \<open>What the builder owes its clients, over any pool\<close>

context address_pool
begin

text \<open>One address option per association, and none missing when the pool reports no error.\<close>

lemma address_options_length: "ia_address_options b as = Some xs \<Longrightarrow> length xs = length as"
  by (induction as arbitrary: xs) (auto simp: bind_eq_Some_conv)

lemma advertised:
  assumes "inv pool" and "reserve c ids pool = Some (as, None, pool')" and "ia_address_options b as = Some xs"
  shows "length xs = length ids" "inv pool'"
  using reserve_all [OF assms(1,2)] address_options_length [OF assms(3)] reserve_inv [OF assms(1,2)] by simp_all

end

section \<open>The server's own pool\<close>

text \<open>
  A configured server: the pool's sixteen-byte start address has no leading zero byte, and the
  range does not run past the end of the address space.
\<close>

definition sound_range :: "bytes \<Rightarrow> u64 \<Rightarrow> bool" where
  "sound_range first len \<longleftrightarrow> length first = 16 \<and> first ! 0 \<noteq> 0 \<and> big_set_bytes first + unat len \<le> 256 ^ 16"

lemma sound_address:
  assumes "sound_range first len" and "off < unat len"
  shows "length (big_bytes (big_set_bytes first + off)) = 16"
proof -
  obtain x xs where first: "first = x # xs" "length xs = 15" "x \<noteq> 0"
    using assms(1) by (cases first) (auto simp: sound_range_def)
  have "1 \<le> unat x" using first(3) by (simp add: Suc_le_eq unat_gt_0)
  then have "256 ^ 15 \<le> big_set_bytes first + off"
    using first(1,2) big_set_bytes_Cons [of x xs] by (simp add: trans_le_add1)
  moreover have "big_set_bytes first + off < 256 ^ Suc 15"
    using assms by (simp add: sound_range_def)
  ultimately have "length (big_bytes (big_set_bytes first + off)) = Suc 15"
    by (rule length_big_bytes)
  then show ?thesis by simp
qed

text \<open>No two of the requested interfaces share a hash. FNV-1a does not promise this.\<close>

definition collision_free :: "(bytes \<times> bytes) set \<Rightarrow> bool" where
  "collision_free S \<longleftrightarrow>
     (\<forall>c i c' i'. (c, i) \<in> S \<longrightarrow> (c', i') \<in> S \<longrightarrow> iaid_hash c i = iaid_hash c' i' \<longrightarrow> i = i')"

definition asked :: "pool_op list \<Rightarrow> bytes \<Rightarrow> bytes list \<Rightarrow> (bytes \<times> bytes) set" where
  "asked as c ids = requests as \<union> {c} \<times> set ids"

lemma served_interface:
  assumes "pool_run rng (new_pool first len lifetime clock) as pool"
    and "random_reserve rng c ids pool = Some (leases, e, pool')"
    and "collision_free (asked as c ids)" and "j < length leases"
  shows "InterfaceID (leases ! j) = ids ! j"
    and "\<exists>off < unat len. IPAddress (leases ! j) = big_bytes (big_set_bytes first + off)"
proof -
  obtain e' where r: "reserve_addresses rng c ids pool = Some (leases, e', pool')"
    using assms(2) by (auto simp: random_reserve_def)
  have ok: "pool_ok pool" "same_config (new_pool first len lifetime clock) pool"
    using pool_run_ok [OF assms(1)] by simp_all
  have len: "length leases \<le> length ids" by (rule leasing.reserve_length [OF ok(1) assms(2)])
  note res = reserve_addresses_reserved [OF r]
  have live: "identityAssociations pool' (iaid_hash c (ids ! j)) = Some (leases ! j)"
    using res assms(4) by (simp add: reserved_def)
  then have "identityAssociations pool (iaid_hash c (ids ! j)) = Some (leases ! j) \<or>
      ClientID (leases ! j) = c \<and> InterfaceID (leases ! j) \<in> set ids"
    by (rule reserve_provenance [OF r])
  with pool_run_provenance [OF assms(1)]
  have "(ClientID (leases ! j), InterfaceID (leases ! j)) \<in> asked as c ids"
    by (auto simp: asked_def new_pool_def)
  moreover have "(c, ids ! j) \<in> asked as c ids"
    using assms(4) len by (simp add: asked_def)
  moreover have "iaid_hash (ClientID (leases ! j)) (InterfaceID (leases ! j)) = iaid_hash c (ids ! j)"
    by (rule leasing.reserve_key [OF ok(1) assms(2,4)])
  ultimately show "InterfaceID (leases ! j) = ids ! j"
    using assms(3) unfolding collision_free_def by blast
  have "pool_ok pool'" by (rule leasing.reserve_inv [OF ok(1) assms(2)])
  with live have "in_pool pool' (leases ! j)" by (simp add: pool_ok_def)
  moreover have "same_config (new_pool first len lifetime clock) pool'"
    using ok(2) expire_keeps(1) [of pool] res by (auto simp: reserved_def intro: same_config_trans)
  ultimately show "\<exists>off < unat len. IPAddress (leases ! j) = big_bytes (big_set_bytes first + off)"
    by (simp add: in_pool_def new_pool_config)
qed

lemma ia_address_options_nth:
  assumes "ia_address_options b as = Some xs" and "j < length as"
  shows "make_ia_na (exact (InterfaceID (as ! j))) (calculate_t1 b) (calculate_t2 b)
    (make_ia_addr (IPAddress (as ! j)) (PreferredLifetime b) (ValidLifetime b)) = Some (xs ! j)"
  using assms
proof (induction as arbitrary: xs j)
  case (Cons a as)
  then show ?case by (cases j) (auto simp: bind_eq_Some_conv)
qed simp

lemma ia_ids_lengths: "ia_ids_of xs = Some is \<Longrightarrow> \<forall>i \<in> set is. length (fst i) = 4"
proof (induction xs arbitrary: "is")
  case (Cons x xs)
  then obtain i js where "reslice (Value x) 0 4 = Some i" "ia_ids_of xs = Some js" "is = i # js"
    by (auto simp: bind_eq_Some_conv)
  moreover from this(1) have "length (fst i) = 4" by (auto simp: reslice_iff)
  ultimately show ?case using Cons.IH by auto
qed simp

lemma ia_na_ids_lengths: "ia_na_ids opts = Some ids \<Longrightarrow> i \<in> set ids \<Longrightarrow> length (fst i) = 4"
  by (auto simp: ia_na_ids_def case_conv dest: ia_ids_lengths)

text \<open>Which interfaces a reply refuses: those behind the last lease.\<close>

lemma filter_not_taken:
  assumes "distinct xs" shows "filter (\<lambda>x. x \<notin> set (take n xs)) xs = drop n xs"
proof -
  have "filter (\<lambda>x. x \<notin> set (take n xs)) (drop n xs) = drop n xs"
    using set_take_disj_set_drop_if_distinct [OF assms, of n n] by (auto simp: filter_id_conv)
  moreover have "filter (\<lambda>x. x \<notin> set (take n xs)) (take n xs) = []"
    by (simp add: filter_empty_conv)
  moreover have "filter (\<lambda>x. x \<notin> set (take n xs)) xs =
      filter (\<lambda>x. x \<notin> set (take n xs)) (take n xs) @ filter (\<lambda>x. x \<notin> set (take n xs)) (drop n xs)"
    by (metis append_take_drop_id filter_append)
  ultimately show ?thesis by simp
qed

lemma refused_interfaces:
  assumes "distinct (map fst ids)" and "inj_on interface_hash (set (map fst ids))"
    and "length leases \<le> length ids" and "\<And>j. j < length leases \<Longrightarrow> InterfaceID (leases ! j) = fst (ids ! j)"
  shows "ias_without_addresses leases ids = drop (length leases) ids"
proof -
  let ?n = "length leases"
  have having: "map InterfaceID leases = map fst (take ?n ids)"
    using assms(3,4) by (auto intro!: nth_equalityI)
  have hit: "interface_hash (fst i) \<in> (\<lambda>a. interface_hash (InterfaceID a)) ` set leases \<longleftrightarrow> i \<in> set (take ?n ids)"
    if "i \<in> set ids" for i
  proof -
    have "(\<lambda>a. interface_hash (InterfaceID a)) ` set leases = interface_hash ` fst ` set (take ?n ids)"
      using arg_cong [OF having, of set] by (simp add: image_image flip: image_image [of interface_hash InterfaceID])
    moreover have "interface_hash (fst i) \<in> interface_hash ` fst ` set (take ?n ids) \<longleftrightarrow> fst i \<in> fst ` set (take ?n ids)"
      using assms(2) that set_take_subset [of ?n ids] by (auto simp: inj_on_def)
    moreover have "fst i \<in> fst ` set (take ?n ids) \<longleftrightarrow> i \<in> set (take ?n ids)"
      using assms(1) that set_take_subset [of ?n ids] by (auto simp: distinct_map inj_on_def)
    ultimately show ?thesis by simp
  qed
  have "distinct ids" using assms(1) by (simp add: distinct_map)
  then have "filter (\<lambda>i. i \<notin> set (take ?n ids)) ids = drop ?n ids" by (rule filter_not_taken)
  moreover have "ias_without_addresses leases ids = filter (\<lambda>i. i \<notin> set (take ?n ids)) ids"
    using hit by (auto simp: ias_without_addresses_def intro!: filter_cong)
  ultimately show ?thesis by simp
qed

lemma ia_status_options_map:
  assumes "\<forall>i \<in> set is. length (fst i) = 4"
  shows "ia_status_options b is (Some message) =
    Some (map (\<lambda>i. make_option 3 (exact (fst i @ put32 (calculate_t1 b) @ put32 (calculate_t2 b) @ marshal_option (make_status 2 message)))) is)"
  using assms
proof (induction "is")
  case (Cons i "is")
  obtain v t where "i = (v, t)" by fastforce
  with Cons show ?case by (simp add: make_ia_na_def reslice_visible)
qed simp

lemma ia_address_options_total:
  "\<forall>a \<in> set as. length (InterfaceID a) = 4 \<Longrightarrow> \<exists>xs. ia_address_options b as = Some xs"
  by (induction as) (auto simp: make_ia_na_def exact_def reslice_visible)

text \<open>The option that refuses an interface an address.\<close>

definition refusal_option :: "packet_builder \<Rightarrow> gslice \<Rightarrow> string \<Rightarrow> option6" where
  "refusal_option b i message = make_option 3 (exact (fst i @ put32 (calculate_t1 b) @ put32 (calculate_t2 b) @
     [0, 13] @ put16 (word_of_nat (length message + 2)) @ [0, 2] @ bytes_of message))"

lemma refusal_options:
  assumes "ia_status_options b ids e = Some ys" and "\<forall>i \<in> set ids. length (fst i) = 4" and "e = None \<Longrightarrow> ids = []"
  shows "ys = map (\<lambda>i. refusal_option b i (the e)) ids"
proof -
  have "marshal_option (make_status 2 message) = [0, 13] @ put16 (word_of_nat (length message + 2)) @ [0, 2] @ bytes_of message" for message
  proof -
    have "put16 13 = [0, 13]" "put16 2 = [0, 2]" by code_simp+
    then show ?thesis by (simp add: make_status_def marshal_option_def make_option_def exact_def)
  qed
  then show ?thesis
    using assms(1,3) ia_status_options_map [OF assms(2), of b "the e"] by (cases e) (auto simp: refusal_option_def)
qed

text \<open>What the option for a lease tells the client: the interface it asked about and the lease the pool holds for it.\<close>

lemma assigned_option:
  assumes "pool_run rng (new_pool first len lifetime clock) as pool" and "sound_range first len"
    and "random_reserve rng c (map fst ids) pool = Some (leases, e, pool')"
    and "collision_free (asked as c (map fst ids))" and "\<forall>i \<in> set ids. length (fst i) = 4"
    and "ia_address_options b leases = Some xs" and "j < length leases"
  shows "identityAssociations pool' (iaid_hash c (fst (ids ! j))) = Some (leases ! j)"
    and "\<exists>off < unat len. IPAddress (leases ! j) = big_bytes (big_set_bytes first + off)"
    and "human_readable_one (xs ! j) = Some [IaNaLine 40 (fst (ids ! j)) (calculate_t1 b) (calculate_t2 b),
      IaAddrLine 24 (IPAddress (leases ! j)) (PreferredLifetime b) (ValidLifetime b) []]"
proof -
  have "pool_ok pool" using pool_run_ok(2) [OF assms(1)] by simp
  then have j: "j < length ids" using leasing.reserve_length [OF _ assms(3)] assms(7) by fastforce
  note s = served_interface [OF assms(1,3,4,7)]
  show "\<exists>off < unat len. IPAddress (leases ! j) = big_bytes (big_set_bytes first + off)" by (rule s(2))
  then obtain off where off: "off < unat len" "IPAddress (leases ! j) = big_bytes (big_set_bytes first + off)" by blast
  obtain e' where "reserve_addresses rng c (map fst ids) pool = Some (leases, e', pool')"
    using assms(3) by (auto simp: random_reserve_def)
  then show "identityAssociations pool' (iaid_hash c (fst (ids ! j))) = Some (leases ! j)"
    using reserve_addresses_reserved assms(7) j by (force simp: reserved_def)
  have "length (InterfaceID (leases ! j)) = 4"
    using s(1) j assms(5) by simp
  from built_ia_na [OF this sound_address [OF assms(2) off(1)], of "[]" "calculate_t1 b" "calculate_t2 b"
      "PreferredLifetime b" "ValidLifetime b"] ia_address_options_nth [OF assms(6,7)] off s(1) j
  show "human_readable_one (xs ! j) = Some [IaNaLine 40 (fst (ids ! j)) (calculate_t1 b) (calculate_t2 b),
      IaAddrLine 24 (IPAddress (leases ! j)) (PreferredLifetime b) (ValidLifetime b) []]"
    by (auto simp: exact_def)
qed

text \<open>Without hash collisions the leases of different interfaces are different, and so are their addresses.\<close>

lemma leases_differ:
  assumes "pool_run rng (new_pool first len lifetime clock) as pool" and "list_all is_reserve as"
    and "random_reserve rng c ids pool = Some (leases, e, pool')"
    and "collision_free (asked as c ids)" and "distinct ids"
  shows "distinct (map IPAddress leases)"
proof -
  obtain e' where r: "reserve_addresses rng c ids pool = Some (leases, e', pool')"
    using assms(3) by (auto simp: random_reserve_def)
  have "pool_ok pool" using pool_run_ok(2) [OF assms(1)] by simp
  then have short: "length leases \<le> length ids" by (rule leasing.reserve_length [OF _ assms(3)])
  have "lease_inv pool" using reserve_run_inv(1) [OF assms(1,2)] by simp
  then have inv: "lease_inv pool'"
    using reserve_step_inv(1) [OF step_reserve [OF r]] by (simp add: is_reserve_def)
  have "IPAddress (leases ! i) \<noteq> IPAddress (leases ! j)" if "i < length leases" "j < length leases" "i \<noteq> j" for i j
  proof (rule lease_inv_distinct [OF inv])
    show "identityAssociations pool' (iaid_hash c (ids ! i)) = Some (leases ! i)"
        "identityAssociations pool' (iaid_hash c (ids ! j)) = Some (leases ! j)"
      using reserve_addresses_reserved [OF r] that by (simp_all add: reserved_def)
    have "ids ! i \<noteq> ids ! j" "(c, ids ! i) \<in> asked as c ids" "(c, ids ! j) \<in> asked as c ids"
      using that short assms(5) by (simp_all add: nth_eq_iff_index_eq asked_def)
    with assms(4) show "iaid_hash c (ids ! i) \<noteq> iaid_hash c (ids ! j)" unfolding collision_free_def by blast
  qed
  then show ?thesis by (simp add: distinct_conv_nth)
qed

section \<open>Properties\<close>

text \<open>
  Every response echoes the transaction id and the client's id, names this server, and is an
  Advertise for a Solicit and a Reply otherwise.
\<close>

theorem responses_answer:
  assumes "build_response reserve release b p duid cfg pool = Some (Some m, e, pool')"
  shows "Type6 m = (if Type6 p = MsgSolicit then MsgAdvertise else MsgReply) \<and> TransactionID6 m = TransactionID6 p \<and>
    (\<exists>cid. client_id (Options6 p) = Some cid \<and> Options6 m 1 = Some [make_option 1 cid]) \<and>
    Options6 m 2 = Some [make_option 2 (exact duid)]"
  using response_answers [OF assms] by (simp add: answers_def)

text \<open>
  Every response the server sends can be read back by its client: with a configuration whose
  values fit their options, the encoded response decodes to the message, in any map order.
\<close>

theorem response_readable:
  assumes "unmarshal6 bs n = Inr p"
    and "build_response reserve release b p duid cfg pool = Some (Some m, e, pool')"
    and "modest cfg duid" and "length (case e of None \<Rightarrow> '''' | Some err \<Rightarrow> err) < 65000" and "enumerates ks (Options6 m)"
  shows "\<exists>m'. unmarshal6 (marshal6 ks m, []) (length (marshal6 ks m)) = Inr m' \<and>
    Type6 m' = Type6 m \<and> TransactionID6 m' = TransactionID6 p \<and> view6 (Options6 m') = view6 (Options6 m)"
proof -
  note p = unmarshal6_Inr [OF assms(1)]
  have small: "length err < 65000" if "e = Some err" for err
    using assms(4) that by simp
  note m = response_framed [OF assms(2,3) p(3) small]
  then have "all_framed (Options6 m)" "filed (Options6 m)" by blast+
  moreover have "TransactionID6 m = TransactionID6 p"
    using response_answers [OF assms(2)] by (simp add: answers_def)
  ultimately show ?thesis
    using roundtrip6 [of m ks "[]" "[]"] p(1) assms(5) by simp
qed

text \<open>
  C33. After any history of the pool, a successful Advertise offers every interface the client asked about, in the client's order,
  the address of the lease that the pool holds for this very interface when the Advertise is made, an address of the configured
  range, with the configured lifetimes. As long as no client has released anything and the client names no interface twice, the
  addresses are all different. The range starts at an address without a leading zero byte and ends within the address space
  (\<open>sound_range\<close>), and no two of the interfaces ever asked about share a hash (\<open>collision_free\<close>).
\<close>

theorem advertised_addresses:
  assumes "pool_run rng (new_pool first len lifetime clock) as pool" and "sound_range first len"
    and "Type6 p = MsgSolicit" and "client_id (Options6 p) = Some cid" and "ia_na_ids (Options6 p) = Some ids"
    and "build_response (random_reserve rng) release_addresses b p duid cfg pool = Some (Some m, None, pool')"
    and "collision_free (asked as (fst cid) (map fst ids))"
  shows "\<exists>xs leases. Options6 m 3 = (if ids = [] then None else Some xs) \<and> length xs = length ids \<and> length leases = length ids \<and>
    (\<forall>j < length ids. identityAssociations pool' (iaid_hash (fst cid) (fst (ids ! j))) = Some (leases ! j) \<and>
      (\<exists>off < unat len. IPAddress (leases ! j) = big_bytes (big_set_bytes first + off)) \<and>
      human_readable_one (xs ! j) = Some [IaNaLine 40 (fst (ids ! j)) (calculate_t1 b) (calculate_t2 b),
        IaAddrLine 24 (IPAddress (leases ! j)) (PreferredLifetime b) (ValidLifetime b) []]) \<and>
    (list_all is_reserve as \<and> distinct (map fst ids) \<longrightarrow> distinct (map IPAddress leases))"
proof -
  from assms(6) obtain arch url leases where r: "random_reserve rng (fst cid) (map fst ids) pool = Some (leases, None, pool')"
    and m: "make_msg_advertise b (TransactionID6 p) duid cid arch leases url (getPreference cfg) (getRecursiveDNS cfg) = Some m"
    by (cases rule: build_response_cases) (use assms(3-5) in \<open>auto simp: message_types\<close>)
  from m obtain xs where xs: "ia_address_options b leases = Some xs"
    by (auto simp: make_msg_advertise_def bind_eq_Some_conv)
  have ok: "pool_ok pool" using pool_run_ok(2) [OF assms(1)] by simp
  have len: "length xs = length ids"
    using leasing.advertised(1) [OF ok r xs] by simp
  have leases: "length leases = length ids"
    using leasing.reserve_all [OF ok r] by simp
  have "Options6 m 3 = (if ids = [] then None else Some xs)"
    using m xs len by (auto simp: make_msg_advertise_def collect_lookup Let_def filter_ias optional_IDs split: option.split)
  moreover have four: "\<forall>i \<in> set ids. length (fst i) = 4" using ia_na_ids_lengths [OF assms(5)] by blast
  note options = assigned_option [OF assms(1,2) r assms(7) four xs, unfolded leases]
  ultimately show ?thesis
    using len leases leases_differ [OF assms(1) _ r assms(7)] options by (intro exI [of _ xs] exI [of _ leases]) blast
qed

text \<open>
  The renewal times stand in the order the protocol needs, T1 before T2 before the preferred
  lifetime, when that lifetime is below 2 to the 30 seconds.
\<close>

theorem renewal_times_ordered:
  assumes "PreferredLifetime b < 2 ^ 30"
  shows "calculate_t1 b \<le> calculate_t2 b \<and> calculate_t2 b \<le> PreferredLifetime b"
proof -
  let ?n = "unat (PreferredLifetime b)"
  have n: "?n < 2 ^ 30" using assms by (simp add: word_less_nat_alt)
  then have "unat (PreferredLifetime b * 4) = ?n * 4"
    by (simp add: unat_word_ariths)
  then show ?thesis
    by (auto simp: calculate_t1_def calculate_t2_def word_le_nat_alt unat_div)
qed

theorem renewal_times_ordered_witness:
  "calculate_t1 \<lparr>PreferredLifetime = 100, ValidLifetime = 200\<rparr> \<le> calculate_t2 \<lparr>PreferredLifetime = 100, ValidLifetime = 200\<rparr>"
  using renewal_times_ordered [of "\<lparr>PreferredLifetime = 100, ValidLifetime = 200\<rparr>"] by simp

text \<open>
  With the infinite lifetime of the protocol, 0xffffffff, the multiplication wraps and T2
  falls before T1.
\<close>

theorem infinite_lifetime_misorders:
  "calculate_t2 \<lparr>PreferredLifetime = 0xffffffff, ValidLifetime = v\<rparr> < calculate_t1 \<lparr>PreferredLifetime = 0xffffffff, ValidLifetime = v\<rparr>"
  by (simp add: calculate_t1_def calculate_t2_def)

section \<open>A sample exchange\<close>

definition sample_solicit :: bytes where
  "sample_solicit = [1, 1, 2, 3, 0, 1, 0, 4, 0, 2, 7, 7, 0, 3, 0, 12, 1, 2, 3, 4, 0, 0, 0, 0, 0, 0, 0, 0, 0, 6, 0, 2, 0, 59]"

definition sample_builder :: packet_builder where
  "sample_builder = make_packet_builder 100 200"

definition sample_configuration :: boot_configuration where
  "sample_configuration = static_configuration (make_static_boot_configuration ''h'' ''t'' 0 False [])"

definition sample_first :: bytes where
  "sample_first = [0x20, 1, 0x0D, 0xB8, 0, 0, 0, 0, 0, 0, 0, 0, 0, 0, 0, 9]"

definition sample_pool6 :: pool where
  "sample_pool6 = new_pool sample_first 1 100 (\<lambda>n. 0)"

lemma sample_decodes:
  "\<exists>p. unmarshal6 (sample_solicit, []) 34 = Inr p \<and> Type6 p = MsgSolicit \<and>
     client_id (Options6 p) = Some ([0, 2, 7, 7], drop 12 sample_solicit) \<and>
     ia_na_ids (Options6 p) = Some [([1, 2, 3, 4], drop 20 sample_solicit)] \<and> client_arch_type (Options6 p) = Some 0"
proof -
  have "case unmarshal6 (sample_solicit, []) 34 of Inl _ \<Rightarrow> False | Inr p \<Rightarrow> Type6 p = MsgSolicit \<and>
     client_id (Options6 p) = Some ([0, 2, 7, 7], drop 12 sample_solicit) \<and>
     ia_na_ids (Options6 p) = Some [([1, 2, 3, 4], drop 20 sample_solicit)] \<and> client_arch_type (Options6 p) = Some 0"
    by code_simp
  then show ?thesis by (auto split: sum.splits)
qed

text \<open>A first reservation on a fresh pool.\<close>

lemma fresh_reserve:
  "\<exists>p'. random_reserve demo_rng c [i] (new_pool first 1 lifetime clock) =
     Some ([\<lparr>IPAddress = big_bytes (big_set_bytes first), ClientID = c, InterfaceID = i, CreatedAt = clock 1\<rparr>], None, p')"
  by (simp add: random_reserve_def reserve_addresses_def expire_associations_eq time_now_def new_pool_def
      find_free.simps demo_rng_def allocate_def Let_def)

lemma sample_exchange:
  "\<exists>p m pool'. unmarshal6 (sample_solicit, []) 34 = Inr p \<and> Type6 p = MsgSolicit \<and>
     client_id (Options6 p) = Some ([0, 2, 7, 7], drop 12 sample_solicit) \<and>
     ia_na_ids (Options6 p) = Some [([1, 2, 3, 4], drop 20 sample_solicit)] \<and>
     build_response (random_reserve demo_rng) release_addresses sample_builder p [9] sample_configuration sample_pool6
       = Some (Some m, None, pool')"
proof -
  obtain p where p: "unmarshal6 (sample_solicit, []) 34 = Inr p" "Type6 p = MsgSolicit"
     "client_id (Options6 p) = Some ([0, 2, 7, 7], drop 12 sample_solicit)"
     "ia_na_ids (Options6 p) = Some [([1, 2, 3, 4], drop 20 sample_solicit)]" "client_arch_type (Options6 p) = Some 0"
    using sample_decodes by blast
  have "extract_ll_address_or_id ([0, 2, 7, 7], drop 12 sample_solicit) = Some [7, 7]"
    by code_simp
  then have url: "boot_url p sample_configuration = Some (Inr (bytes_of ''t''))"
    using p by (simp add: boot_url_def sample_configuration_def static_configuration_def static_get_boot_url_def
        make_static_boot_configuration_def X86HTTPClient_def)
  obtain a pool' where r: "random_reserve demo_rng [0, 2, 7, 7] [[1, 2, 3, 4]] sample_pool6 = Some ([a], None, pool')"
      and a: "InterfaceID a = [1, 2, 3, 4]"
    using fresh_reserve [of "[0, 2, 7, 7]" "[1, 2, 3, 4]" sample_first 100 "\<lambda>n. 0"] by (auto simp: sample_pool6_def)
  have "\<exists>x. make_ia_na (exact (InterfaceID a)) t1 t2 y = Some x" for t1 t2 y
    by (simp add: make_ia_na_def a exact_def reslice_visible)
  then have msg: "\<exists>m. make_msg_advertise sample_builder (TransactionID6 p) [9] ([0, 2, 7, 7], drop 12 sample_solicit) 0 [a] u pr ds = Some m"
    for u pr ds
  proof -
    obtain x where "make_ia_na (exact (InterfaceID a)) (calculate_t1 sample_builder) (calculate_t2 sample_builder)
        (make_ia_addr (IPAddress a) (PreferredLifetime sample_builder) (ValidLifetime sample_builder)) = Some x"
      using \<open>\<And>t1 t2 y. \<exists>x. make_ia_na (exact (InterfaceID a)) t1 t2 y = Some x\<close> by blast
    then show ?thesis by (simp add: make_msg_advertise_def)
  qed
  obtain m where "make_msg_advertise sample_builder (TransactionID6 p) [9] ([0, 2, 7, 7], drop 12 sample_solicit) 0 [a]
      (bytes_of ''t'') (getPreference sample_configuration) (getRecursiveDNS sample_configuration) = Some m"
    using msg by blast
  then show ?thesis
    using p url r by (auto simp: build_response_def respond_solicit_def)
qed

theorem responses_answer_witness:
  "\<exists>p m pool'. build_response (random_reserve demo_rng) release_addresses sample_builder p [9] sample_configuration sample_pool6
     = Some (Some m, None, pool') \<and> TransactionID6 m = TransactionID6 p \<and> Type6 m = MsgAdvertise"
proof -
  obtain p m pool' where "Type6 p = MsgSolicit" and
    r: "build_response (random_reserve demo_rng) release_addresses sample_builder p [9] sample_configuration sample_pool6 = Some (Some m, None, pool')"
    using sample_exchange by blast
  with responses_answer [OF r] show ?thesis by auto
qed

lemma sample_modest: "modest sample_configuration [9]"
  by (auto simp: modest_def sample_configuration_def static_configuration_def static_get_boot_url_def
      make_static_boot_configuration_def split: if_splits)

theorem response_readable_witness:
  "\<exists>p m m' ks. unmarshal6 (sample_solicit, []) 34 = Inr p \<and>
     unmarshal6 (marshal6 ks m, []) (length (marshal6 ks m)) = Inr m' \<and> TransactionID6 m' = TransactionID6 p"
proof -
  obtain p m pool' where p: "unmarshal6 (sample_solicit, []) 34 = Inr p" and
    r: "build_response (random_reserve demo_rng) release_addresses sample_builder p [9] sample_configuration sample_pool6 = Some (Some m, None, pool')"
    using sample_exchange by blast
  have "finite (dom (Options6 m))"
    by (rule response_framed(3) [OF r sample_modest unmarshal6_Inr(3) [OF p]]) simp
  then obtain ks where ks: "enumerates ks (Options6 m)"
    using enumerable by blast
  have "length (case None of None \<Rightarrow> '''' | Some err \<Rightarrow> err) < 65000" by simp
  from response_readable [OF p r sample_modest this ks] p show ?thesis by blast
qed

theorem advertised_addresses_witness:
  "\<exists>p m pool' xs. build_response (random_reserve demo_rng) release_addresses sample_builder p [9] sample_configuration sample_pool6
     = Some (Some m, None, pool') \<and> Options6 m 3 = Some xs \<and>
     human_readable_one (xs ! 0) = Some [IaNaLine 40 [1, 2, 3, 4] 50 80, IaAddrLine 24 sample_first 100 200 []]"
proof -
  obtain p m pool' where p: "Type6 p = MsgSolicit" "client_id (Options6 p) = Some ([0, 2, 7, 7], drop 12 sample_solicit)"
    "ia_na_ids (Options6 p) = Some [([1, 2, 3, 4], drop 20 sample_solicit)]" and
    r: "build_response (random_reserve demo_rng) release_addresses sample_builder p [9] sample_configuration sample_pool6 = Some (Some m, None, pool')"
    using sample_exchange by blast
  have run: "pool_run demo_rng (new_pool sample_first 1 100 (\<lambda>n. 0)) [] sample_pool6"
    by (simp add: sample_pool6_def)
  have n: "big_set_bytes sample_first = 42540766411282592856903984951653826569"
    by (simp add: big_set_bytes_def sample_first_def)
  have range: "sound_range sample_first 1"
    unfolding sound_range_def n by (simp add: sample_first_def)
  have "collision_free (asked [] (fst ([0, 2, 7, 7 :: byte], drop 12 sample_solicit)) (map fst [([1, 2, 3, 4], drop 20 sample_solicit)]))"
    by (auto simp: collision_free_def asked_def requests_def)
  from advertised_addresses [OF run range p r this] obtain xs where xs: "Options6 m 3 = Some xs"
      "human_readable_one (xs ! 0) = Some [IaNaLine 40 [1, 2, 3, 4] (calculate_t1 sample_builder) (calculate_t2 sample_builder),
        IaAddrLine 24 (big_bytes (big_set_bytes sample_first)) (PreferredLifetime sample_builder) (ValidLifetime sample_builder) []]"
    by auto
  moreover have "calculate_t1 sample_builder = 50" "calculate_t2 sample_builder = 80"
    by (simp_all add: calculate_t1_def calculate_t2_def sample_builder_def)
  moreover have "big_bytes 42540766411282592856903984951653826569 = sample_first"
    by (simp add: big_bytes.simps sample_first_def)
  ultimately show ?thesis using r by (auto simp: n sample_builder_def)
qed

text \<open>
  C14. A Reply to a Request answers every interface the client named, in its order. The first ones, as many as the pool had
  addresses for, get the address of the lease the pool now holds for them; every other one gets an association that has no address
  but status 2 with the pool's message, and there is none such exactly when the pool reported no error. The range is sound
  (\<open>sound_range\<close>), no two interfaces ever asked about share a hash under their client (\<open>collision_free\<close>), no two interfaces
  of the Request share the hash of \<^verbatim>\<open>iasWithoutAddesses\<close>, and the Request names no interface twice.
\<close>

theorem reply_answers_every_interface:
  assumes "pool_run rng (new_pool first len lifetime clock) as pool" and "sound_range first len"
    and "Type6 p = MsgRequest6" and "client_id (Options6 p) = Some cid" and "ia_na_ids (Options6 p) = Some ids"
    and "build_response (random_reserve rng) release_addresses b p duid cfg pool = Some (Some m, e, pool')"
    and "collision_free (asked as (fst cid) (map fst ids))" and "inj_on interface_hash (set (map fst ids))"
    and "distinct (map fst ids)"
  shows "\<exists>xs leases. random_reserve rng (fst cid) (map fst ids) pool = Some (leases, e, pool') \<and>
    length leases \<le> length ids \<and> (e = None \<longleftrightarrow> length leases = length ids) \<and>
    Options6 m 3 = (if ids = [] then None else Some xs) \<and> length xs = length ids \<and>
    (\<forall>j < length leases. identityAssociations pool' (iaid_hash (fst cid) (fst (ids ! j))) = Some (leases ! j) \<and>
      human_readable_one (xs ! j) = Some [IaNaLine 40 (fst (ids ! j)) (calculate_t1 b) (calculate_t2 b),
        IaAddrLine 24 (IPAddress (leases ! j)) (PreferredLifetime b) (ValidLifetime b) []]) \<and>
    (\<forall>j. length leases \<le> j \<and> j < length ids \<longrightarrow> ID (xs ! j) = 3 \<and> (\<exists>err. e = Some err \<and>
      fst (Value (xs ! j)) = fst (ids ! j) @ put32 (calculate_t1 b) @ put32 (calculate_t2 b) @
        [0, 13] @ put16 (word_of_nat (length err + 2)) @ [0, 2] @ bytes_of err))"
proof -
  from assms(6) obtain arch url leases where r: "random_reserve rng (fst cid) (map fst ids) pool = Some (leases, e, pool')"
    and m: "make_msg_reply b (TransactionID6 p) duid cid arch leases (ias_without_addresses leases ids) url (getRecursiveDNS cfg) e = Some m"
    by (cases rule: build_response_cases) (use assms(3-5) in \<open>auto simp: message_types\<close>)
  let ?rest = "drop (length leases) ids"
  have ok: "pool_ok pool" using pool_run_ok(2) [OF assms(1)] by simp
  have short: "length leases \<le> length ids" using leasing.reserve_length [OF ok r] by simp
  have all: "e = None \<longleftrightarrow> length leases = length ids"
    using leasing.reserve_all [OF ok] leasing.reserve_short [OF ok] r by (cases e) fastforce+
  have own: "InterfaceID (leases ! j) = fst (ids ! j)" if "j < length leases" for j
    using served_interface(1) [OF assms(1) r assms(7) that] that short by simp
  have without: "ias_without_addresses leases ids = ?rest" by (rule refused_interfaces [OF assms(9,8) short own])
  have four: "\<forall>i \<in> set ids. length (fst i) = 4" using ia_na_ids_lengths [OF assms(5)] by blast
  from m obtain xs ys where xs: "ia_address_options b leases = Some xs" and ys: "ia_status_options b ?rest e = Some ys"
    by (auto simp: make_msg_reply_def bind_eq_Some_conv without)
  have refusals: "ys = map (\<lambda>i. refusal_option b i (the e)) ?rest"
    using refusal_options [OF ys] four all short by (auto dest: in_set_dropD)
  have lengths: "length xs = length leases" "length (xs @ ys) = length ids"
    using leasing.address_options_length [OF xs] short by (simp_all add: refusals)
  note options = assigned_option [OF assms(1,2) r assms(7) four xs]
  have "identityAssociations pool' (iaid_hash (fst cid) (fst (ids ! j))) = Some (leases ! j) \<and>
      human_readable_one ((xs @ ys) ! j) = Some [IaNaLine 40 (fst (ids ! j)) (calculate_t1 b) (calculate_t2 b),
        IaAddrLine 24 (IPAddress (leases ! j)) (PreferredLifetime b) (ValidLifetime b) []]" if "j < length leases" for j
    using options(1,3) [OF that] that lengths(1) by (simp add: nth_append)
  moreover have "ID ((xs @ ys) ! j) = 3 \<and> (\<exists>err. e = Some err \<and>
      fst (Value ((xs @ ys) ! j)) = fst (ids ! j) @ put32 (calculate_t1 b) @ put32 (calculate_t2 b) @
        [0, 13] @ put16 (word_of_nat (length err + 2)) @ [0, 2] @ bytes_of err)" if j: "length leases \<le> j" "j < length ids" for j
  proof -
    have "(xs @ ys) ! j = refusal_option b (ids ! j) (the e)"
      using j lengths(1) by (simp add: nth_append refusals)
    moreover obtain err where "e = Some err" using j all by (cases e) auto
    ultimately show ?thesis by (simp add: refusal_option_def make_option_def exact_def)
  qed
  moreover have "Options6 m 3 = (if ids = [] then None else Some (xs @ ys))"
    using m xs ys lengths(2) by (auto simp: make_msg_reply_def without collect_lookup Let_def filter_ias optional_IDs)
  ultimately show ?thesis using r short all lengths(2) by (intro exI [of _ "xs @ ys"] exI [of _ leases]) blast
qed

text \<open>
  An Information-request without a client id passes validation and then brings the server down
  while the boot URL is looked up, whatever the configuration and the pool.
\<close>

theorem information_request_panics:
  "\<exists>p. unmarshal6 ([11, 1, 2, 3, 0, 6, 0, 2, 0, 59], []) 10 = Inr p \<and> should_discard p duid = Some None \<and>
     build_response reserve release b p duid cfg pool = None"
proof -
  have "case unmarshal6 ([11, 1, 2, 3, 0, 6, 0, 2, 0, 59], []) 10 of Inl _ \<Rightarrow> False
    | Inr p \<Rightarrow> Type6 p = 11 \<and> has_boot_file_url_option (Options6 p) = Some True \<and> client_id (Options6 p) = Some ([], []) \<and>
        \<not> has_ia_na (Options6 p) \<and> \<not> has_ia_ta (Options6 p) \<and> \<not> has_server_id (Options6 p)"
    by code_simp
  then obtain p where p: "unmarshal6 ([11, 1, 2, 3, 0, 6, 0, 2, 0, 59], []) 10 = Inr p" "Type6 p = 11"
    "has_boot_file_url_option (Options6 p) = Some True" "client_id (Options6 p) = Some ([], [])"
    "\<not> has_ia_na (Options6 p)" "\<not> has_ia_ta (Options6 p)" "\<not> has_server_id (Options6 p)"
    by (auto split: sum.splits)
  moreover have "extract_ll_address_or_id ([], []) = None"
    by (simp add: extract_ll_address_or_id_def reslice_def)
  ultimately show ?thesis
    by (auto simp: should_discard_def discard_information_request_def build_response_def respond_information_request_def
        boot_url_def message_types)
qed

text \<open>
  A pool that starts at 64:ff9b::9, an address with a leading zero byte, hands out an address
  of fifteen bytes, and the option sent to the client carries it shifted by one byte.
\<close>

theorem leading_zero_address_shifted:
  "\<exists>a pool'. random_reserve demo_rng c [i] (new_pool [0, 0x64, 0xff, 0x9b, 0, 0, 0, 0, 0, 0, 0, 0, 0, 0, 0, 9] 1 lifetime clock) =
       Some ([a], None, pool') \<and>
     take 16 (fst (Value (make_ia_addr (IPAddress a) preferred valid))) = [0x64, 0xff, 0x9b, 0, 0, 0, 0, 0, 0, 0, 0, 0, 0, 0, 9, 0]"
proof -
  have n: "big_set_bytes [0, 0x64, 0xff, 0x9b, 0, 0, 0, 0, 0, 0, 0, 0, 0, 0, 0, 9] = 524413980667603649783483181312245769"
    by (simp add: big_set_bytes_def)
  have "big_bytes 524413980667603649783483181312245769 = [0x64, 0xff, 0x9b, 0, 0, 0, 0, 0, 0, 0, 0, 0, 0, 0, 9]"
    by (simp add: big_bytes.simps)
  then have "take 16 (fst (Value (make_ia_addr (big_bytes 524413980667603649783483181312245769) preferred valid))) =
      [0x64, 0xff, 0x9b, 0, 0, 0, 0, 0, 0, 0, 0, 0, 0, 0, 9, 0]"
    by (simp add: make_ia_addr_def exact_def copy_over_def)
  with fresh_reserve [of c i "[0, 0x64, 0xff, 0x9b, 0, 0, 0, 0, 0, 0, 0, 0, 0, 0, 0, 9]" lifetime clock]
  show ?thesis unfolding n by auto
qed

lemma sample_request_decodes:
  "\<exists>p. unmarshal6 (3 # tl sample_solicit, []) 34 = Inr p \<and> Type6 p = MsgRequest6 \<and>
     client_id (Options6 p) = Some ([0, 2, 7, 7], drop 12 sample_solicit) \<and>
     ia_na_ids (Options6 p) = Some [([1, 2, 3, 4], drop 20 sample_solicit)] \<and> client_arch_type (Options6 p) = Some 0"
proof -
  have "case unmarshal6 (3 # tl sample_solicit, []) 34 of Inl _ \<Rightarrow> False | Inr p \<Rightarrow> Type6 p = MsgRequest6 \<and>
     client_id (Options6 p) = Some ([0, 2, 7, 7], drop 12 sample_solicit) \<and>
     ia_na_ids (Options6 p) = Some [([1, 2, 3, 4], drop 20 sample_solicit)] \<and> client_arch_type (Options6 p) = Some 0"
    by code_simp
  then show ?thesis by (auto split: sum.splits)
qed

text \<open>The sample client's Request, over a pool that has a lease for it.\<close>

lemma sample_replies:
  assumes "random_reserve rng [0, 2, 7, 7] [[1, 2, 3, 4]] pool = Some ([a], None, pool')" and "InterfaceID a = [1, 2, 3, 4]"
  shows "\<exists>p m. Type6 p = MsgRequest6 \<and> client_id (Options6 p) = Some ([0, 2, 7, 7], drop 12 sample_solicit) \<and>
    ia_na_ids (Options6 p) = Some [([1, 2, 3, 4], drop 20 sample_solicit)] \<and>
    build_response (random_reserve rng) release_addresses sample_builder p [9] sample_configuration pool = Some (Some m, None, pool')"
proof -
  obtain p :: packet6 where p: "Type6 p = MsgRequest6" "client_id (Options6 p) = Some ([0, 2, 7, 7], drop 12 sample_solicit)"
     "ia_na_ids (Options6 p) = Some [([1, 2, 3, 4], drop 20 sample_solicit)]" "client_arch_type (Options6 p) = Some 0"
    using sample_request_decodes by blast
  have "extract_ll_address_or_id ([0, 2, 7, 7], drop 12 sample_solicit) = Some [7, 7]"
    by code_simp
  then have url: "boot_url p sample_configuration = Some (Inr (bytes_of ''t''))"
    using p by (simp add: boot_url_def sample_configuration_def static_configuration_def static_get_boot_url_def
        make_static_boot_configuration_def X86HTTPClient_def)
  have "ias_without_addresses [a] [([1, 2, 3, 4], drop 20 sample_solicit)] = []"
    by (simp add: ias_without_addresses_def assms(2))
  moreover obtain x where "make_ia_na (exact (InterfaceID a)) (calculate_t1 sample_builder) (calculate_t2 sample_builder)
        (make_ia_addr (IPAddress a) (PreferredLifetime sample_builder) (ValidLifetime sample_builder)) = Some x"
    by (simp add: make_ia_na_def assms(2) exact_def reslice_visible)
  ultimately have "\<exists>m. build_response (random_reserve rng) release_addresses sample_builder p [9] sample_configuration pool
     = Some (Some m, None, pool')"
    using p url assms(1) by (auto simp: build_response_def respond_request_def make_msg_reply_def message_types)
  with p show ?thesis by blast
qed

theorem reply_answers_every_interface_witness:
  "\<exists>p m pool' xs. build_response (random_reserve demo_rng) release_addresses sample_builder p [9] sample_configuration sample_pool6
     = Some (Some m, None, pool') \<and> Options6 m 3 = Some xs \<and>
     human_readable_one (xs ! 0) = Some [IaNaLine 40 [1, 2, 3, 4] 50 80, IaAddrLine 24 sample_first 100 200 []]"
proof -
  obtain a pool1 where reserves: "random_reserve demo_rng [0, 2, 7, 7] [[1, 2, 3, 4]] sample_pool6 = Some ([a], None, pool1)"
      and "InterfaceID a = [1, 2, 3, 4]" and ip: "IPAddress a = big_bytes (big_set_bytes sample_first)"
    using fresh_reserve [of "[0, 2, 7, 7]" "[1, 2, 3, 4]" sample_first 100 "\<lambda>n. 0"] by (auto simp: sample_pool6_def)
  from sample_replies [OF reserves \<open>InterfaceID a = [1, 2, 3, 4]\<close>] obtain p m where p: "Type6 p = MsgRequest6" "client_id (Options6 p) = Some ([0, 2, 7, 7], drop 12 sample_solicit)"
     "ia_na_ids (Options6 p) = Some [([1, 2, 3, 4], drop 20 sample_solicit)]" and
     m: "build_response (random_reserve demo_rng) release_addresses sample_builder p [9] sample_configuration sample_pool6
       = Some (Some m, None, pool1)" by blast
  have run: "pool_run demo_rng (new_pool sample_first 1 100 (\<lambda>n. 0)) [] sample_pool6"
    by (simp add: sample_pool6_def)
  have cf: "collision_free (asked [] (fst ([0, 2, 7, 7 :: byte], drop 12 sample_solicit)) (map fst [([1, 2, 3, 4], drop 20 sample_solicit)]))"
    by (auto simp: collision_free_def asked_def requests_def)
  have once: "inj_on interface_hash (set (map fst [([1, 2, 3, 4], drop 20 sample_solicit)]))"
    "distinct (map fst [([1, 2, 3, 4 :: byte], drop 20 sample_solicit)])" by simp_all
  have n: "big_set_bytes sample_first = 42540766411282592856903984951653826569"
    by (simp add: big_set_bytes_def sample_first_def)
  have range: "sound_range sample_first 1"
    unfolding sound_range_def n by (simp add: sample_first_def)
  from reply_answers_every_interface [OF run range p(1-3) m cf once] reserves obtain xs where
    o: "Options6 m 3 = Some xs" "human_readable_one (xs ! 0) = Some [IaNaLine 40 [1, 2, 3, 4] (calculate_t1 sample_builder)
      (calculate_t2 sample_builder), IaAddrLine 24 (IPAddress a) (PreferredLifetime sample_builder) (ValidLifetime sample_builder) []]"
    by auto
  moreover have "calculate_t1 sample_builder = 50" "calculate_t2 sample_builder = 80"
    by (simp_all add: calculate_t1_def calculate_t2_def sample_builder_def)
  moreover have "big_bytes 42540766411282592856903984951653826569 = sample_first"
    by (simp add: big_bytes.simps sample_first_def)
  ultimately show ?thesis using m by (auto simp: n ip sample_builder_def)
qed

end
