(* ===== verification/Dhcp6_Exchange.thy ===== *)
theory Dhcp6_Exchange
  imports Dhcp6_Builder
begin

text \<open>
  The exchange of four messages a DHCPv6 client goes through, over the server's own pool
  (\<^verbatim>\<open>dhcp6/packet_builder.go\<close> and \<^verbatim>\<open>dhcp6/pool/random_address_pool.go\<close> together): what an
  Advertise offers is what the Reply to the Request that follows assigns.
\<close>

section \<open>Address options of the two messages\<close>

lemma advertised_options:
  assumes "make_msg_advertise b tid duid cid arch leases url pref dns = Some m"
  shows "\<exists>xs. ia_address_options b leases = Some xs \<and> Options6 m 3 = (if xs = [] then None else Some xs)"
proof -
  from assms obtain xs where xs: "ia_address_options b leases = Some xs" by (auto simp: make_msg_advertise_def bind_eq_Some_conv)
  then have "Options6 m 3 = (if xs = [] then None else Some xs)"
    using assms by (auto simp: make_msg_advertise_def collect_lookup Let_def filter_ias optional_IDs split: option.split)
  with xs show ?thesis by blast
qed

lemma no_error_no_refusal: "ia_status_options b ids None = Some ys \<Longrightarrow> ids = [] \<and> ys = []"
  by (cases ids) auto

lemma replied_options:
  assumes "make_msg_reply b tid duid cid arch leases refused url dns None = Some m"
  shows "\<exists>xs. ia_address_options b leases = Some xs \<and> Options6 m 3 = (if xs = [] then None else Some xs)"
proof -
  from assms obtain xs ys where xs: "ia_address_options b leases = Some xs" and ys: "ia_status_options b refused None = Some ys"
    by (auto simp: make_msg_reply_def bind_eq_Some_conv)
  note none = no_error_no_refusal [OF ys]
  have "Options6 m 3 = (if xs = [] then None else Some xs)"
    using assms xs none by (auto simp: make_msg_reply_def collect_lookup Let_def filter_ias optional_IDs)
  with xs show ?thesis by blast
qed

section \<open>Leases between two messages\<close>

lemma renewed_leases:
  assumes "pool_run rng (new_pool first len lifetime clock) as pool" and "list_all is_reserve as" and "mono clock"
    and "reserve_addresses rng c ids pool = Some (leases, None, pool1)"
    and "pool_run rng pool1 bs pool2" and "list_all is_reserve bs"
    and "reserve_addresses rng c ids pool2 = Some (leases', e, pool3)"
    and "\<forall>a \<in> set leases. clock (reads pool3) < lease_end lifetime a"
  shows "leases' = leases" and "e = None"
proof -
  have cfg: "timeNow pool = clock" "validLifetime pool = lifetime"
    using pool_run_ok(1) [OF assms(1)] by (simp_all add: new_pool_config)
  have inv: "lease_inv pool" "timed pool"
    using reserve_run_inv [OF assms(1,2)] assms(3) by (simp_all add: new_pool_def lease_inv_def timed_def)
  have step: "pool_step rng pool (Reserve c ids) pool1" using assms(4) by (rule step_reserve)
  have res: "is_reserve (Reserve c ids)" by (simp add: is_reserve_def)
  have cfg1: "timeNow pool1 = clock" "validLifetime pool1 = lifetime"
    using pool_step_ok(1) [OF step] cfg by (simp_all add: same_config_def)
  have inv1: "lease_inv pool1" "timed pool1"
    using reserve_step_inv [OF step res] inv assms(3) cfg by simp_all
  have cfg2: "timeNow pool2 = clock" "validLifetime pool2 = lifetime"
    using pool_run_ok(1) [OF assms(5)] cfg1 by (simp_all add: same_config_def)
  have inv2: "lease_inv pool2" "timed pool2"
    using reserve_run_inv [OF assms(5,6)] inv1 assms(3) cfg1 by simp_all
  have "reads (expire_associations pool2) < reads pool3" using reserve_timed(2) [OF assms(7) inv2(2)] assms(3) cfg2 by simp
  with expire_queue(1) [of pool2] have "clock (reads pool2) \<le> clock (reads pool3)" using assms(3) by (simp add: mono_def)
  note earlier = this
  have "identityAssociations (expire_associations pool2) (iaid_hash c (ids ! j)) = Some (leases ! j)" if "j < length leases" for j
  proof -
    have live: "clock (reads pool3) < lease_end lifetime (leases ! j)" using assms(8) that by simp
    have "identityAssociations pool1 (iaid_hash c (ids ! j)) = Some (leases ! j)"
      using reserve_addresses_reserved [OF assms(4)] that by (simp add: reserved_def)
    then have "identityAssociations pool2 (iaid_hash c (ids ! j)) = Some (leases ! j)"
      by (rule reserve_run_keeps [OF assms(5,6) inv1, rotated]) (use live earlier assms(3) cfg1 in simp_all)
    then show ?thesis
      by (rule reserve_keeps_association(1) [OF assms(7) inv2, rotated]) (use live assms(3) cfg2 in simp_all)
  qed
  moreover have "length leases = length ids"
    using reserve_addresses_reserved [OF assms(4)] by (simp add: reserved_def)
  ultimately have "map Some leases = map (\<lambda>i. identityAssociations (expire_associations pool2) (iaid_hash c i)) ids"
    by (auto intro!: nth_equalityI)
  from reserve_known [where rng = rng, OF this] obtain p' where "reserve_addresses rng c ids pool2 = Some (leases, None, p')" ..
  with assms(7) show "leases' = leases" "e = None" by simp_all
qed

section \<open>Properties\<close>

text \<open>
  C7. What is offered is what is assigned: when a client's Solicit was answered with an Advertise, and it then requests the same
  interfaces, the Reply carries exactly the address options of the Advertise and reports no error, whatever other
  clients reserve in between and however full the pool is by then. Nothing has been released, neither before the Solicit in the
  whole history of the pool nor between the two messages; the clock never runs back; and none of the leases has ended when the
  Request has been served. (Once a client has released an address this fails, see \<open>released_address_leased_twice\<close>.)
\<close>

theorem offered_is_assigned:
  assumes "pool_run rng (new_pool first len lifetime clock) as pool" and "list_all is_reserve as" and "mono clock"
    and "Type6 p = MsgSolicit" and "client_id (Options6 p) = Some cid" and "ia_na_ids (Options6 p) = Some ids"
    and "build_response (random_reserve rng) release_addresses b p duid cfg pool = Some (Some m, None, pool1)"
    and "pool_run rng pool1 bs pool2" and "list_all is_reserve bs"
    and "Type6 q = MsgRequest6" and "client_id (Options6 q) = Some cid'" and "ia_na_ids (Options6 q) = Some ids'"
    and "fst cid' = fst cid" and "map fst ids' = map fst ids"
    and "build_response (random_reserve rng) release_addresses b q duid cfg pool2 = Some (Some r, e, pool3)"
    and "\<forall>i \<in> set ids. \<forall>a. identityAssociations pool1 (iaid_hash (fst cid) (fst i)) = Some a \<longrightarrow>
      clock (reads pool3) < lease_end lifetime a"
  shows "Options6 r 3 = Options6 m 3 \<and> e = None"
proof -
  from assms(7) obtain arch url leases where one: "random_reserve rng (fst cid) (map fst ids) pool = Some (leases, None, pool1)"
      "make_msg_advertise b (TransactionID6 p) duid cid arch leases url (getPreference cfg) (getRecursiveDNS cfg) = Some m"
    by (cases rule: build_response_cases) (use assms(4-6) in \<open>auto simp: message_types\<close>)
  from assms(15) obtain arch' url' leases' where two: "random_reserve rng (fst cid) (map fst ids) pool2 = Some (leases', e, pool3)"
      "make_msg_reply b (TransactionID6 q) duid cid' arch' leases' (ias_without_addresses leases' ids') url' (getRecursiveDNS cfg) e = Some r"
    by (cases rule: build_response_cases) (use assms(10-14) in \<open>auto simp: message_types\<close>)
  have r1: "reserve_addresses rng (fst cid) (map fst ids) pool = Some (leases, None, pool1)"
    using one(1) by (auto simp: random_reserve_def)
  obtain e' where r2: "reserve_addresses rng (fst cid) (map fst ids) pool2 = Some (leases', e', pool3)" "e = map_option pool_message e'"
    using two(1) by (auto simp: random_reserve_def)
  have "\<forall>a \<in> set leases. clock (reads pool3) < lease_end lifetime a"
  proof
    fix a assume "a \<in> set leases"
    then obtain j where j: "j < length leases" "leases ! j = a" by (auto simp: in_set_conv_nth)
    have "length leases = length (map fst ids)"
        "\<forall>j < length leases. identityAssociations pool1 (iaid_hash (fst cid) (map fst ids ! j)) = Some (leases ! j)"
      using reserve_addresses_reserved [OF r1] unfolding reserved_def option.case by blast+
    with j have "identityAssociations pool1 (iaid_hash (fst cid) (fst (ids ! j))) = Some a" "ids ! j \<in> set ids"
      by (metis length_map nth_map) (simp add: j(1) \<open>length leases = length (map fst ids)\<close> [symmetric, unfolded length_map])
    with assms(16) show "clock (reads pool3) < lease_end lifetime a" by blast
  qed
  note renewed = renewed_leases [OF assms(1-3) r1 assms(8,9) r2(1) this]
  with two(2) r2(2) have "make_msg_reply b (TransactionID6 q) duid cid' arch' leases (ias_without_addresses leases ids') url' (getRecursiveDNS cfg) None = Some r"
    by simp
  from replied_options [OF this] advertised_options [OF one(2)] renewed(2) r2(2) show ?thesis by auto
qed

theorem offered_is_assigned_witness:
  "\<exists>p q m r pool1 pool2 pool3.
     build_response (random_reserve demo_rng) release_addresses sample_builder p [9] sample_configuration sample_pool6 = Some (Some m, None, pool1) \<and>
     pool_run demo_rng pool1 [Reserve [9] [[9, 9, 9, 9]]] pool2 \<and>
     build_response (random_reserve demo_rng) release_addresses sample_builder q [9] sample_configuration pool2 = Some (Some r, None, pool3) \<and>
     Options6 r 3 = Options6 m 3"
proof -
  let ?c = "[0, 2, 7, 7] :: bytes" and ?new = "new_pool sample_first 1 100 (\<lambda>n. 0)"
  obtain p m pool1 where p: "Type6 p = MsgSolicit" "client_id (Options6 p) = Some (?c, drop 12 sample_solicit)"
      "ia_na_ids (Options6 p) = Some [([1, 2, 3, 4], drop 20 sample_solicit)]" and
    one: "build_response (random_reserve demo_rng) release_addresses sample_builder p [9] sample_configuration sample_pool6 = Some (Some m, None, pool1)"
    using sample_exchange by blast
  have mono: "mono (\<lambda>n :: nat. 0 :: int)" by (simp add: mono_def)
  obtain leases where "random_reserve demo_rng ?c [[1, 2, 3, 4]] sample_pool6 = Some (leases, None, pool1)"
    using one by (cases rule: build_response_cases) (use p in \<open>auto simp: message_types\<close>)
  with fresh_reserve [of ?c "[1, 2, 3, 4]" sample_first 100 "\<lambda>n. 0"] obtain a where
      first: "reserve_addresses demo_rng ?c [[1, 2, 3, 4]] ?new = Some ([a], None, pool1)" and
      a: "InterfaceID a = [1, 2, 3, 4]" "CreatedAt a = 0"
    by (auto simp: sample_pool6_def random_reserve_def)
  have run0: "pool_run demo_rng ?new [] ?new" by simp
  have ok1: "pool_ok pool1" "same_config ?new pool1"
    using pool_step_ok [OF step_reserve [OF first]] by simp_all
  have fair: "fair_draws (demo_rng seed) 1" for seed by (auto simp: fair_draws_def demo_rng_def)
  have size1: "poolSize pool1 = 1" using ok1(2) by (simp add: same_config_def new_pool_def)
  obtain pool2 where run: "pool_run demo_rng pool1 [Reserve [9] [[9, 9, 9, 9]]] pool2"
    using reserve_returns [of pool1 demo_rng, OF ok1(1), unfolded size1, OF fair, of "[9]" "[[9, 9, 9, 9]]"] by (auto intro: step_reserve)
  have ok2: "pool_ok pool2" and size2: "poolSize pool2 = 1"
    using pool_run_ok [OF run] ok1(1) size1 by (simp_all add: same_config_def)
  obtain leases' e pool3 where second: "reserve_addresses demo_rng ?c [[1, 2, 3, 4]] pool2 = Some (leases', e, pool3)"
    using reserve_returns [of pool2 demo_rng, OF ok2, unfolded size2, OF fair, of ?c "[[1, 2, 3, 4]]"] by auto
  have bs: "list_all is_reserve [Reserve [9] [[9, 9, 9, 9]]]" by (simp add: is_reserve_def)
  have "\<forall>a \<in> set [a]. (0 :: int) < lease_end 100 a" by (simp add: lease_end_def a(2))
  note renewed = renewed_leases [OF run0 _ mono first run bs second this, simplified]
  with second have "random_reserve demo_rng ?c [[1, 2, 3, 4]] pool2 = Some ([a], None, pool3)" by (simp add: random_reserve_def)
  from sample_replies [OF this a(1)] obtain q r where q: "Type6 q = MsgRequest6" "client_id (Options6 q) = Some (?c, drop 12 sample_solicit)"
      "ia_na_ids (Options6 q) = Some [([1, 2, 3, 4], drop 20 sample_solicit)]" and
    two: "build_response (random_reserve demo_rng) release_addresses sample_builder q [9] sample_configuration pool2 = Some (Some r, None, pool3)"
    by blast
  have "identityAssociations pool1 (iaid_hash ?c [1, 2, 3, 4]) = Some a"
    using reserve_addresses_reserved [OF first] by (simp add: reserved_def)
  then have "\<forall>i \<in> set [([1, 2, 3, 4], drop 20 sample_solicit)]. \<forall>a'. identityAssociations pool1
      (iaid_hash (fst (?c, drop 12 sample_solicit)) (fst i)) = Some a' \<longrightarrow> 0 < lease_end 100 a'"
    by (simp add: lease_end_def a(2))
  from offered_is_assigned [OF run0 _ mono p one [unfolded sample_pool6_def] run bs q _ _ two this]
  have "Options6 r 3 = Options6 m 3" by simp
  with one run two show ?thesis by blast
qed

end
