(* ===== verification/Dhcp6_Server.thy ===== *)
theory Dhcp6_Server
  imports Dhcp6_Builder
begin

text \<open>
  The DHCPv6 server: receiving on the multicast group (\<^verbatim>\<open>dhcp6/conn.go\<close>), the serving loop of
  \<^verbatim>\<open>server/dhcpv6.go\<close> and the server's identifier (\<^verbatim>\<open>server/server.go\<close>). The network is a list
  of what successive reads of the socket return; a run ends waiting when the list ends.
\<close>

section \<open>Receiving\<close>

text \<open>A datagram with the interface it arrived on, its destination and its source; or a read error.\<close>

datatype net_event = Datagram bytes nat bytes bytes | ReadFailed string

definition dhcp6_group :: bytes where
  "dhcp6_group = [0xff, 2, 0, 0, 0, 0, 0, 0, 0, 0, 0, 0, 0, 1, 0, 2]"

datatype recv_error = SocketError string | BadPacket packet6_error

fun bad_packet :: "packet6_error fault \<Rightarrow> recv_error fault" where
  "bad_packet Panic = Panic"
| "bad_packet (Fault e) = Fault (BadPacket e)"

text \<open>
  \<^verbatim>\<open>RecvDHCP\<close> skips datagrams that came in on another interface or were not sent to the group.
  The buffer keeps what skipped datagrams left in it. The group is no IPv4 address, so
  \<^verbatim>\<open>net.IP.Equal\<close> is equality of the bytes.
\<close>

fun recv_loop :: "nat \<Rightarrow> bytes \<Rightarrow> net_event list \<Rightarrow> ((recv_error fault + packet6 \<times> bytes) \<times> net_event list) option" where
  "recv_loop ifIndex b [] = None"
| "recv_loop ifIndex b (ReadFailed err # es) = Some (Inl (Fault (SocketError err)), es)"
| "recv_loop ifIndex b (Datagram d i dst src # es) =
     (let b' = copy_over b d; n = min (length d) (length b) in
      if ifIndex \<noteq> 0 \<and> i \<noteq> ifIndex then recv_loop ifIndex b' es
      else if \<not> is_multicast dst \<or> dst \<noteq> dhcp6_group then recv_loop ifIndex b' es
      else (case unmarshal6 (b', []) n of
          Inl e \<Rightarrow> Some (Inl (bad_packet e), es)
        | Inr p \<Rightarrow> Some (Inr (p, src), es)))"

definition recv_dhcp6 :: "nat \<Rightarrow> net_event list \<Rightarrow> ((recv_error fault + packet6 \<times> bytes) \<times> net_event list) option" where
  "recv_dhcp6 ifIndex es = recv_loop ifIndex (replicate 1500 0) es"

text \<open>One step: a datagram is skipped, or its decoding is the result.\<close>

definition for_us :: "nat \<Rightarrow> nat \<Rightarrow> bytes \<Rightarrow> bool" where
  "for_us ifIndex i dst \<longleftrightarrow> (ifIndex = 0 \<or> i = ifIndex) \<and> is_multicast dst \<and> dst = dhcp6_group"

lemma group_is_multicast [simp]: "is_multicast dhcp6_group"
  by code_simp

lemma recv_loop_Datagram:
  "recv_loop ifIndex b (Datagram d i dst src # es) =
     (if for_us ifIndex i dst
      then Some (case unmarshal6 (copy_over b d, []) (min (length d) (length b)) of
          Inl e \<Rightarrow> Inl (bad_packet e) | Inr p \<Rightarrow> Inr (p, src), es)
      else recv_loop ifIndex (copy_over b d) es)"
  by (cases "unmarshal6 (copy_over b d, []) (min (length d) (length b))") (auto simp: for_us_def Let_def)

declare recv_loop.simps(3) [simp del]

lemma recv_loop_shorter: "recv_loop ifIndex b es = Some (r, rest) \<Longrightarrow> length rest < length es"
proof (induction es arbitrary: b)
  case (Cons ev es)
  show ?case
  proof (cases ev)
    case (Datagram d i dst src)
    show ?thesis
    proof (cases "for_us ifIndex i dst")
      case False
      with Cons Datagram show ?thesis by (simp add: recv_loop_Datagram less_SucI)
    qed (use Cons.prems Datagram in \<open>auto simp: recv_loop_Datagram\<close>)
  qed (use Cons.prems in auto)
qed simp

lemma recv_nothing: "recv_dhcp6 ifIndex [] = None"
  unfolding recv_dhcp6_def by (rule recv_loop.simps(1))

lemma recv_dhcp6_shorter: "recv_dhcp6 ifIndex es = Some (r, rest) \<Longrightarrow> length rest < length es"
  unfolding recv_dhcp6_def by (rule recv_loop_shorter)

text \<open>
  What a read of the socket says about the events: those before the one it returns were not for us, and a packet is the
  decoding of the datagram of its event, over what earlier datagrams left in the buffer.
\<close>

definition skipped6 :: "nat \<Rightarrow> net_event \<Rightarrow> bool" where
  "skipped6 ifIndex ev \<longleftrightarrow> (\<exists>d i dst src. ev = Datagram d i dst src \<and> \<not> for_us ifIndex i dst)"

definition received6 :: "nat \<Rightarrow> net_event \<Rightarrow> packet6 \<Rightarrow> bytes \<Rightarrow> bool" where
  "received6 ifIndex ev p src \<longleftrightarrow> (\<exists>d i dst residue. ev = Datagram d i dst src \<and> for_us ifIndex i dst \<and> length residue = 1500 \<and>
     unmarshal6 (copy_over residue d, []) (min (length d) 1500) = Inr p)"

lemma recv_loop_events:
  assumes "length b = 1500"
  shows "(recv_loop ifIndex b es = None \<longrightarrow> (\<forall>ev \<in> set es. skipped6 ifIndex ev)) \<and>
    (\<forall>x rest. recv_loop ifIndex b es = Some (x, rest) \<longrightarrow> (\<exists>pre ev. es = pre @ ev # rest \<and> (\<forall>ev \<in> set pre. skipped6 ifIndex ev) \<and>
       (\<forall>p src. x = Inr (p, src) \<longrightarrow> received6 ifIndex ev p src)))"
  using assms
proof (induction es arbitrary: b)
  case (Cons ev es)
  show ?case
  proof (cases ev)
    case (Datagram d i dst src)
    show ?thesis
    proof (cases "for_us ifIndex i dst")
      case True
      then have read: "recv_loop ifIndex b (ev # es) = Some (case unmarshal6 (copy_over b d, []) (min (length d) 1500) of
          Inl e \<Rightarrow> Inl (bad_packet e) | Inr p \<Rightarrow> Inr (p, src), es)"
        using Datagram Cons.prems by (simp add: recv_loop_Datagram)
      have "received6 ifIndex ev p src" if "unmarshal6 (copy_over b d, []) (min (length d) 1500) = Inr p" for p
        unfolding received6_def using True Datagram Cons.prems that by blast
      then show ?thesis
        unfolding read by (intro conjI impI allI exI [of _ "[]"] exI [of _ ev]) (auto split: sum.splits)
    next
      case False
      then have "skipped6 ifIndex ev" using Datagram by (auto simp: skipped6_def)
      moreover have "recv_loop ifIndex b (ev # es) = recv_loop ifIndex (copy_over b d) es"
        using False Datagram by (simp add: recv_loop_Datagram)
      moreover have "length (copy_over b d) = 1500" using Cons.prems by simp
      note Cons.IH [OF this]
      ultimately show ?thesis
        by (metis Cons_eq_appendI set_ConsD)
    qed
  next
    case (ReadFailed err)
    then show ?thesis by (auto intro!: exI [of _ "[]"])
  qed
qed simp

lemmas recv_events = recv_loop_events [of "replicate 1500 0", OF length_replicate, folded recv_dhcp6_def]

section \<open>The server's identifier\<close>

text \<open>A link-layer-plus-time identifier: the seconds since 2000, cut to 32 bits.\<close>

definition set_duid :: "nat \<Rightarrow> bytes \<Rightarrow> bytes" where
  "set_duid seconds addr =
     (let duid = replicate (length addr + 8) 0;
          duid = copy_over duid [0, 1];
          duid = take 2 duid @ copy_over (drop 2 duid) [0, 1];
          duid = take 4 duid @ copy_over (drop 4 duid) (put32 (word_of_nat seconds))
      in take 8 duid @ copy_over (drop 8 duid) addr)"

lemma copy_at:
  assumes "length xs = n" and "length old = length src"
  shows "take n (xs @ old @ zs) @ copy_over (drop n (xs @ old @ zs)) src = xs @ src @ zs"
  using assms by (simp add: copy_over_def)

lemma set_duid_eq: "set_duid seconds addr = [0, 1, 0, 1] @ put32 (word_of_nat seconds) @ addr"
proof -
  let ?t = "put32 (word_of_nat seconds)" and ?z = "replicate (length addr) (0 :: byte)"
  have start: "replicate (length addr + 8) (0 :: byte) = [] @ [0, 0] @ [0, 0] @ [0, 0, 0, 0] @ ?z"
    by (simp only: add.commute [of _ 8] replicate_add) simp
  have "copy_over ([] @ [0, 0] @ [0, 0] @ [0, 0, 0, 0] @ ?z) [0, 1] = [0, 1] @ [0, 0] @ [0, 0, 0, 0] @ ?z"
    using copy_at [of "[]" 0 "[0, 0]" "[0, 1]"] by simp
  moreover have "take 2 ([0, 1] @ [0, 0] @ [0, 0, 0, 0] @ ?z) @
      copy_over (drop 2 ([0, 1] @ [0, 0] @ [0, 0, 0, 0] @ ?z)) [0, 1] = [0, 1, 0, 1] @ [0, 0, 0, 0] @ ?z"
    using copy_at [of "[0, 1]" 2 "[0, 0]" "[0, 1]"] by simp
  moreover have "take 4 ([0, 1, 0, 1] @ [0, 0, 0, 0] @ ?z) @ copy_over (drop 4 ([0, 1, 0, 1] @ [0, 0, 0, 0] @ ?z)) ?t =
      [0, 1, 0, 1] @ ?t @ ?z"
    by (rule copy_at) simp_all
  moreover have "take 8 (([0, 1, 0, 1] @ ?t) @ ?z @ []) @ copy_over (drop 8 (([0, 1, 0, 1] @ ?t) @ ?z @ [])) addr =
      ([0, 1, 0, 1] @ ?t) @ addr @ []"
    by (rule copy_at) simp_all
  ultimately show ?thesis
    by (simp only: set_duid_def Let_def start append_assoc append_Nil2)
qed

section \<open>Serving\<close>

datatype serve_end = Waiting | Stopped recv_error | Crashed

record 'p server6 =
  Duid :: bytes
  BootConfig :: boot_configuration
  PacketBuilder :: packet_builder
  reserveOp :: "'p reserve_op"
  releaseOp :: "bytes \<Rightarrow> bytes list \<Rightarrow> 'p \<Rightarrow> 'p"

text \<open>
  What the server does with one packet: perhaps a datagram to send to the source, and the pool's new state, which is gone if the
  process crashes. \<open>ord\<close> is the order in which the runtime ranges over a map, \<open>takes\<close> tells
  whether the network takes a datagram; the log line for a sent response is built after sending.
\<close>

definition handle_packet ::
    "'p server6 \<Rightarrow> (options6 \<Rightarrow> u16 list) \<Rightarrow> (bytes \<Rightarrow> bytes \<Rightarrow> bool) \<Rightarrow> packet6 \<Rightarrow> bytes \<Rightarrow> 'p \<Rightarrow>
     (bytes \<times> bytes) list \<times> 'p option" where
  "handle_packet s ord takes pkt src pool =
     (case should_discard pkt (Duid s) of
        None \<Rightarrow> ([], None)
      | Some (Some _) \<Rightarrow> ([], Some pool)
      | Some None \<Rightarrow>
     (case human_readable (ord (Options6 pkt)) (Options6 pkt) of
        None \<Rightarrow> ([], None)
      | Some _ \<Rightarrow>
     (case build_response (reserveOp s) (releaseOp s) (PacketBuilder s) pkt (Duid s) (BootConfig s) pool of
        None \<Rightarrow> ([], None)
      | Some (None, _, pool') \<Rightarrow> ([], Some pool')
      | Some (Some response, _, pool') \<Rightarrow>
          let marshalled = marshal6 (ord (Options6 response)) response in
          if \<not> takes src marshalled then ([], Some pool')
          else ([(src, marshalled)],
            case human_readable (ord (Options6 response)) (Options6 response) of None \<Rightarrow> None | Some _ \<Rightarrow> Some pool'))))"

text \<open>A crash shows the pool as it was before the packet; what was sent before it stays sent.\<close>

function serve_dhcp6 ::
    "'p server6 \<Rightarrow> (nat \<Rightarrow> options6 \<Rightarrow> u16 list) \<Rightarrow> (bytes \<Rightarrow> bytes \<Rightarrow> bool) \<Rightarrow> nat \<Rightarrow> net_event list \<Rightarrow> 'p \<Rightarrow>
     (bytes \<times> bytes) list \<Rightarrow> serve_end \<times> 'p \<times> (bytes \<times> bytes) list" where
  "serve_dhcp6 s ord takes ifIndex es pool sent =
     (case recv_dhcp6 ifIndex es of
        None \<Rightarrow> (Waiting, pool, sent)
      | Some (Inl Panic, _) \<Rightarrow> (Crashed, pool, sent)
      | Some (Inl (Fault e), _) \<Rightarrow> (Stopped e, pool, sent)
      | Some (Inr (pkt, src), rest) \<Rightarrow>
          (case handle_packet s (ord (length es)) takes pkt src pool of
             (out, None) \<Rightarrow> (Crashed, pool, sent @ out)
           | (out, Some pool') \<Rightarrow> serve_dhcp6 s ord takes ifIndex rest pool' (sent @ out)))"
  by pat_completeness auto
termination
  by (relation "measure (\<lambda>(_, _, _, _, es, _, _). length es)") (auto dest: recv_dhcp6_shorter)

declare serve_dhcp6.simps [simp del]

section \<open>What serving keeps and sends\<close>

lemma serve_induct [case_names Wait Recv_Panic Recv_Stop Crash Serve]:
  assumes "\<And>es pool sent. recv_dhcp6 ifIndex es = None \<Longrightarrow> P es pool sent (Waiting, pool, sent)"
    and "\<And>es pool sent rest. recv_dhcp6 ifIndex es = Some (Inl Panic, rest) \<Longrightarrow> P es pool sent (Crashed, pool, sent)"
    and "\<And>es pool sent e rest. recv_dhcp6 ifIndex es = Some (Inl (Fault e), rest) \<Longrightarrow> P es pool sent (Stopped e, pool, sent)"
    and "\<And>es pool sent pkt src rest out. recv_dhcp6 ifIndex es = Some (Inr (pkt, src), rest) \<Longrightarrow>
      handle_packet s (ord (length es)) takes pkt src pool = (out, None) \<Longrightarrow> P es pool sent (Crashed, pool, sent @ out)"
    and "\<And>es pool sent pkt src rest out pool' r. recv_dhcp6 ifIndex es = Some (Inr (pkt, src), rest) \<Longrightarrow>
      handle_packet s (ord (length es)) takes pkt src pool = (out, Some pool') \<Longrightarrow>
      P rest pool' (sent @ out) r \<Longrightarrow> P es pool sent r"
  shows "P es pool sent (serve_dhcp6 s ord takes ifIndex es pool sent)"
proof (induction "length es" arbitrary: es pool sent rule: less_induct)
  case less
  show ?case
  proof (cases "recv_dhcp6 ifIndex es")
    case None
    with assms(1) show ?thesis by (subst serve_dhcp6.simps) simp
  next
    case (Some r)
    obtain x rest where r: "r = (x, rest)" by fastforce
    with Some less recv_dhcp6_shorter have IH: "P rest pool' sent' (serve_dhcp6 s ord takes ifIndex rest pool' sent')" for pool' sent'
      by blast
    show ?thesis
    proof (cases x)
      case (Inl f)
      with Some r assms(2,3) show ?thesis by (subst serve_dhcp6.simps) (cases f; simp)
    next
      case (Inr y)
      obtain pkt src where y: "y = (pkt, src)" by fastforce
      obtain out q where z: "handle_packet s (ord (length es)) takes pkt src pool = (out, q)" by fastforce
      show ?thesis
        using Some r Inr y z assms(4,5) IH by (subst serve_dhcp6.simps) (cases q; simp)
    qed
  qed
qed

text \<open>
  What one event does, with the packet it brings if it is for us; and what a list of events does, with the packets in their order.
\<close>

definition handled6 ::
    "'p server6 \<Rightarrow> (nat \<Rightarrow> options6 \<Rightarrow> u16 list) \<Rightarrow> (bytes \<Rightarrow> bytes \<Rightarrow> bool) \<Rightarrow> nat \<Rightarrow> net_event \<Rightarrow> packet6 option \<Rightarrow> 'p \<Rightarrow>
     (bytes \<times> bytes) list \<Rightarrow> 'p \<Rightarrow> bool" where
  "handled6 s ord takes ifIndex ev got pool out pool' \<longleftrightarrow>
     (case got of
        None \<Rightarrow> skipped6 ifIndex ev \<and> out = [] \<and> pool' = pool
      | Some p \<Rightarrow> \<exists>src k. received6 ifIndex ev p src \<and> handle_packet s (ord k) takes p src pool = (out, Some pool'))"

inductive all_handled for s ord takes ifIndex where
  no_event: "all_handled s ord takes ifIndex [] [] pool [] pool"
| one_event: "handled6 s ord takes ifIndex ev got pool out pool1 \<Longrightarrow> all_handled s ord takes ifIndex es gots pool1 outss pool2 \<Longrightarrow>
     all_handled s ord takes ifIndex (ev # es) (got # gots) pool (out # outss) pool2"

lemma all_handled_length:
  "all_handled s ord takes ifIndex es gots pool outss pool' \<Longrightarrow> length gots = length es \<and> length outss = length es"
  by (induction rule: all_handled.induct) simp_all

lemma all_handled_append:
  "all_handled s ord takes ifIndex es gots pool outss pool1 \<Longrightarrow> all_handled s ord takes ifIndex es' gots' pool1 outss' pool2 \<Longrightarrow>
     all_handled s ord takes ifIndex (es @ es') (gots @ gots') pool (outss @ outss') pool2"
  by (induction rule: all_handled.induct) (auto intro: one_event)

lemma all_skipped:
  "\<forall>ev \<in> set es. skipped6 ifIndex ev \<Longrightarrow>
     all_handled s ord takes ifIndex es (replicate (length es) None) pool (replicate (length es) []) pool"
  by (induction es) (auto simp: handled6_def intro: all_handled.intros)

lemma all_handled_nth:
  "all_handled s ord takes ifIndex es gots pool outss pool' \<Longrightarrow> i < length es \<Longrightarrow> \<exists>pool1 pool2.
     all_handled s ord takes ifIndex (take i es) (take i gots) pool (take i outss) pool1 \<and>
     handled6 s ord takes ifIndex (es ! i) (gots ! i) pool1 (outss ! i) pool2"
proof (induction arbitrary: i rule: all_handled.induct)
  case (one_event ev got pool out pool1 es gots outss pool2)
  show ?case
  proof (cases i)
    case 0
    with one_event(1) show ?thesis by (auto intro: no_event)
  next
    case (Suc j)
    with one_event.prems one_event.IH [of j] one_event(1) show ?thesis by (auto intro: all_handled.one_event)
  qed
qed simp

text \<open>
  A run handles events one after the other: all of them if it waits for more, otherwise those before the one that ends it. The
  last thing a crashing server may do is to send the answer to the packet that makes it crash.
\<close>

definition crashed_on ::
    "'p server6 \<Rightarrow> (nat \<Rightarrow> options6 \<Rightarrow> u16 list) \<Rightarrow> (bytes \<Rightarrow> bytes \<Rightarrow> bool) \<Rightarrow> nat \<Rightarrow> net_event list \<Rightarrow> 'p \<Rightarrow> (bytes \<times> bytes) list \<Rightarrow> bool" where
  "crashed_on s ord takes ifIndex es pool fin \<longleftrightarrow> (\<exists>ev rest p src k. es = ev # rest \<and> received6 ifIndex ev p src \<and>
     handle_packet s (ord k) takes p src pool = (fin, None))"

lemma serve_run:
  assumes "serve_dhcp6 s ord takes ifIndex es pool sent = (r, pool', sent')"
  shows "\<exists>n gots outss fin. n \<le> length es \<and> (r = Waiting \<longrightarrow> n = length es) \<and>
    all_handled s ord takes ifIndex (take n es) gots pool outss pool' \<and> sent' = sent @ concat outss @ fin \<and>
    (fin = [] \<or> crashed_on s ord takes ifIndex (drop n es) pool' fin)"
proof -
  let ?P = "\<lambda>es pool sent (r, pool', sent'). \<exists>n gots outss fin. n \<le> length es \<and> (r = Waiting \<longrightarrow> n = length es) \<and>
    all_handled s ord takes ifIndex (take n es) gots pool outss pool' \<and> sent' = sent @ concat outss @ fin \<and>
    (fin = [] \<or> crashed_on s ord takes ifIndex (drop n es) pool' fin)"
  have "?P es pool sent (serve_dhcp6 s ord takes ifIndex es pool sent)"
  proof (induction es pool sent rule: serve_induct [where s = s and ord = ord and takes = takes and ifIndex = ifIndex])
    case (Wait es pool sent)
    then have "\<forall>ev \<in> set es. skipped6 ifIndex ev" using recv_events by blast
    from all_skipped [OF this] show ?case
      by (simp, intro exI [of _ "length es"] exI [of _ "replicate (length es) None"] exI [of _ "replicate (length es) []"]) simp
  next
    case (Recv_Panic es pool sent rest)
    show ?case by (simp only: prod.case, intro exI [of _ 0] exI [of _ "[]"]) (simp add: no_event)
  next
    case (Recv_Stop es pool sent e rest)
    show ?case by (simp only: prod.case, intro exI [of _ 0] exI [of _ "[]"]) (simp add: no_event)
  next
    case (Crash es pool sent pkt src rest out)
    then obtain pre ev where es: "es = pre @ ev # rest" "\<forall>ev \<in> set pre. skipped6 ifIndex ev" "received6 ifIndex ev pkt src"
      using recv_events [of ifIndex es] by blast
    have "crashed_on s ord takes ifIndex (drop (length pre) es) pool out"
      unfolding crashed_on_def using Crash(2) es(3) by (auto simp: es(1))
    then show ?case
      using all_skipped [OF es(2)]
      by (simp, intro exI [of _ "length pre"] exI [of _ "replicate (length pre) None"] exI [of _ "replicate (length pre) []"]
          conjI exI [of _ out]) (simp_all add: es(1))
  next
    case (Serve es pool sent pkt src rest out pool1 r)
    then obtain pre ev where es: "es = pre @ ev # rest" "\<forall>ev \<in> set pre. skipped6 ifIndex ev" "received6 ifIndex ev pkt src"
      using recv_events [of ifIndex es] by blast
    obtain x pool2 sent2 where r: "r = (x, pool2, sent2)" by (cases r)
    with Serve.IH obtain n gots outss fin where n: "n \<le> length rest" "x = Waiting \<longrightarrow> n = length rest"
        "all_handled s ord takes ifIndex (take n rest) gots pool1 outss pool2" "sent2 = (sent @ out) @ concat outss @ fin"
        "fin = [] \<or> crashed_on s ord takes ifIndex (drop n rest) pool2 fin"
      by auto
    have "handled6 s ord takes ifIndex ev (Some pkt) pool out pool1" using Serve(2) es(3) by (auto simp: handled6_def)
    with n(3) have "all_handled s ord takes ifIndex (pre @ ev # take n rest) (replicate (length pre) None @ Some pkt # gots) pool
        (replicate (length pre) [] @ out # outss) pool2"
      by (intro all_handled_append [OF all_skipped [OF es(2)]] one_event)
    moreover have "take (length pre + Suc n) es = pre @ ev # take n rest" "drop (length pre + Suc n) es = drop n rest"
      by (simp_all add: es(1))
    ultimately show ?case
      unfolding r using n(1,2,4,5)
      by (simp only: prod.case, intro exI [of _ "length pre + Suc n"] exI [of _ "replicate (length pre) None @ Some pkt # gots"]
          exI [of _ "replicate (length pre) [] @ out # outss"] exI [of _ fin]) (simp add: es(1))
  qed
  then show ?thesis unfolding assms by simp
qed

text \<open>What is sent for a packet is the response to it, and only to an acceptable one; which packets get none.\<close>

lemma unanswered_response:
  assumes "build_response reserve release b p duid cfg pool = Some (None, e, pool')" and "acceptable p duid"
  shows "\<exists>err. boot_url p cfg = Some (Inl err)"
  using assms
  by (auto simp: respond_defs acceptable_def message_types bind_eq_Some_conv case_conv Let_def split: if_splits sum.splits option.splits)

lemma handle_packet_sends:
  assumes "handle_packet s ord takes p src pool = (out, q)" and "unmarshal6 (bs, []) n = Inr p"
  shows "out \<noteq> [] \<Longrightarrow> acceptable p (Duid s) \<and> (\<exists>m e pool'.
      build_response (reserveOp s) (releaseOp s) (PacketBuilder s) p (Duid s) (BootConfig s) pool = Some (Some m, e, pool') \<and>
      out = [(src, marshal6 (ord (Options6 m)) m)])"
    and "out = [] \<Longrightarrow> q \<noteq> None \<Longrightarrow> \<not> acceptable p (Duid s) \<or> (\<exists>err. boot_url p (BootConfig s) = Some (Inl err)) \<or>
      (\<exists>b. \<not> takes src b)"
proof -
  have accept: "should_discard p (Duid s) = Some None \<longleftrightarrow> acceptable p (Duid s)"
    using should_discard_iff unmarshal6_Inr(2,3) [OF assms(2)] by blast
  show "acceptable p (Duid s) \<and> (\<exists>m e pool'.
      build_response (reserveOp s) (releaseOp s) (PacketBuilder s) p (Duid s) (BootConfig s) pool = Some (Some m, e, pool') \<and>
      out = [(src, marshal6 (ord (Options6 m)) m)])" if "out \<noteq> []"
    using assms(1) that unfolding accept [symmetric]
    by (auto simp: handle_packet_def Let_def split: option.splits prod.splits if_splits)
  show "\<not> acceptable p (Duid s) \<or> (\<exists>err. boot_url p (BootConfig s) = Some (Inl err)) \<or> (\<exists>b. \<not> takes src b)" if "out = []" "q \<noteq> None"
  proof (rule ccontr)
    assume none: "\<not> (\<not> acceptable p (Duid s) \<or> (\<exists>err. boot_url p (BootConfig s) = Some (Inl err)) \<or> (\<exists>b. \<not> takes src b))"
    then have acc: "acceptable p (Duid s)" by blast
    then have "should_discard p (Duid s) = Some None" using accept by blast
    with assms(1) that none obtain e pool' where
        "build_response (reserveOp s) (releaseOp s) (PacketBuilder s) p (Duid s) (BootConfig s) pool = Some (None, e, pool')"
      by (auto simp: handle_packet_def Let_def split: option.splits prod.splits if_splits)
    from unanswered_response [OF this acc] none show False by blast
  qed
qed

text \<open>
  What a packet makes the server do to its pool: the addresses are reserved for an acceptable Solicit or Request that the
  configuration has a URL for, and given back for a Release; no other packet touches the pool.
\<close>

definition pool_calls :: "bytes \<Rightarrow> boot_configuration \<Rightarrow> packet6 \<Rightarrow> pool_op list" where
  "pool_calls duid cfg p =
     (let cid = fst (the (client_id (Options6 p))); ids = map fst (the (ia_na_ids (Options6 p))) in
      if \<not> acceptable p duid then []
      else if (Type6 p = MsgSolicit \<or> Type6 p = MsgRequest6) \<and> (\<exists>url. boot_url p cfg = Some (Inr url)) then [Reserve cid ids]
      else if Type6 p = MsgRelease6 then [Release cid ids]
      else [])"

lemma build_response_calls:
  assumes "build_response (random_reserve rng) release_addresses b p duid cfg pool = Some (r, e, pool')" and "acceptable p duid"
  shows "pool_run rng pool (pool_calls duid cfg p) pool'"
  using assms
  by (auto simp: respond_defs pool_calls_def message_types bind_eq_Some_conv case_conv Let_def random_reserve_def
      acceptable_def step_release step_reserve split: if_splits sum.splits option.splits)

lemma handle_packet_calls:
  assumes "handle_packet s ord takes p src pool = (out, Some pool')" and "unmarshal6 (bs, []) n = Inr p"
    and "reserveOp s = random_reserve rng" and "releaseOp s = release_addresses"
  shows "pool_run rng pool (pool_calls (Duid s) (BootConfig s) p) pool'"
proof -
  have accept: "should_discard p (Duid s) = Some None \<longleftrightarrow> acceptable p (Duid s)"
    using should_discard_iff unmarshal6_Inr(2,3) [OF assms(2)] by blast
  show ?thesis
  proof (cases "acceptable p (Duid s)")
    case True
    with accept assms(1) obtain r e where
        "build_response (reserveOp s) (releaseOp s) (PacketBuilder s) p (Duid s) (BootConfig s) pool = Some (r, e, pool')"
      by (auto simp: handle_packet_def Let_def split: option.splits prod.splits if_splits)
    from build_response_calls [OF this [unfolded assms(3,4)] True] show ?thesis .
  next
    case False
    with accept assms(1) have "pool' = pool"
      by (auto simp: handle_packet_def split: option.splits)
    with False show ?thesis by (simp add: pool_calls_def)
  qed
qed

text \<open>The packets the server got, event by event: none from an event that was not for it.\<close>

definition packet_log :: "nat \<Rightarrow> net_event list \<Rightarrow> packet6 option list \<Rightarrow> bool" where
  "packet_log ifIndex es gots \<longleftrightarrow> length gots \<le> length es \<and> (\<forall>i < length gots. case gots ! i of
     None \<Rightarrow> \<exists>d j dst src. es ! i = Datagram d j dst src \<and> \<not> for_us ifIndex j dst
   | Some p \<Rightarrow> \<exists>d j dst src residue. es ! i = Datagram d j dst src \<and> for_us ifIndex j dst \<and> length residue = 1500 \<and>
       unmarshal6 (copy_over residue d, []) (min (length d) 1500) = Inr p)"

definition all_calls :: "bytes \<Rightarrow> boot_configuration \<Rightarrow> packet6 option list \<Rightarrow> pool_op list" where
  "all_calls duid cfg gots = concat (map (\<lambda>got. case got of None \<Rightarrow> [] | Some p \<Rightarrow> pool_calls duid cfg p) gots)"

lemma pool_run_append: "pool_run rng p as q \<Longrightarrow> pool_run rng q bs r \<Longrightarrow> pool_run rng p (as @ bs) r"
  by (induction rule: pool_run.induct) (auto intro: run_Cons)

lemma all_handled_calls:
  "all_handled s ord takes ifIndex es gots pool outss pool' \<Longrightarrow> reserveOp s = random_reserve rng \<Longrightarrow>
     releaseOp s = release_addresses \<Longrightarrow> pool_run rng pool (all_calls (Duid s) (BootConfig s) gots) pool'"
proof (induction rule: all_handled.induct)
  case (one_event ev got pool out pool1 es gots outss pool2)
  have "pool_run rng pool (all_calls (Duid s) (BootConfig s) [got]) pool1"
    using one_event(1) handle_packet_calls [OF _ _ one_event.prems]
    by (cases got) (auto simp: handled6_def all_calls_def received6_def)
  from pool_run_append [OF this one_event.IH [OF one_event.prems]] show ?case by (simp add: all_calls_def)
qed (simp add: all_calls_def)

lemma all_handled_packets:
  assumes "all_handled s ord takes ifIndex (take n es) gots pool outss pool'" and "n \<le> length es"
  shows "packet_log ifIndex es gots"
proof -
  have len: "length gots = n" using all_handled_length [OF assms(1)] assms(2) by simp
  have "case gots ! i of
     None \<Rightarrow> \<exists>d j dst src. es ! i = Datagram d j dst src \<and> \<not> for_us ifIndex j dst
   | Some p \<Rightarrow> \<exists>d j dst src residue. es ! i = Datagram d j dst src \<and> for_us ifIndex j dst \<and> length residue = 1500 \<and>
       unmarshal6 (copy_over residue d, []) (min (length d) 1500) = Inr p" if "i < n" for i
    using all_handled_nth [OF assms(1), of i] that assms(2)
    by (auto simp: handled6_def skipped6_def received6_def split: option.splits; blast)
  with len assms(2) show ?thesis by (simp add: packet_log_def)
qed

text \<open>A pool whose errors are messages, as the builder puts them into status options.\<close>

locale answering_pool = address_pool reserve release inv key
  for reserve :: "'p reserve_op" and release :: "bytes \<Rightarrow> bytes list \<Rightarrow> 'p \<Rightarrow> 'p"
    and inv :: "'p \<Rightarrow> bool" and key :: "bytes \<Rightarrow> bytes \<Rightarrow> 'k"
begin

text \<open>Whatever arrives, serving leaves the pool's invariant intact.\<close>

lemma build_response_inv:
  assumes "build_response reserve release b p duid cfg pool = Some (r, e, pool')" and "inv pool"
  shows "inv pool'"
  using assms reserve_inv release_inv
  by (auto simp: respond_defs bind_eq_Some_conv case_conv split: if_splits)

lemma handle_packet_inv:
  assumes "handle_packet s ord takes p src pool = (out, Some pool')" and "inv pool"
    and "reserveOp s = reserve" and "releaseOp s = release"
  shows "inv pool'"
  using assms build_response_inv
  by (auto simp: handle_packet_def Let_def split: option.splits prod.splits if_splits)

lemma serve_inv:
  assumes "inv pool" and "reserveOp s = reserve" and "releaseOp s = release"
  shows "inv (fst (snd (serve_dhcp6 s ord takes ifIndex es pool sent)))"
  using assms(1)
  by (induction es pool sent rule: serve_induct [where s = s and ord = ord and takes = takes and ifIndex = ifIndex])
    (use assms(2,3) handle_packet_inv in \<open>auto\<close>)

end

interpretation answering: answering_pool "random_reserve rng" release_addresses pool_ok iaid_hash
  for rng :: "int \<Rightarrow> nat \<Rightarrow> u64"
  by unfold_locales

section \<open>Properties\<close>

text \<open>A server for the examples, and the shortest request it answers.\<close>

definition sample_server6 :: "pool server6" where
  "sample_server6 = \<lparr>Duid = [9], BootConfig = sample_configuration, PacketBuilder = sample_builder,
     reserveOp = random_reserve demo_rng, releaseOp = release_addresses\<rparr>"

lemma bare_release:
  "ifIndex = 0 \<or> i = ifIndex \<Longrightarrow> recv_dhcp6 ifIndex [Datagram [8, 1, 2, 3] i dhcp6_group src] =
     Some (Inr (\<lparr>Type6 = 8, TransactionID6 = [1, 2, 3], Options6 = Map.empty\<rparr>, src), [])"
proof -
  define z where "z = replicate 1496 (0 :: byte)"
  have "replicate 1500 (0 :: byte) = replicate 4 0 @ z"
    unfolding z_def replicate_add [symmetric] by simp
  then have buf: "copy_over (replicate 1500 0) [8, 1, 2, 3] = [8, 1, 2, 3] @ z"
    by (simp only:) (simp add: copy_over_def)
  have len: "min (length [8, 1, 2, 3 :: byte]) (length (replicate 1500 (0 :: byte))) = 4"
    by (simp only: length_replicate) simp
  have "reslice ([8, 1, 2, 3] @ z, []) 4 4 = Some ([], z)" "reslice ([8, 1, 2, 3] @ z, []) 1 4 = Some ([1, 2, 3], z)"
    by (simp_all add: reslice_visible)
  then have "unmarshal6 ([8, 1, 2, 3] @ z, []) 4 = Inr \<lparr>Type6 = 8, TransactionID6 = [1, 2, 3], Options6 = Map.empty\<rparr>"
    by (simp add: unmarshal6_def unmarshal_options_def unmarshal_loop.simps copy_over_def)
  moreover assume "ifIndex = 0 \<or> i = ifIndex"
  ultimately show ?thesis
    by (simp only: recv_dhcp6_def recv_loop_Datagram for_us_def buf len) simp
qed

text \<open>The service on that request alone.\<close>

lemma bare_release_served:
  "\<exists>d. serve_dhcp6 sample_server6 (\<lambda>_ _. []) (\<lambda>_ _. True) 0 [Datagram [8, 1, 2, 3] 1 dhcp6_group [7]] sample_pool6 []
       = (Waiting, sample_pool6, [d])"
proof -
  let ?p = "\<lparr>Type6 = 8, TransactionID6 = [1, 2, 3], Options6 = Map.empty\<rparr> :: packet6"
  have "\<exists>d. handle_packet sample_server6 (\<lambda>_. []) (\<lambda>_ _. True) ?p [7] sample_pool6 = ([d], Some sample_pool6)"
    by (simp add: handle_packet_def should_discard_def build_response_def respond_release_def message_types human_readable_def
        in_order_def client_id_def first_value_def ia_na_ids_def sample_server6_def Let_def)
  then obtain d where "handle_packet sample_server6 (\<lambda>_. []) (\<lambda>_ _. True) ?p [7] sample_pool6 = ([d], Some sample_pool6)" by blast
  then show ?thesis
    by (subst serve_dhcp6.simps) (simp add: bare_release serve_dhcp6.simps [of _ _ _ _ "[]"] recv_nothing)
qed

text \<open>
  C34. However long the server runs and whatever arrives, its address pool goes through exactly the calls the received packets ask
  for, in their order: nothing for a datagram that is not addressed to the server or a packet that fails validation, one
  reservation of the interfaces it names for an acceptable Solicit or Request that the configuration has a URL for, one
  release for a Release, nothing for anything else. No packet is left out while the server serves on: as long as it waits for more,
  every event has its place in the log. Thereby the pool keeps its invariant: all leases within the range, each under its own key.
\<close>

theorem serving_keeps_pool:
  assumes "serve_dhcp6 s ord takes ifIndex es pool sent = (r, pool', sent')"
    and "reserveOp s = random_reserve rng" and "releaseOp s = release_addresses" and "pool_ok pool"
  shows "pool_ok pool' \<and> (\<exists>gots. packet_log ifIndex es gots \<and> (r = Waiting \<longrightarrow> length gots = length es) \<and>
    pool_run rng pool (concat (map (\<lambda>got. case got of
        None \<Rightarrow> []
      | Some p \<Rightarrow>
          if acceptable p (Duid s) \<and> (Type6 p = MsgSolicit \<or> Type6 p = MsgRequest6) \<and> (\<exists>url. boot_url p (BootConfig s) = Some (Inr url))
          then [Reserve (fst (the (client_id (Options6 p)))) (map fst (the (ia_na_ids (Options6 p))))]
          else if Type6 p = MsgRelease6
          then [Release (fst (the (client_id (Options6 p)))) (map fst (the (ia_na_ids (Options6 p))))]
          else []) gots)) pool')"
proof -
  obtain n gots outss where run: "n \<le> length es" "r = Waiting \<longrightarrow> n = length es"
      "all_handled s ord takes ifIndex (take n es) gots pool outss pool'"
    using serve_run [OF assms(1)] by blast
  have calls: "pool_calls (Duid s) (BootConfig s) p =
      (if acceptable p (Duid s) \<and> (Type6 p = MsgSolicit \<or> Type6 p = MsgRequest6) \<and> (\<exists>url. boot_url p (BootConfig s) = Some (Inr url))
       then [Reserve (fst (the (client_id (Options6 p)))) (map fst (the (ia_na_ids (Options6 p))))]
       else if Type6 p = MsgRelease6
       then [Release (fst (the (client_id (Options6 p)))) (map fst (the (ia_na_ids (Options6 p))))]
       else [])" for p
    by (auto simp: pool_calls_def Let_def acceptable_def)
  have "pool_run rng pool (all_calls (Duid s) (BootConfig s) gots) pool'"
    by (rule all_handled_calls [OF run(3) assms(2,3)])
  moreover have "packet_log ifIndex es gots" "r = Waiting \<longrightarrow> length gots = length es"
    using all_handled_packets [OF run(3,1)] all_handled_length [OF run(3)] run(2) by auto
  moreover have "pool_ok pool'"
    using answering.serve_inv [OF assms(4,2,3), of ord takes ifIndex es sent] assms(1) by simp
  ultimately show ?thesis unfolding all_calls_def calls by blast
qed

theorem serving_keeps_pool_witness:
  "\<exists>r pool' sent gots. serve_dhcp6 sample_server6 (\<lambda>_ _. []) (\<lambda>_ _. True) 0 [Datagram [8, 1, 2, 3] 1 dhcp6_group [7]] sample_pool6 [] =
     (r, pool', sent) \<and> pool_ok pool' \<and> packet_log 0 [Datagram [8, 1, 2, 3] 1 dhcp6_group [7]] gots \<and> length gots = 1"
proof -
  obtain d where served: "serve_dhcp6 sample_server6 (\<lambda>_ _. []) (\<lambda>_ _. True) 0 [Datagram [8, 1, 2, 3] 1 dhcp6_group [7]] sample_pool6 []
       = (Waiting, sample_pool6, [d])"
    using bare_release_served by blast
  have "reserveOp sample_server6 = random_reserve demo_rng" "releaseOp sample_server6 = release_addresses" "pool_ok sample_pool6"
    by (simp_all add: sample_pool6_def sample_server6_def)
  from serving_keeps_pool [OF served this] served show ?thesis by auto
qed

text \<open>
  One malformed datagram ends the service: an option that claims nine bytes and has none is
  not skipped but makes the serving loop return, so that everything behind it goes unanswered.
\<close>

theorem malformed_packet_stops_server:
  "serve_dhcp6 s ord sends 0 (Datagram [1, 1, 2, 3, 0, 1, 0, 9] i dhcp6_group src # es) pool sent =
     (Stopped (BadPacket (MalformedOptions (PayloadTooShort 1 9 0))), pool, sent)"
proof -
  define z where "z = replicate 1492 (0 :: byte)"
  have "replicate 1500 (0 :: byte) = replicate 8 0 @ z"
    unfolding z_def replicate_add [symmetric] by simp
  then have buf: "copy_over (replicate 1500 0) [1, 1, 2, 3, 0, 1, 0, 9] = [1, 1, 2, 3, 0, 1, 0, 9] @ z"
    by (simp only:) (simp add: copy_over_def)
  have len: "min (length [1, 1, 2, 3, 0, 1, 0, 9 :: byte]) (length (replicate 1500 (0 :: byte))) = 8"
    by (simp only: length_replicate) simp
  have "put16 1 = [0, 1]" "put16 9 = [0, 9]" by code_simp+
  then have "unmarshal_options ([0, 1, 0, 9], z) = Inl (Fault (PayloadTooShort 1 9 0))"
    using unmarshal_loop_header [of 1 9 "[]" z] by (simp add: unmarshal_options_def)
  moreover have "reslice ([1, 1, 2, 3, 0, 1, 0, 9] @ z, []) 4 8 = Some ([0, 1, 0, 9], z)"
    by (simp add: reslice_visible)
  ultimately have "unmarshal6 ([1, 1, 2, 3, 0, 1, 0, 9] @ z, []) 8 = Inl (Fault (MalformedOptions (PayloadTooShort 1 9 0)))"
    by (simp add: unmarshal6_def)
  then have "recv_dhcp6 0 (Datagram [1, 1, 2, 3, 0, 1, 0, 9] i dhcp6_group src # es) =
      Some (Inl (Fault (BadPacket (MalformedOptions (PayloadTooShort 1 9 0)))), es)"
    by (simp only: recv_dhcp6_def recv_loop_Datagram for_us_def buf len) simp
  then show ?thesis by (subst serve_dhcp6.simps) simp
qed

end
