(* ===== verification/Tftp.thy ===== *)
theory Tftp
  imports Go_Slice Go_Std
begin

text \<open>
  The read-only TFTP server of \<^verbatim>\<open>tftp/tftp.go\<close>: parsing read requests, the lock-step
  transfer with retransmission and option negotiation, and error packets. A connection is what it
  has sent, what its successive reads will return, and which of its writes fail.
\<close>

section \<open>Strings and requests\<close>

datatype str_error = BadByte byte nat | NoTerminator

fun tftp_str_from :: "nat \<Rightarrow> bytes \<Rightarrow> str_error + string \<times> bytes" where
  "tftp_str_from i [] = Inl NoTerminator"
| "tftp_str_from i (b # bs) =
     (if b = 0 then Inr ('''', bs)
      else if b < 0x20 \<or> 0x7E < b then Inl (BadByte b i)
      else case tftp_str_from (Suc i) bs of
          Inl e \<Rightarrow> Inl e
        | Inr (s, rest) \<Rightarrow> Inr (char_of (unat b) # s, rest))"

definition tftp_str :: "bytes \<Rightarrow> str_error + string \<times> bytes" where
  "tftp_str bs = tftp_str_from 0 bs"

record rrq =
  Filename :: string
  BlockSize :: int
  WantSize :: bool

datatype rrq_error =
    NotRRQ | FilenameError str_error | ModeError str_error | UnsupportedMode string
  | OptionNameError str_error | OptionValueError string str_error
  | NonIntegerBlockSize string | UnsupportedBlockSize int

lemma tftp_str_from_shorter: "tftp_str_from i bs = Inr (s, rest) \<Longrightarrow> length rest < length bs"
  by (induction i bs arbitrary: s rule: tftp_str_from.induct) (fastforce split: if_splits sum.splits)+

function parse_options :: "bytes \<Rightarrow> rrq \<Rightarrow> rrq_error + rrq" where
  "parse_options bs req =
     (if bs = [] then Inr req
      else case tftp_str bs of
        Inl e \<Rightarrow> Inl (OptionNameError e)
      | Inr (opt, bs1) \<Rightarrow>
          (case tftp_str bs1 of
             Inl e \<Rightarrow> Inl (OptionValueError opt e)
           | Inr (val, bs2) \<Rightarrow>
               if opt \<noteq> ''blksize'' then
                 parse_options bs2 (if opt = ''tsize'' then req\<lparr>WantSize := True\<rparr> else req)
               else (case parse_int64 val of
                   None \<Rightarrow> Inl (NonIntegerBlockSize val)
                 | Some n \<Rightarrow>
                     if n < 8 \<or> 65464 < n then Inl (UnsupportedBlockSize n)
                     else parse_options bs2 (req\<lparr>BlockSize := n\<rparr>))))"
  by pat_completeness auto
termination
  by (relation "measure (\<lambda>(bs, _). length bs)") (auto simp: tftp_str_def dest!: tftp_str_from_shorter)

declare parse_options.simps [simp del]

definition parse_rrq :: "bytes \<Rightarrow> rrq_error + rrq" where
  "parse_rrq bs =
     (if length bs < 6 \<or> read16 (take 2 bs) \<noteq> Some 1 then Inl NotRRQ
      else case tftp_str (drop 2 bs) of
        Inl e \<Rightarrow> Inl (FilenameError e)
      | Inr (fname, bs1) \<Rightarrow>
          (case tftp_str bs1 of
             Inl e \<Rightarrow> Inl (ModeError e)
           | Inr (mode, bs2) \<Rightarrow>
               if mode \<noteq> ''octet'' then Inl (UnsupportedMode mode)
               else parse_options bs2 \<lparr>Filename = fname, BlockSize = 0, WantSize = False\<rparr>))"

section \<open>Error packets\<close>

text \<open>
  Ranging over a Go string decodes UTF-8: the width of the rune at the front, one byte for what is
  no valid encoding.
\<close>

definition cont_in :: "bytes \<Rightarrow> nat \<Rightarrow> byte \<Rightarrow> byte \<Rightarrow> bool" where
  "cont_in bs i lo hi \<longleftrightarrow> i < length bs \<and> lo \<le> bs ! i \<and> bs ! i \<le> hi"

definition rune_width :: "bytes \<Rightarrow> nat" where
  "rune_width bs =
     (let b = bs ! 0 in
      if b < 0xC2 \<or> 0xF4 < b then 1
      else if b < 0xE0 then (if cont_in bs 1 0x80 0xBF then 2 else 1)
      else if b < 0xF0 then
        (if cont_in bs 1 (if b = 0xE0 then 0xA0 else 0x80) (if b = 0xED then 0x9F else 0xBF) \<and> cont_in bs 2 0x80 0xBF
         then 3 else 1)
      else
        (if cont_in bs 1 (if b = 0xF0 then 0x90 else 0x80) (if b = 0xF4 then 0x8F else 0xBF) \<and>
            cont_in bs 2 0x80 0xBF \<and> cont_in bs 3 0x80 0xBF
         then 4 else 1))"

lemma rune_width_pos: "0 < rune_width bs"
  by (simp add: rune_width_def Let_def)

definition error_rune :: "byte \<Rightarrow> bytes" where
  "error_rune b =
     (if 0x20 \<le> b \<and> b \<le> 0x7E then [b]
      else if b = 13 then []
      else if b = 10 then [13, 10]
      else [63])"

function error_text :: "bytes \<Rightarrow> bytes" where
  "error_text bs = (if bs = [] then [] else error_rune (bs ! 0) @ error_text (drop (rune_width bs) bs))"
  by pat_completeness auto
termination
  by (relation "measure length") (auto simp: rune_width_pos)

declare error_text.simps [simp del]

definition max_error_size :: nat where "max_error_size = 500"

definition tftp_error :: "string \<Rightarrow> bytes" where
  "tftp_error msg =
     (let bs = bytes_of msg; bs = (if max_error_size < length bs then take max_error_size bs else bs)
      in [0, 5, 0, 0] @ error_text bs @ [0])"

section \<open>Sending with retransmission\<close>

datatype read_event = Received bytes | TimedOut | Broken string

record conn =
  sent :: "bytes list"
  reads_left :: "read_event list"
  refuses :: "nat \<Rightarrow> string option"

definition conn_write :: "bytes \<Rightarrow> conn \<Rightarrow> string + conn" where
  "conn_write b c =
     (case refuses c (length (sent c)) of None \<Rightarrow> Inr (c\<lparr>sent := sent c @ [b]\<rparr>) | Some e \<Rightarrow> Inl e)"

datatype send_error = WriteError string | ReadError string | ClientAborted string | NoAck

text \<open>The reads of one attempt; without further datagrams the deadline passes.\<close>

datatype ack_result = Acked | Retry | Failed send_error

definition abort_message :: "bytes \<Rightarrow> string" where
  "abort_message recv = (case tftp_str (drop 4 recv) of Inl _ \<Rightarrow> '''' | Inr (msg, _) \<Rightarrow> msg)"

fun await_ack :: "u16 \<Rightarrow> bytes \<Rightarrow> read_event list \<Rightarrow> ack_result \<times> read_event list" where
  "await_ack seq recv [] = (Retry, [])"
| "await_ack seq recv (TimedOut # es) = (Retry, es)"
| "await_ack seq recv (Broken e # es) = (Failed (ReadError e), es)"
| "await_ack seq recv (Received d # es) =
     (let recv = copy_over recv d; n = min (length d) (length recv) in
      if n < 4 then await_ack seq recv es
      else if read16 (take 2 recv) = Some 4 then
        (if read16 (take 2 (drop 2 recv)) = Some seq then (Acked, es) else await_ack seq recv es)
      else if read16 (take 2 recv) = Some 5 then (Failed (ClientAborted (abort_message recv)), es)
      else await_ack seq recv es)"

fun attempt_loop :: "nat \<Rightarrow> bytes \<Rightarrow> u16 \<Rightarrow> conn \<Rightarrow> send_error option \<times> conn" where
  "attempt_loop 0 b seq c = (Some NoAck, c)"
| "attempt_loop (Suc k) b seq c =
     (case conn_write b c of
        Inl e \<Rightarrow> (Some (WriteError e), c)
      | Inr c1 \<Rightarrow>
          (case await_ack seq (replicate 256 0) (reads_left c1) of
             (Acked, es) \<Rightarrow> (None, c1\<lparr>reads_left := es\<rparr>)
           | (Retry, es) \<Rightarrow> attempt_loop k b seq (c1\<lparr>reads_left := es\<rparr>)
           | (Failed e, es) \<Rightarrow> (Some e, c1\<lparr>reads_left := es\<rparr>)))"

text \<open>
  The server's settings. Durations are nanoseconds; here the timeout has no effect beyond the events \<open>TimedOut\<close>, and
  \<^verbatim>\<open>Tftp_Time\<close> shows when they occur.
\<close>

record tftp_server =
  WriteTimeout :: int
  WriteAttempts :: int
  MaxBlockSize :: int

abbreviation (input) DefaultWriteTimeout :: nat where "DefaultWriteTimeout \<equiv> 2 * 10 ^ 9"
abbreviation (input) DefaultWriteAttempts :: nat where "DefaultWriteAttempts \<equiv> 5"
abbreviation (input) DefaultBlockSize :: int where "DefaultBlockSize \<equiv> 1450"

definition write_timeout :: "tftp_server \<Rightarrow> nat" where
  "write_timeout s = (if WriteTimeout s \<le> 0 then DefaultWriteTimeout else nat (WriteTimeout s))"

definition write_attempts :: "tftp_server \<Rightarrow> nat" where
  "write_attempts s = (if WriteAttempts s \<le> 0 then DefaultWriteAttempts else nat (WriteAttempts s))"

definition max_block_size :: "tftp_server \<Rightarrow> int" where
  "max_block_size s = (if MaxBlockSize s \<le> 0 then DefaultBlockSize else MaxBlockSize s)"

definition tftp_send :: "tftp_server \<Rightarrow> conn \<Rightarrow> bytes \<Rightarrow> u16 \<Rightarrow> send_error option \<times> conn" where
  "tftp_send s c b seq = attempt_loop (write_attempts s) b seq c"

section \<open>The transfer\<close>

text \<open>A file to read: its bytes, and the error met behind them if the reading does not end well.\<close>

type_synonym source = "bytes \<times> string option"

text \<open>\<^verbatim>\<open>io.CopyN\<close>: the bytes copied, what is left, and an error other than \<^verbatim>\<open>io.EOF\<close>.\<close>

definition copy_n :: "source \<Rightarrow> nat \<Rightarrow> bytes \<times> source \<times> string option" where
  "copy_n f n =
     (take n (fst f), (drop n (fst f), snd f), if n \<le> length (fst f) then None else snd f)"

datatype transfer_error =
  HandlerError string | OackError send_error | BlockReadError u16 string | BlockSendError u16 send_error

definition data_packet :: "u16 \<Rightarrow> bytes \<Rightarrow> bytes" where
  "data_packet seq payload = [0, 3] @ put16 seq @ payload"

definition oack_packet :: "rrq \<Rightarrow> int \<Rightarrow> bytes" where
  "oack_packet req fileSize =
     [0, 6] @
     (if BlockSize req \<noteq> 0 then bytes_of ''blksize'' @ [0] @ bytes_of (format_int (BlockSize req)) @ [0] else []) @
     (if WantSize req \<and> fileSize \<noteq> 0 then bytes_of ''tsize'' @ [0] @ bytes_of (format_int fileSize) @ [0] else [])"

text \<open>Writes whose result the code ignores.\<close>

definition write_ignoring :: "bytes \<Rightarrow> conn \<Rightarrow> conn" where
  "write_ignoring b c = (case conn_write b c of Inl _ \<Rightarrow> c | Inr c' \<Rightarrow> c')"

text \<open>A block size of zero bytes does not occur; the guard only makes the recursion well founded.\<close>

function data_loop :: "tftp_server \<Rightarrow> nat \<Rightarrow> u16 \<Rightarrow> source \<Rightarrow> conn \<Rightarrow> transfer_error option \<times> conn" where
  "data_loop s blockSize seq f c =
     (case copy_n f blockSize of
        (_, _, Some e) \<Rightarrow> (Some (BlockReadError seq e), write_ignoring (tftp_error ''internal server error'') c)
      | (payload, f', None) \<Rightarrow>
          (case tftp_send s c (data_packet seq payload) seq of
             (Some e, c') \<Rightarrow> (Some (BlockSendError seq e), write_ignoring (tftp_error ''timeout'') c')
           | (None, c') \<Rightarrow>
               if length payload < blockSize \<or> blockSize = 0 then (None, c')
               else data_loop s blockSize (seq + 1) f' c'))"
  by pat_completeness auto
termination
  by (relation "measure (\<lambda>(_, _, _, f, _). length (fst f))") (auto simp: copy_n_def)

declare data_loop.simps [simp del]

definition negotiate :: "tftp_server \<Rightarrow> rrq \<Rightarrow> rrq" where
  "negotiate s req =
     (if BlockSize req \<noteq> 0 \<and> max_block_size s < BlockSize req then req\<lparr>BlockSize := max_block_size s\<rparr> else req)"

definition wants_oack :: "rrq \<Rightarrow> int \<Rightarrow> bool" where
  "wants_oack req fileSize \<longleftrightarrow> BlockSize req \<noteq> 0 \<or> (WantSize req \<and> fileSize \<noteq> 0)"

definition transfer ::
    "tftp_server \<Rightarrow> (string \<Rightarrow> string + source \<times> int) \<Rightarrow> rrq \<Rightarrow> conn \<Rightarrow> transfer_error option \<times> conn" where
  "transfer s handler req c =
     (case handler (Filename req) of
        Inl e \<Rightarrow> (Some (HandlerError e), write_ignoring (tftp_error ''failed to get file'') c)
      | Inr (f, fileSize) \<Rightarrow>
          (let wants = wants_oack req fileSize;
               req1 = (if wants then negotiate s req else req);
               (e, c1) = (if wants then tftp_send s c (oack_packet req1 fileSize) 0 else (None, c))
           in case e of
                Some err \<Rightarrow> (Some (OackError err), c1)
              | None \<Rightarrow> data_loop s (nat (if BlockSize req1 = 0 then 512 else BlockSize req1)) 1 f c1))"

section \<open>Facts about strings and requests\<close>

lemma tftp_str_from_netascii:
  "netascii s \<Longrightarrow> tftp_str_from i (bytes_of s @ 0 # rest) = Inr (s, rest)"
proof (induction s arbitrary: i)
  case (Cons c s)
  let ?b = "word_of_nat (of_char c) :: byte"
  have n: "unat ?b = of_char c"
    by (simp add: unat_of_nat of_char_less take_bit_eq_mod)
  with Cons.prems have "?b \<noteq> 0" "\<not> ?b < 0x20" "\<not> 0x7E < ?b"
    by (auto simp: netascii_def word_less_nat_alt unat_eq_0 [symmetric])
  moreover have "tftp_str_from (Suc i) (bytes_of s @ 0 # rest) = Inr (s, rest)"
    using Cons by (simp add: netascii_def)
  ultimately show ?case using n by (simp add: bytes_of_def)
qed simp

lemma tftp_str_netascii: "netascii s \<Longrightarrow> tftp_str (bytes_of s @ 0 # rest) = Inr (s, rest)"
  by (simp add: tftp_str_def tftp_str_from_netascii)

lemma tftp_str_from_Inr:
  "tftp_str_from i bs = Inr (s, rest) \<Longrightarrow> netascii s \<and> bs = bytes_of s @ 0 # rest"
proof (induction i bs arbitrary: s rule: tftp_str_from.induct)
  case (2 i b bs)
  show ?case
  proof (cases "b = 0")
    case True
    with 2 show ?thesis by (simp add: netascii_def)
  next
    case False
    with "2.prems" obtain s' where s': "tftp_str_from (Suc i) bs = Inr (s', rest)" "s = char_of (unat b) # s'"
      and range: "\<not> b < 0x20" "\<not> 0x7E < b"
      by (auto split: if_splits sum.splits)
    have "netascii s'" "bs = bytes_of s' @ 0 # rest"
      using "2.IH" [OF False _ s'(1)] range by auto
    moreover have "0x20 \<le> unat b" "unat b \<le> 0x7E"
      using range by (simp_all add: word_less_nat_alt not_less)
    ultimately show ?thesis
      using s'(2) by (simp add: netascii_def bytes_of_def)
  qed
qed simp

lemma tftp_str_Inr: "tftp_str bs = Inr (s, rest) \<Longrightarrow> netascii s \<and> bs = bytes_of s @ 0 # rest"
  unfolding tftp_str_def by (rule tftp_str_from_Inr)

lemma parse_options_keeps:
  assumes "parse_options bs req = Inr req'"
  shows "Filename req' = Filename req \<and> (BlockSize req' = BlockSize req \<or> 8 \<le> BlockSize req' \<and> BlockSize req' \<le> 65464)"
  using assms
proof (induction "length bs" arbitrary: bs req rule: less_induct)
  case less
  show ?case
  proof (cases "bs = []")
    case True
    with less.prems show ?thesis by (simp add: parse_options.simps)
  next
    case False
    with less.prems obtain opt bs1 where t1: "tftp_str bs = Inr (opt, bs1)"
      by (subst (asm) parse_options.simps) (auto split: sum.splits)
    with False less.prems obtain val bs2 where t2: "tftp_str bs1 = Inr (val, bs2)"
      by (subst (asm) parse_options.simps) (auto split: sum.splits)
    have shorter: "length bs2 < length bs"
      using tftp_str_from_shorter [OF t1 [unfolded tftp_str_def]] tftp_str_from_shorter [OF t2 [unfolded tftp_str_def]]
      by simp
    note next_req = less.hyps [OF shorter]
    show ?thesis
    proof (cases "opt = ''blksize''")
      case False
      with \<open>bs \<noteq> []\<close> less.prems t1 t2
      have "parse_options bs2 (if opt = ''tsize'' then req\<lparr>WantSize := True\<rparr> else req) = Inr req'"
        by (subst (asm) parse_options.simps) simp
      from next_req [OF this] show ?thesis by (cases "opt = ''tsize''") simp_all
    next
      case True
      with \<open>bs \<noteq> []\<close> t1 t2 have "parse_options bs req = (case parse_int64 val of
          None \<Rightarrow> Inl (NonIntegerBlockSize val)
        | Some n \<Rightarrow> if n < 8 \<or> 65464 < n then Inl (UnsupportedBlockSize n) else parse_options bs2 (req\<lparr>BlockSize := n\<rparr>))"
        by (subst parse_options.simps) simp
      with less.prems obtain n where "8 \<le> n" "n \<le> 65464" "parse_options bs2 (req\<lparr>BlockSize := n\<rparr>) = Inr req'"
        by (auto simp: not_less split: option.splits if_splits)
      with next_req [OF this(3)] show ?thesis by auto
    qed
  qed
qed

text \<open>A request as a client writes it: options in any order, one of each at most here.\<close>

definition encode_option :: "string \<Rightarrow> string \<Rightarrow> bytes" where
  "encode_option name val = bytes_of name @ 0 # bytes_of val @ [0]"

definition encode_rrq :: "rrq \<Rightarrow> bytes" where
  "encode_rrq r =
     [0, 1] @ encode_option (Filename r) ''octet'' @
     (if BlockSize r = 0 then [] else encode_option ''blksize'' (format_int (BlockSize r))) @
     (if WantSize r then encode_option ''tsize'' ''0'' else [])"

lemma parse_options_step:
  assumes "netascii name" and "netascii val"
  shows "parse_options (encode_option name val @ bs) req =
    (if name \<noteq> ''blksize'' then parse_options bs (if name = ''tsize'' then req\<lparr>WantSize := True\<rparr> else req)
     else (case parse_int64 val of
         None \<Rightarrow> Inl (NonIntegerBlockSize val)
       | Some n \<Rightarrow> if n < 8 \<or> 65464 < n then Inl (UnsupportedBlockSize n) else parse_options bs (req\<lparr>BlockSize := n\<rparr>)))"
  using assms by (subst parse_options.simps) (simp add: encode_option_def tftp_str_netascii)

lemma netascii_literals: "netascii ''octet''" "netascii ''blksize''" "netascii ''tsize''" "netascii ''0''"
  by (simp_all add: netascii_def)

lemma parse_encoded_rrq:
  assumes "netascii (Filename r)" and "BlockSize r = 0 \<or> 8 \<le> BlockSize r \<and> BlockSize r \<le> 65464"
  shows "parse_rrq (encode_rrq r) = Inr r"
proof -
  let ?opts = "(if BlockSize r = 0 then [] else encode_option ''blksize'' (format_int (BlockSize r))) @
     (if WantSize r then encode_option ''tsize'' ''0'' else [])"
  have "netascii (format_int (BlockSize r))" if "8 \<le> BlockSize r"
    using that by (simp add: format_int_def netascii_digits)
  moreover have "parse_int64 (format_int (BlockSize r)) = Some (BlockSize r)" if "8 \<le> BlockSize r" "BlockSize r \<le> 65464"
    using that by (intro parse_int64_format_int) simp_all
  ultimately have "parse_options ?opts \<lparr>Filename = Filename r, BlockSize = 0, WantSize = False\<rparr> = Inr r"
    using assms(2) parse_options_step [OF netascii_literals(2)] parse_options_step [OF netascii_literals(3,4), of "[]"]
      parse_options_step [OF netascii_literals(2), of _ "[]"]
    by (auto simp: parse_options.simps [of "[]"])
  moreover have "take 2 (encode_rrq r) = put16 1" by (simp add: encode_rrq_def put16_def)
  ultimately show ?thesis
    using assms(1) netascii_literals(1)
    by (simp add: parse_rrq_def encode_rrq_def encode_option_def tftp_str_netascii)
qed

section \<open>Facts about sending\<close>

definition acknowledges :: "u16 \<Rightarrow> bytes \<Rightarrow> bool" where
  "acknowledges seq d \<longleftrightarrow> 4 \<le> length d \<and> take 4 d = [0, 4] @ put16 seq"

lemma copy_over_head:
  assumes "length src \<le> length dst" and "n \<le> length src" shows "take n (copy_over dst src) = take n src"
  using assms by (simp add: copy_over_def)

lemma read16_eq_iff: "length bs = 2 \<Longrightarrow> read16 bs = Some w \<longleftrightarrow> bs = put16 w"
  using put16_be16 by (auto simp: length_2_conv)

definition ack_seen :: "u16 \<Rightarrow> bytes \<Rightarrow> bool" where
  "ack_seen seq recv \<longleftrightarrow> read16 (take 2 recv) = Some 4 \<and> read16 (take 2 (drop 2 recv)) = Some seq"

lemma await_ack_Received:
  "await_ack seq recv (Received d # es) =
     (if min (length d) (length recv) < 4 then await_ack seq (copy_over recv d) es
      else if ack_seen seq (copy_over recv d) then (Acked, es)
      else if read16 (take 2 (copy_over recv d)) = Some 5 then (Failed (ClientAborted (abort_message (copy_over recv d))), es)
      else await_ack seq (copy_over recv d) es)"
  by (simp add: ack_seen_def Let_def)

declare await_ack.simps(4) [simp del]

lemma ack_seen_acknowledges:
  assumes "ack_seen seq (copy_over recv d)" and "length recv = 256" and "4 \<le> length d"
  shows "acknowledges seq d"
proof -
  let ?r = "copy_over recv d"
  have four: "take 4 ?r = take 4 d" using assms(2,3) by (simp add: copy_over_def min_def)
  have "take 2 ?r = put16 4" "take 2 (drop 2 ?r) = put16 seq"
    using assms(1,2) by (simp_all add: ack_seen_def read16_eq_iff)
  then have "take 4 ?r = put16 4 @ put16 seq"
    using take_add [of 2 2 ?r] by simp
  moreover have "put16 4 = [0, 4]" by code_simp
  ultimately show ?thesis using four assms(3) by (simp add: acknowledges_def)
qed

lemma await_ack_consumes:
  assumes "await_ack seq recv es = (r, es')" and "length recv = 256"
  shows "\<exists>used. es = used @ es' \<and> (r = Acked \<longrightarrow> (\<exists>d. Received d \<in> set used \<and> acknowledges seq d))"
  using assms
proof (induction es arbitrary: recv)
  case (Cons ev es)
  show ?case
  proof (cases ev)
    case (Received d)
    let ?r = "copy_over recv d"
    show ?thesis
    proof (cases "4 \<le> length d \<and> (ack_seen seq ?r \<or> read16 (take 2 ?r) = Some 5)")
      case True
      with Cons.prems Received have "es' = es" "r = Acked \<longrightarrow> ack_seen seq ?r"
        by (auto simp: await_ack_Received split: if_splits)
      with True Cons.prems(2) Received ack_seen_acknowledges show ?thesis
        by (intro exI [of _ "[ev]"]) auto
    next
      case False
      with Cons.prems Received have "await_ack seq ?r es = (r, es')"
        by (auto simp: await_ack_Received split: if_splits)
      with Cons.IH [of ?r] Cons.prems(2) obtain used where "es = used @ es'"
        "r = Acked \<longrightarrow> (\<exists>d. Received d \<in> set used \<and> acknowledges seq d)" by auto
      then show ?thesis by (intro exI [of _ "ev # used"]) auto
    qed
  qed (use Cons.prems in \<open>auto intro: exI [of _ "[ev]"]\<close>)
qed simp

text \<open>
  What sending one packet does, whether it succeeds or not: some copies of it go out, at most one
  per attempt, and success means that its acknowledgement was read.
\<close>

lemma attempt_loop_sends:
  assumes "attempt_loop k b seq c = (r, c')"
  shows "\<exists>m used. m \<le> k \<and> sent c' = sent c @ replicate m b \<and> reads_left c = used @ reads_left c' \<and> refuses c' = refuses c \<and>
    (r = None \<longrightarrow> 1 \<le> m \<and> (\<exists>d. Received d \<in> set used \<and> acknowledges seq d))"
  using assms
proof (induction k b seq c rule: attempt_loop.induct)
  case (2 k b seq c)
  show ?case
  proof (cases "conn_write b c")
    case (Inl e)
    with "2.prems" show ?thesis by auto
  next
    case (Inr c1)
    then have c1: "sent c1 = sent c @ [b]" "reads_left c1 = reads_left c" "refuses c1 = refuses c"
      by (auto simp: conn_write_def split: option.splits)
    obtain a es where a: "await_ack seq (replicate 256 0) (reads_left c1) = (a, es)" by fastforce
    from await_ack_consumes [OF this length_replicate] c1(2) obtain used where
      used: "reads_left c = used @ es" "a = Acked \<longrightarrow> (\<exists>d. Received d \<in> set used \<and> acknowledges seq d)" by auto
    show ?thesis
    proof (cases a)
      case Retry
      let ?c2 = "c1\<lparr>reads_left := es\<rparr>"
      from "2.prems" Inr a Retry have "attempt_loop k b seq ?c2 = (r, c')" by (simp del: replicate_numeral)
      from "2.IH" [OF Inr a [symmetric] Retry this] obtain m used' where m: "m \<le> k" "sent c' = sent ?c2 @ replicate m b"
        "reads_left ?c2 = used' @ reads_left c'" "refuses c' = refuses ?c2"
        "r = None \<longrightarrow> 1 \<le> m \<and> (\<exists>d. Received d \<in> set used' \<and> acknowledges seq d)" by blast
      then show ?thesis
        using c1 used by (intro exI [of _ "Suc m"] exI [of _ "used @ used'"]) auto
    next
      case Acked
      with "2.prems" Inr a c1 used show ?thesis
        by (intro exI [of _ 1] exI [of _ used]) (auto simp del: replicate_numeral)
    next
      case (Failed e)
      with "2.prems" Inr a c1 used show ?thesis
        by (intro exI [of _ 1] exI [of _ used]) (auto simp del: replicate_numeral)
    qed
  qed
qed auto

lemma tftp_send_sends:
  assumes "tftp_send s c b seq = (r, c')"
  shows "\<exists>m used. m \<le> write_attempts s \<and> sent c' = sent c @ replicate m b \<and> reads_left c = used @ reads_left c' \<and>
    refuses c' = refuses c \<and> (r = None \<longrightarrow> 1 \<le> m \<and> (\<exists>d. Received d \<in> set used \<and> acknowledges seq d))"
  using assms unfolding tftp_send_def by (rule attempt_loop_sends)

section \<open>The blocks of a file\<close>

function blocks :: "nat \<Rightarrow> bytes \<Rightarrow> bytes list" where
  "blocks n content =
     (if length content < n \<or> n = 0 then [content] else take n content # blocks n (drop n content))"
  by pat_completeness auto
termination by (relation "measure (\<lambda>(n, content). length content)") auto

declare blocks.simps [simp del]

fun numbered :: "u16 \<Rightarrow> bytes list \<Rightarrow> bytes list" where
  "numbered seq [] = []"
| "numbered seq (p # ps) = data_packet seq p # numbered (seq + 1) ps"

definition data_packets :: "nat \<Rightarrow> u16 \<Rightarrow> bytes \<Rightarrow> bytes list" where
  "data_packets n seq content = numbered seq (blocks n content)"

lemma length_numbered [simp]: "length (numbered seq ps) = length ps"
  by (induction seq ps rule: numbered.induct) simp_all

lemma nth_numbered: "i < length ps \<Longrightarrow> numbered seq ps ! i = data_packet (seq + word_of_nat i) (ps ! i)"
proof (induction seq ps arbitrary: i rule: numbered.induct)
  case (2 seq p ps)
  then show ?case by (cases i) (simp_all add: add.assoc)
qed simp

lemma concat_blocks: "concat (blocks n content) = content"
  by (induction n content rule: blocks.induct) (subst blocks.simps, simp)

lemma length_blocks:
  assumes "0 < n" shows "length (blocks n content) = length content div n + 1"
proof (induction "length content" arbitrary: content rule: less_induct)
  case less
  show ?case
  proof (cases "length content < n")
    case False
    then have "blocks n content = take n content # blocks n (drop n content)"
      using assms by (subst blocks.simps) simp
    then have "length (blocks n content) = Suc (length (drop n content) div n + 1)"
      using less [of "drop n content"] assms False by simp
    also have "\<dots> = length content div n + 1"
      using assms False le_div_geq [of n "length content"] by simp
    finally show ?thesis .
  next
    case True
    then show ?thesis by (subst blocks.simps) simp
  qed
qed

lemma data_packets_rec:
  "data_packets n seq content =
     (if length content < n \<or> n = 0 then [data_packet seq content]
      else data_packet seq (take n content) # data_packets n (seq + 1) (drop n content))"
  unfolding data_packets_def by (subst blocks.simps) simp

text \<open>Copies of packets, in order: what retransmission puts on the wire.\<close>

definition copies :: "nat list \<Rightarrow> bytes list \<Rightarrow> bytes list" where
  "copies ms packets = concat (map2 replicate ms packets)"

lemma copies_simps [simp]:
  "copies [] ps = []" "copies (m # ms) (p # ps) = replicate m p @ copies ms ps"
  by (simp_all add: copies_def)

lemma write_ignoring_tail: "\<exists>tail. sent (write_ignoring b c) = sent c @ tail \<and> (tail = [] \<or> tail = [b])"
  by (auto simp: write_ignoring_def conn_write_def split: option.split)

text \<open>The wire after a data loop that ended with \<open>r\<close>.\<close>

definition wire :: "tftp_server \<Rightarrow> 'e option \<Rightarrow> bytes list \<Rightarrow> conn \<Rightarrow> conn \<Rightarrow> bool" where
  "wire s r packets c c' \<longleftrightarrow>
     (\<exists>ms tail. sent c' = sent c @ copies ms packets @ tail \<and> length ms \<le> length packets \<and>
        (\<forall>m \<in> set ms. m \<le> write_attempts s) \<and> (tail = [] \<or> (\<exists>msg. tail = [tftp_error msg])) \<and>
        (r = None \<longrightarrow> tail = [] \<and> length ms = length packets \<and> (\<forall>m \<in> set ms. 1 \<le> m)))"

lemma wire_fail:
  assumes "sent c' = sent c @ replicate m p" and "m \<le> write_attempts s" and "sent c2 = sent c' @ tail" and "tail = [] \<or> tail = [tftp_error msg]"
  shows "wire s (Some e) (p # ps) c c2"
  unfolding wire_def using assms by (intro exI [of _ "[m]"] exI [of _ tail]) (auto simp: copies_def)

lemma wire_error:
  assumes "sent c2 = sent c @ tail" and "tail = [] \<or> tail = [tftp_error msg]"
  shows "wire s (Some e) ps c c2"
  unfolding wire_def using assms by (intro exI [of _ "[]"] exI [of _ tail]) auto

lemma wire_last:
  assumes "sent c' = sent c @ replicate m p" and "m \<le> write_attempts s" and "1 \<le> m"
  shows "wire s None [p] c c'"
  unfolding wire_def using assms by (intro exI [of _ "[m]"] exI [of _ "[]"]) simp

lemma wire_step:
  assumes "sent c' = sent c @ replicate m p" and "m \<le> write_attempts s" and "1 \<le> m" and "wire s r ps c' c2"
  shows "wire s r (p # ps) c c2"
proof -
  from assms(4) obtain ms tail where "sent c2 = sent c' @ copies ms ps @ tail" "length ms \<le> length ps"
      "\<forall>m \<in> set ms. m \<le> write_attempts s" "tail = [] \<or> (\<exists>msg. tail = [tftp_error msg])"
      "r = None \<longrightarrow> tail = [] \<and> length ms = length ps \<and> (\<forall>m \<in> set ms. 1 \<le> m)"
    unfolding wire_def by blast
  with assms(1-3) show ?thesis
    unfolding wire_def by (intro exI [of _ "m # ms"] exI [of _ tail]) auto
qed

text \<open>
  The packets were acknowledged one after the other: the reads split into one run for each packet, in the order of the packets,
  and each run has an acknowledgement with the packet's number, zero for an option acknowledgement.
\<close>

definition ack_of :: "bytes \<Rightarrow> bytes" where
  "ack_of p = [0, 4] @ (if take 2 p = [0, 3] then take 2 (drop 2 p) else [0, 0])"

definition acked_in_order :: "bytes list \<Rightarrow> read_event list \<Rightarrow> read_event list \<Rightarrow> bool" where
  "acked_in_order ps es es' \<longleftrightarrow> (\<exists>useds. es = concat useds @ es' \<and> list_all2 (\<lambda>p used.
     \<exists>d. Received d \<in> set used \<and> take 4 d = ack_of p) ps useds)"

lemma ack_of_simps [simp]: "ack_of (data_packet seq payload) = [0, 4] @ put16 seq" "ack_of (oack_packet req fileSize) = [0, 4] @ put16 0"
proof -
  have "take 2 (put16 seq) = put16 seq" by simp
  then show "ack_of (data_packet seq payload) = [0, 4] @ put16 seq" by (simp add: ack_of_def data_packet_def)
  show "ack_of (oack_packet req fileSize) = [0, 4] @ put16 0" by (simp add: ack_of_def oack_packet_def put16_def)
qed

lemma acked_step:
  assumes "\<exists>d. Received d \<in> set used \<and> acknowledges seq d" and "ack_of p = [0, 4] @ put16 seq" and "acked_in_order ps es es'"
  shows "acked_in_order (p # ps) (used @ es) es'"
proof -
  obtain useds where "es = concat useds @ es'" "list_all2 (\<lambda>p used. \<exists>d. Received d \<in> set used \<and> take 4 d = ack_of p) ps useds"
    using assms(3) unfolding acked_in_order_def by blast
  then show ?thesis
    unfolding acked_in_order_def using assms(1,2) by (intro exI [of _ "used # useds"]) (auto simp: acknowledges_def)
qed

lemma acked_in_order_Nil: "acked_in_order [] es es"
  by (simp add: acked_in_order_def exI [of _ "[]"])

lemma data_loop_broken:
  assumes "data_loop s n seq f c = (r, c')" and "\<not> (n \<le> length (fst f) \<or> snd f = None)"
  shows "r \<noteq> None \<and> wire s r ps c c'"
proof -
  from assms(2) obtain e where "snd f = Some e" "\<not> n \<le> length (fst f)" by auto
  with assms(1) have r: "r = Some (BlockReadError seq e) \<and> c' = write_ignoring (tftp_error ''internal server error'') c"
    by (subst (asm) data_loop.simps) (auto simp: copy_n_def)
  obtain tail where "sent (write_ignoring (tftp_error ''internal server error'') c) = sent c @ tail"
      "tail = [] \<or> tail = [tftp_error ''internal server error'']"
    using write_ignoring_tail by blast
  then have "wire s (Some e') ps c (write_ignoring (tftp_error ''internal server error'') c)" for e' :: transfer_error
    by (rule wire_error)
  with r show ?thesis by simp
qed

lemma wire_timeout:
  assumes "sent c1 = sent c @ replicate m p" and "m \<le> write_attempts s"
  shows "wire s (Some e) (p # ps) c (write_ignoring (tftp_error ''timeout'') c1)"
proof -
  obtain tail where "sent (write_ignoring (tftp_error ''timeout'') c1) = sent c1 @ tail" "tail = [] \<or> tail = [tftp_error ''timeout'']"
    using write_ignoring_tail by blast
  then show ?thesis by (rule wire_fail [OF assms])
qed

lemma data_loop_wire:
  assumes "data_loop s n seq f c = (r, c')" and "0 < n"
  shows "wire s r (data_packets n seq (fst f)) c c' \<and>
    (r = None \<longrightarrow> acked_in_order (data_packets n seq (fst f)) (reads_left c) (reads_left c'))"
  using assms
proof (induction "length (fst f)" arbitrary: seq f c rule: less_induct)
  case less
  let ?content = "fst f" and ?p = "data_packet seq (take n (fst f))"
  have packets: "data_packets n seq ?content =
      ?p # (if length ?content < n then [] else data_packets n (seq + 1) (drop n ?content))"
    using less.prems(2) by (subst data_packets_rec) simp
  obtain a c1 where send: "tftp_send s c ?p seq = (a, c1)" by fastforce
  from tftp_send_sends [OF send] obtain m used where m: "m \<le> write_attempts s" "sent c1 = sent c @ replicate m ?p"
      "reads_left c = used @ reads_left c1" "refuses c1 = refuses c"
      "a = None \<longrightarrow> 1 \<le> m \<and> (\<exists>d. Received d \<in> set used \<and> acknowledges seq d)" by blast
  show ?case
  proof (cases "n \<le> length ?content \<or> snd f = None")
    case False
    with data_loop_broken [OF less.prems(1)] show ?thesis by auto
  next
    case True
    then have noerr: "copy_n f n = (take n ?content, (drop n ?content, snd f), None)" by (auto simp: copy_n_def)
    from less.prems send have loop: "(r, c') = (case a of
        Some e \<Rightarrow> (Some (BlockSendError seq e), write_ignoring (tftp_error ''timeout'') c1)
      | None \<Rightarrow> if length ?content < n then (None, c1) else data_loop s n (seq + 1) (drop n ?content, snd f) c1)"
      by (subst (asm) data_loop.simps) (cases a; auto simp: noerr)
    consider e where "a = Some e" | "a = None" "length ?content < n" | "a = None" "\<not> length ?content < n" by fastforce
    then show ?thesis
    proof cases
      case 1
      with loop wire_timeout [OF m(2,1)] show ?thesis unfolding packets by (simp split del: if_split)
    next
      case 2
      with loop m show ?thesis
        unfolding packets using wire_last [OF m(2,1)] acked_step [of used seq ?p "[]"] acked_in_order_Nil by simp
    next
      case 3
      with loop have rest: "data_loop s n (seq + 1) (drop n ?content, snd f) c1 = (r, c')" by simp
      have "length (drop n ?content) < length ?content" using 3 less.prems(2) by simp
      from less.hyps [of "(drop n ?content, snd f)", OF _ rest less.prems(2)] this
      have "wire s r (data_packets n (seq + 1) (drop n ?content)) c1 c'"
        and "r = None \<longrightarrow> acked_in_order (data_packets n (seq + 1) (drop n ?content)) (reads_left c1) (reads_left c')"
        by simp_all
      with 3 m wire_step [OF m(2,1)] acked_step [of used seq ?p] show ?thesis
        unfolding packets by simp
    qed
  qed
qed

text \<open>The packets of a whole transfer: the option acknowledgement if one is due, then the data.\<close>

definition block_bytes :: "tftp_server \<Rightarrow> rrq \<Rightarrow> nat" where
  "block_bytes s req = (if BlockSize req = 0 then 512 else nat (min (BlockSize req) (max_block_size s)))"

definition transfer_packets :: "tftp_server \<Rightarrow> rrq \<Rightarrow> int \<Rightarrow> bytes \<Rightarrow> bytes list" where
  "transfer_packets s req fileSize content =
     (if wants_oack req fileSize then [oack_packet (negotiate s req) fileSize] else []) @
     data_packets (block_bytes s req) 1 content"

lemma max_block_size_pos: "0 < max_block_size s"
  by (simp add: max_block_size_def)

lemma negotiated_size:
  "BlockSize (negotiate s req) = (if BlockSize req = 0 then 0 else min (BlockSize req) (max_block_size s))"
  "WantSize (negotiate s req) = WantSize req" "Filename (negotiate s req) = Filename req"
  by (simp_all add: negotiate_def)

lemma transfer_unfold:
  assumes "handler (Filename req) = Inr (f, fileSize)"
  shows "transfer s handler req c =
    (if wants_oack req fileSize then
       (case tftp_send s c (oack_packet (negotiate s req) fileSize) 0 of
          (Some e, c1) \<Rightarrow> (Some (OackError e), c1)
        | (None, c1) \<Rightarrow> data_loop s (block_bytes s req) 1 f c1)
     else data_loop s (block_bytes s req) 1 f c)"
proof -
  have n: "nat (if BlockSize (negotiate s req) = 0 then 512 else BlockSize (negotiate s req)) = block_bytes s req"
    using max_block_size_pos [of s] by (auto simp: negotiated_size block_bytes_def min_def)
  show ?thesis
  proof (cases "wants_oack req fileSize")
    case True
    obtain a c1 where "tftp_send s c (oack_packet (negotiate s req) fileSize) 0 = (a, c1)" by fastforce
    with True assms n show ?thesis by (cases a) (simp_all add: transfer_def)
  next
    case False
    then have "BlockSize req = 0" by (simp add: wants_oack_def)
    with False assms show ?thesis by (simp add: transfer_def block_bytes_def)
  qed
qed

lemma transfer_wire:
  assumes "handler (Filename req) = Inr (f, fileSize)" and "transfer s handler req c = (r, c')" and "0 \<le> BlockSize req"
  shows "wire s r (transfer_packets s req fileSize (fst f)) c c' \<and>
    (r = None \<longrightarrow> acked_in_order (transfer_packets s req fileSize (fst f)) (reads_left c) (reads_left c'))"
proof -
  have pos: "0 < block_bytes s req"
    using assms(3) max_block_size_pos [of s] by (auto simp: block_bytes_def)
  show ?thesis
  proof (cases "wants_oack req fileSize")
    case False
    with assms(1,2) have "data_loop s (block_bytes s req) 1 f c = (r, c')"
      by (simp add: transfer_unfold)
    with data_loop_wire [OF this pos] False show ?thesis by (simp add: transfer_packets_def)
  next
    case True
    obtain a c1 where send: "tftp_send s c (oack_packet (negotiate s req) fileSize) 0 = (a, c1)" by fastforce
    from tftp_send_sends [OF send] obtain m used where m: "m \<le> write_attempts s"
        "sent c1 = sent c @ replicate m (oack_packet (negotiate s req) fileSize)" "reads_left c = used @ reads_left c1"
        "a = None \<longrightarrow> 1 \<le> m \<and> (\<exists>d. Received d \<in> set used \<and> acknowledges 0 d)" by blast
    show ?thesis
    proof (cases a)
      case (Some e)
      with True send assms(1,2) have "r = Some (OackError e)" "c' = c1" by (simp_all add: transfer_unfold)
      with wire_fail [OF m(2,1), of c1 "[]"] True show ?thesis by (simp add: transfer_packets_def)
    next
      case None
      with True send assms(1,2) have "data_loop s (block_bytes s req) 1 f c1 = (r, c')"
        by (simp add: transfer_unfold)
      from data_loop_wire [OF this pos] have "wire s r (data_packets (block_bytes s req) 1 (fst f)) c1 c'"
          "r = None \<longrightarrow> acked_in_order (data_packets (block_bytes s req) 1 (fst f)) (reads_left c1) (reads_left c')" by blast+
      moreover have "1 \<le> m" "\<exists>d. Received d \<in> set used \<and> acknowledges 0 d" using m None by blast+
      ultimately show ?thesis
        using True m(3) wire_step [OF m(2,1)] acked_step [of used 0 "oack_packet (negotiate s req) fileSize"]
        by (simp add: transfer_packets_def)
    qed
  qed
qed

section \<open>A client that acknowledges\<close>

definition ack_packet :: "u16 \<Rightarrow> bytes" where
  "ack_packet seq = [0, 4] @ put16 seq"

lemma ack_packet_seen: "ack_seen seq (copy_over (replicate 256 0) (ack_packet seq))"
proof -
  obtain a b where w: "put16 seq = [a, b]"
    using length_put16 by (metis length_2_conv)
  have "copy_over (replicate 256 0) (ack_packet seq) = [0, 4, a, b] @ drop 4 (replicate 256 0)"
    by (simp only: ack_packet_def w copy_over_def length_replicate) simp
  moreover have "read16 [0, 4] = Some 4" by code_simp
  moreover have "read16 [a, b] = Some seq" using read16_put16' [of seq] w by simp
  ultimately show ?thesis by (simp add: ack_seen_def del: replicate_numeral)
qed

lemma send_acked:
  assumes "refuses c = (\<lambda>_. None)" and "reads_left c = Received (ack_packet seq) # es"
  shows "tftp_send s c b seq = (None, c\<lparr>sent := sent c @ [b], reads_left := es\<rparr>)"
proof -
  obtain k where k: "write_attempts s = Suc k"
    by (metis gr0_conv_Suc write_attempts_def nat_0_iff not_le zero_less_numeral zero_less_iff_neq_zero)
  have "await_ack seq (replicate 256 0) (Received (ack_packet seq) # es) = (Acked, es)"
    using ack_packet_seen [of seq] by (simp add: await_ack_Received ack_packet_def del: replicate_numeral)
  then show ?thesis
    using assms by (simp add: tftp_send_def k conn_write_def del: replicate_numeral)
qed

lemma data_loop_acked:
  assumes "refuses c = (\<lambda>_. None)" and "0 < n"
    and "reads_left c = map (\<lambda>i. Received (ack_packet (seq + word_of_nat i))) [0..<length (blocks n content)] @ es"
  shows "data_loop s n seq (content, None) c =
    (None, c\<lparr>sent := sent c @ data_packets n seq content, reads_left := es\<rparr>)"
  using assms
proof (induction "length content" arbitrary: content seq c rule: less_induct)
  case less
  let ?rest = "blocks n (drop n content)"
  have blk: "blocks n content = take n content # (if length content < n then [] else ?rest)"
    using less.prems(2) by (subst blocks.simps) simp
  then have reads: "reads_left c = Received (ack_packet seq) #
      (if length content < n then [] else map (\<lambda>i. Received (ack_packet (seq + 1 + word_of_nat i))) [0..<length ?rest]) @ es"
    using less.prems(3) by (cases "length content < n") (simp_all add: map_upt_Suc add.assoc del: upt_Suc)
  define c1 where "c1 = c\<lparr>sent := sent c @ [data_packet seq (take n content)], reads_left := tl (reads_left c)\<rparr>"
  have send: "tftp_send s c (data_packet seq (take n content)) seq = (None, c1)"
    using send_acked [OF less.prems(1) reads] reads by (simp add: c1_def)
  have packets: "data_packets n seq content =
      data_packet seq (take n content) # (if length content < n then [] else data_packets n (seq + 1) (drop n content))"
    using less.prems(2) by (subst data_packets_rec) simp
  show ?case
  proof (cases "length content < n")
    case True
    with send less.prems(2) reads packets show ?thesis
      by (subst data_loop.simps) (simp add: copy_n_def c1_def)
  next
    case False
    have "data_loop s n seq (content, None) c = data_loop s n (seq + 1) (drop n content, None) c1"
      using False send less.prems(2) by (subst data_loop.simps) (simp add: copy_n_def)
    also have "\<dots> = (None, c1\<lparr>sent := sent c1 @ data_packets n (seq + 1) (drop n content), reads_left := es\<rparr>)"
      using False less.prems reads by (intro less.hyps) (auto simp: c1_def)
    finally show ?thesis using False packets by (simp add: c1_def)
  qed
qed

lemma payloads_of_packets: "concat (map (drop 4) (data_packets n seq content)) = content"
proof -
  have "map (drop 4) (numbered seq ps) = ps" for seq ps
    by (induction seq ps rule: numbered.induct) (simp_all add: data_packet_def)
  then show ?thesis by (simp add: data_packets_def concat_blocks)
qed

lemma transfer_acked:
  assumes "handler (Filename req) = Inr ((content, None), fileSize)" and "refuses c = (\<lambda>_. None)" and "0 \<le> BlockSize req"
    and "reads_left c = (if wants_oack req fileSize then [Received (ack_packet 0)] else []) @
      map (\<lambda>i. Received (ack_packet (1 + word_of_nat i))) [0..<length (blocks (block_bytes s req) content)]"
  shows "fst (transfer s handler req c) = None \<and>
    sent (snd (transfer s handler req c)) = sent c @ transfer_packets s req fileSize content"
proof -
  have pos: "0 < block_bytes s req"
    using assms(3) max_block_size_pos [of s] by (auto simp: block_bytes_def)
  let ?acks = "map (\<lambda>i. Received (ack_packet (1 + word_of_nat i))) [0..<length (blocks (block_bytes s req) content)]"
  show ?thesis
  proof (cases "wants_oack req fileSize")
    case True
    let ?c1 = "c\<lparr>sent := sent c @ [oack_packet (negotiate s req) fileSize], reads_left := ?acks\<rparr>"
    have "tftp_send s c (oack_packet (negotiate s req) fileSize) 0 = (None, ?c1)"
      using True assms(4) by (intro send_acked [OF assms(2)]) simp
    moreover have "data_loop s (block_bytes s req) 1 (content, None) ?c1 =
        (None, ?c1\<lparr>sent := sent ?c1 @ data_packets (block_bytes s req) 1 content, reads_left := []\<rparr>)"
      using assms(2) pos by (intro data_loop_acked) simp_all
    ultimately show ?thesis
      using True assms(1) by (simp add: transfer_unfold transfer_packets_def)
  next
    case False
    have "data_loop s (block_bytes s req) 1 (content, None) c =
        (None, c\<lparr>sent := sent c @ data_packets (block_bytes s req) 1 content, reads_left := []\<rparr>)"
      using False assms(2,4) pos by (intro data_loop_acked) simp_all
    then show ?thesis
      using False assms(1) by (simp add: transfer_unfold transfer_packets_def)
  qed
qed

section \<open>Requests as a wire format\<close>

definition asks :: "rrq \<Rightarrow> bytes \<Rightarrow> bool" where
  "asks r bs \<longleftrightarrow> bs = encode_rrq r \<and> netascii (Filename r) \<and> (BlockSize r = 0 \<or> 8 \<le> BlockSize r \<and> BlockSize r \<le> 65464)"

lemma parsed_request:
  assumes "parse_rrq bs = Inr r"
  shows "netascii (Filename r) \<and> (BlockSize r = 0 \<or> 8 \<le> BlockSize r \<and> BlockSize r \<le> 65464)"
proof -
  from assms obtain fname mode bs1 bs2 where "tftp_str (drop 2 bs) = Inr (fname, bs1)"
    and "parse_options bs2 \<lparr>Filename = fname, BlockSize = 0, WantSize = False\<rparr> = Inr r"
    by (auto simp: parse_rrq_def split: if_splits sum.splits)
  then show ?thesis
    using tftp_str_Inr parse_options_keeps by fastforce
qed

interpretation read_request: stable_codec asks parse_rrq id
  by unfold_locales (auto simp: asks_def intro: parse_encoded_rrq dest: parsed_request)

section \<open>Properties\<close>

text \<open>
  C35. A read request survives the wire: what a client encodes, file name, block size and the wish
  for the file's size, is what the server parses.
\<close>

theorem rrq_roundtrip:
  assumes "netascii (Filename r)" and "BlockSize r = 0 \<or> 8 \<le> BlockSize r \<and> BlockSize r \<le> 65464"
  shows "parse_rrq (encode_rrq r) = Inr r"
  using read_request.decodes [of r "encode_rrq r"] assms by (simp add: asks_def)

theorem rrq_roundtrip_witness:
  "parse_rrq (encode_rrq \<lparr>Filename = ''a/1'', BlockSize = 1024, WantSize = True\<rparr>) =
     Inr \<lparr>Filename = ''a/1'', BlockSize = 1024, WantSize = True\<rparr>"
  by (rule rrq_roundtrip) (simp_all add: netascii_def)

text \<open>
  A request the server accepts names a printable file and asks for no block size, or one
  between 8 and 65464; the server never grants more than its maximum.
\<close>

theorem accepted_requests:
  assumes "parse_rrq bs = Inr r"
  shows "netascii (Filename r) \<and> (BlockSize r = 0 \<or> 8 \<le> BlockSize r \<and> BlockSize r \<le> 65464) \<and>
    BlockSize (negotiate s r) \<le> BlockSize r \<and> (BlockSize r \<noteq> 0 \<longrightarrow> 0 < BlockSize (negotiate s r) \<and> BlockSize (negotiate s r) \<le> max_block_size s)"
  using parsed_request [OF assms] max_block_size_pos [of s] by (auto simp: negotiated_size min_def)

theorem accepted_requests_witness:
  "0 < BlockSize (negotiate \<lparr>WriteTimeout = 0, WriteAttempts = 0, MaxBlockSize = 0\<rparr> \<lparr>Filename = ''a'', BlockSize = 9000, WantSize = False\<rparr>)"
proof -
  have "parse_rrq (encode_rrq \<lparr>Filename = ''a'', BlockSize = 9000, WantSize = False\<rparr>) = Inr \<lparr>Filename = ''a'', BlockSize = 9000, WantSize = False\<rparr>"
    by (rule parse_encoded_rrq) (simp_all add: netascii_def)
  from accepted_requests [OF this] show ?thesis by simp
qed

text \<open>
  C4. What a transfer puts on the wire, however it ends: the packets of the transfer in their
  order, the next never before the previous, none more often than the configured attempts, and at
  most one error packet behind them. A transfer that succeeds has sent every packet and has read the acknowledgement of every
  packet, one after the other in the order of the packets: the reads it made split into one run for each packet, which has a
  datagram that starts with the acknowledgement code and the packet's own number, zero for the option acknowledgement.
\<close>

theorem transfer_in_order:
  assumes "handler (Filename req) = Inr ((content, err), fileSize)" and "transfer s handler req c = (r, c')" and "0 \<le> BlockSize req"
  shows "(\<exists>ms tail. sent c' = sent c @ copies ms (transfer_packets s req fileSize content) @ tail \<and>
    length ms \<le> length (transfer_packets s req fileSize content) \<and> (\<forall>m \<in> set ms. m \<le> write_attempts s) \<and>
    (tail = [] \<or> (\<exists>msg. tail = [tftp_error msg])) \<and>
    (r = None \<longrightarrow> tail = [] \<and> length ms = length (transfer_packets s req fileSize content) \<and> (\<forall>m \<in> set ms. 1 \<le> m))) \<and>
    (r = None \<longrightarrow> (\<exists>useds. reads_left c = concat useds @ reads_left c' \<and> list_all2 (\<lambda>packet used.
       \<exists>d. Received d \<in> set used \<and> take 4 d = [0, 4] @ (if take 2 packet = [0, 3] then take 2 (drop 2 packet) else [0, 0]))
       (transfer_packets s req fileSize content) useds))"
  using transfer_wire [OF assms] by (simp add: wire_def acked_in_order_def ack_of_def)

text \<open>
  The data packets of a transfer carry the file: their payloads, in order, concatenate to its
  content, they are numbered from 1 (modulo 2 to the 16), and there is one more than full blocks.
\<close>

theorem packets_carry_file:
  assumes "0 < n"
  shows "concat (map (drop 4) (data_packets n 1 content)) = content \<and>
    length (data_packets n 1 content) = length content div n + 1 \<and>
    (\<forall>i < length (data_packets n 1 content). take 4 (data_packets n 1 content ! i) = [0, 3] @ put16 (1 + word_of_nat i))"
proof -
  have "concat (map (drop 4) (data_packets n 1 content)) = content" by (rule payloads_of_packets)
  moreover have "\<forall>i < length (data_packets n 1 content). take 4 (data_packets n 1 content ! i) = [0, 3] @ put16 (1 + word_of_nat i)"
    by (simp add: data_packets_def nth_numbered data_packet_def)
  ultimately show ?thesis
    using length_blocks [OF assms] by (simp add: data_packets_def)
qed

theorem packets_carry_file_witness:
  "concat (map (drop 4) (data_packets 512 1 (replicate 1000 7))) = replicate 1000 7 \<and>
     length (data_packets 512 1 (replicate 1000 7)) = 2"
  using packets_carry_file [of 512 "replicate 1000 7"] by (simp del: replicate_numeral)

text \<open>
  A client that acknowledges each packet as it comes gets the file: the transfer succeeds and
  sends every packet exactly once.
\<close>

theorem transfer_delivers:
  assumes "handler (Filename req) = Inr ((content, None), fileSize)" and "refuses c = (\<lambda>_. None)" and "0 \<le> BlockSize req"
    and "reads_left c = (if wants_oack req fileSize then [Received (ack_packet 0)] else []) @
      map (\<lambda>i. Received (ack_packet (1 + word_of_nat i))) [0..<length (blocks (block_bytes s req) content)]"
  shows "fst (transfer s handler req c) = None \<and>
    sent (snd (transfer s handler req c)) = sent c @ transfer_packets s req fileSize content"
  using assms by (rule transfer_acked)

text \<open>A transfer of a thousand bytes to a client that acknowledges both blocks.\<close>

definition sample_conn :: conn where
  "sample_conn = \<lparr>sent = [], reads_left = [Received (ack_packet 1), Received (ack_packet 2)], refuses = (\<lambda>_. None)\<rparr>"

definition sample_tftp :: tftp_server where
  "sample_tftp = \<lparr>WriteTimeout = 0, WriteAttempts = 0, MaxBlockSize = 0\<rparr>"

definition sample_rrq :: rrq where
  "sample_rrq = \<lparr>Filename = ''a'', BlockSize = 0, WantSize = False\<rparr>"

theorem transfer_delivers_witness:
  "fst (transfer sample_tftp (\<lambda>_. Inr ((replicate 1000 7, None), 1000)) sample_rrq sample_conn) = None"
proof -
  have "length (blocks (block_bytes sample_tftp sample_rrq) (replicate 1000 7)) = 2"
    by (simp add: length_blocks block_bytes_def sample_rrq_def del: replicate_numeral)
  then have "reads_left sample_conn = (if wants_oack sample_rrq 1000 then [Received (ack_packet 0)] else []) @
      map (\<lambda>i. Received (ack_packet (1 + word_of_nat i))) [0..<length (blocks (block_bytes sample_tftp sample_rrq) (replicate 1000 7))]"
    by (simp add: sample_conn_def wants_oack_def sample_rrq_def upt_rec del: replicate_numeral)
  from transfer_delivers [OF _ _ _ this, of "\<lambda>_. Inr ((replicate 1000 7, None), 1000)"] show ?thesis
    by (simp add: sample_conn_def sample_rrq_def del: replicate_numeral)
qed

text \<open>A client that never answers, at most five copies of the packet, and one that does.\<close>

theorem transfer_in_order_witness:
  "(\<exists>ms tail. sent (snd (transfer sample_tftp (\<lambda>_. Inr (([7], None), 1)) sample_rrq (sample_conn\<lparr>reads_left := []\<rparr>))) =
     copies ms [data_packet 1 [7]] @ tail \<and> (\<forall>m \<in> set ms. m \<le> 5)) \<and>
   fst (transfer sample_tftp (\<lambda>_. Inr (([7], None), 1)) sample_rrq (sample_conn\<lparr>reads_left := []\<rparr>)) \<noteq> None"
proof -
  let ?h = "\<lambda>_. Inr (([7], None), 1)" and ?c = "sample_conn\<lparr>reads_left := []\<rparr>"
  obtain r c' where t: "transfer sample_tftp ?h sample_rrq ?c = (r, c')" by fastforce
  have "transfer_packets sample_tftp sample_rrq 1 [7] = [data_packet 1 [7]]"
    by (simp add: transfer_packets_def wants_oack_def sample_rrq_def data_packets_rec block_bytes_def)
  moreover have "write_attempts sample_tftp = 5" by (simp add: write_attempts_def sample_tftp_def)
  moreover have "sent ?c = []" "reads_left ?c = []" "0 \<le> BlockSize sample_rrq" by (simp_all add: sample_conn_def sample_rrq_def)
  ultimately show ?thesis
    using transfer_in_order [of ?h sample_rrq "[7]" None 1 sample_tftp ?c, OF refl t] unfolding t
    by (auto simp: list_all2_Cons1)
qed

lemma error_text_simp [simp]:
  "error_text [] = []"
  "bs \<noteq> [] \<Longrightarrow> error_text bs = error_rune (bs ! 0) @ error_text (drop (rune_width bs) bs)"
  by (subst error_text.simps; simp)+

lemma error_rune_bounds: "length (error_rune b) \<le> 2 \<and> set (error_rune b) \<subseteq> {0x20..0x7E} \<union> {10, 13}"
  by (auto simp: error_rune_def)

lemma error_text_bounds: "length (error_text bs) \<le> 2 * length bs \<and> set (error_text bs) \<subseteq> {0x20..0x7E} \<union> {10, 13}"
proof (induction bs rule: error_text.induct)
  case (1 bs)
  show ?case
  proof (cases "bs = []")
    case False
    have "length (drop (rune_width bs) bs) + 1 \<le> length bs"
      using False rune_width_pos [of bs] by (cases bs) auto
    then have "length (error_text bs) \<le> 2 * length bs"
      using "1.IH" [OF False] error_rune_bounds [of "bs ! 0"] False by (simp del: length_drop)
    moreover have "set (error_text bs) \<subseteq> {0x20..0x7E} \<union> {10, 13}"
      using "1.IH" [OF False] error_rune_bounds [of "bs ! 0"] False by (simp del: Un_insert_right)
    ultimately show ?thesis by blast
  qed simp
qed

text \<open>
  Error packets are clean: whatever the message, their text has only printable characters and
  line ends and at most a thousand bytes; a printable message of at most 500 bytes arrives as it is.
\<close>

theorem error_packets_clean:
  "take 4 (tftp_error msg) = [0, 5, 0, 0] \<and> length (tftp_error msg) \<le> 1005 \<and>
   set (drop 4 (tftp_error msg)) \<subseteq> {0x20..0x7E} \<union> {0, 10, 13} \<and>
   (netascii msg \<and> length msg \<le> 500 \<longrightarrow> tftp_str (drop 4 (tftp_error msg)) = Inr (msg, []))"
proof -
  have same: "error_text (bytes_of m) = bytes_of m" if "netascii m" for m
    using that
  proof (induction m)
    case (Cons c m)
    let ?b = "word_of_nat (of_char c) :: byte"
    have "unat ?b = of_char c"
      by (simp add: unat_of_nat of_char_less take_bit_eq_mod)
    with Cons.prems have "0x20 \<le> ?b" "?b \<le> 0x7E" by (auto simp: netascii_def word_le_nat_alt)
    then have "rune_width (bytes_of (c # m)) = 1" "error_rune ?b = [?b]"
      by (auto simp: rune_width_def error_rune_def bytes_of_def Let_def word_le_nat_alt word_less_nat_alt)
    with Cons show ?case by (simp add: bytes_of_def netascii_def)
  qed simp
  let ?bs = "if max_error_size < length (bytes_of msg) then take max_error_size (bytes_of msg) else bytes_of msg"
  have e: "tftp_error msg = [0, 5, 0, 0] @ error_text ?bs @ [0]" by (simp add: tftp_error_def Let_def)
  have "length ?bs \<le> 500" by (simp add: max_error_size_def)
  then have "length (error_text ?bs) \<le> 1000" using error_text_bounds [of ?bs] by linarith
  moreover have "set (error_text ?bs) \<subseteq> {0x20..0x7E} \<union> {10, 13}" using error_text_bounds by blast
  moreover have "error_text ?bs = bytes_of msg" if "netascii msg" "length msg \<le> 500"
    using that same by (simp add: max_error_size_def)
  ultimately show ?thesis
    unfolding e using tftp_str_netascii [of msg "[]"] by auto
qed

theorem error_packets_clean_witness:
  "tftp_str (drop 4 (tftp_error ''timeout'')) = Inr (''timeout'', [])"
proof -
  have "netascii ''timeout'' \<and> length ''timeout'' \<le> 500" by (simp add: netascii_def)
  with error_packets_clean [of "''timeout''"] show ?thesis by blast
qed

end
