(* ===== verification/Dhcp4_Conn.thy ===== *)
theory Dhcp4_Conn
  imports Dhcp4_Packet
begin

text \<open>
  The DHCPv4 sockets (\<^verbatim>\<open>dhcp4/conn.go\<close>, \<^verbatim>\<open>dhcp4/conn_linux.go\<close>): the portable UDP
  socket and the Linux snooper that reads and writes raw IPv4 packets, the interface the two share,
  and \<^verbatim>\<open>RecvDHCP\<close> and \<^verbatim>\<open>SendDHCP\<close> on top of it. Where the operating system answers,
  its answer is an argument: what successive reads return is a list of events, a run waits when the list
  ends.
\<close>

section \<open>Addresses and interfaces\<close>

record udp_addr =
  IP :: slice
  Port :: int

datatype iface_addr = IPNet bytes | OtherAddr

record net_interface =
  Index :: int
  Name :: string
  Addrs :: "string + iface_addr list"

datatype conn_error =
    SocketFailed string
  | NotUdp
  | IpNotFound
  | InterfacesFailed string
  | NoSuchInterface string
  | MarshalFailed packet_error
  | SendFailed string

section \<open>The two kinds of socket\<close>

text \<open>
  The buffer of 1500 bytes the callers hand to \<^verbatim>\<open>Recv\<close> bounds what is read: the UDP payload of
  the portable socket, the whole IP packet of the snooper, which therefore sees at most 1480 bytes behind a
  header without options. An event is what \<^verbatim>\<open>ReadFrom\<close> returns.
\<close>

definition recv_buffer :: nat where "recv_buffer = 1500"

type_synonym udp_read = "string + bytes \<times> udp_addr \<times> int"
type_synonym raw_read = "string + bytes \<times> bytes \<times> int"

definition portable_recv :: "udp_read \<Rightarrow> conn_error + bytes \<times> udp_addr \<times> int" where
  "portable_recv ev =
     (case ev of Inl e \<Rightarrow> Inl (SocketFailed e) | Inr (b, addr, ifidx) \<Rightarrow> Inr (take recv_buffer b, addr, ifidx))"

definition portable_send :: "bytes \<Rightarrow> udp_addr \<Rightarrow> int \<Rightarrow> bytes \<times> udp_addr \<times> int option" where
  "portable_send b addr ifidx = (if ifidx \<le> 0 then (b, addr, None) else (b, addr, Some ifidx))"

definition linux_recv :: "raw_read \<Rightarrow> conn_error + bytes \<times> udp_addr \<times> int" where
  "linux_recv ev =
     (case ev of
        Inl e \<Rightarrow> Inl (SocketFailed e)
      | Inr (p, src, ifidx) \<Rightarrow>
          if length p < 8 then Inl NotUdp
          else Inr (drop 8 p, \<lparr>IP = Some src, Port = uint (be16 (p ! 0) (p ! 1))\<rparr>, ifidx))"

record ip_header =
  Version :: nat
  Len :: nat
  TOS :: byte
  TotalLen :: nat
  TTL :: nat
  Protocol :: nat
  Dst :: slice

definition linux_send :: "u16 \<Rightarrow> bytes \<Rightarrow> udp_addr \<Rightarrow> int \<Rightarrow> ip_header \<times> bytes \<times> int option" where
  "linux_send port b addr ifidx =
     (let raw = put16 port @ put16 (word_of_int (Port addr)) @ put16 (word_of_nat (8 + length b)) @ [0, 0] @ b;
          hdr = \<lparr>Version = 4, Len = 20, TOS = 0xc0, TotalLen = 20 + 8 + length b, TTL = 64, Protocol = 17, Dst = IP addr\<rparr>
      in if 0 < ifidx then (hdr, raw, Some ifidx) else (hdr, raw, None))"

section \<open>Finding the interface to listen on\<close>

text \<open>
  \<^verbatim>\<open>newConn\<close> accepts only what arrives on the interface that owns the listening address, index 0
  standing for every interface.
\<close>

fun any_addr :: "bytes \<Rightarrow> iface_addr list \<Rightarrow> bool" where
  "any_addr ip [] = False"
| "any_addr ip (IPNet a # as) = (ip_equal a ip \<or> any_addr ip as)"
| "any_addr ip (OtherAddr # as) = any_addr ip as"

fun ip_to_ifindex :: "bytes \<Rightarrow> net_interface list \<Rightarrow> conn_error + int" where
  "ip_to_ifindex ip [] = Inl IpNotFound"
| "ip_to_ifindex ip (intf # intfs) =
     (case Addrs intf of
        Inl e \<Rightarrow> Inl (InterfacesFailed e)
      | Inr as \<Rightarrow> if any_addr ip as then Inr (Index intf) else ip_to_ifindex ip intfs)"

definition new_conn :: "string + net_interface list \<Rightarrow> slice \<Rightarrow> conn_error + int" where
  "new_conn interfaces ip =
     (if \<not> ip_equal (contents (to4 ip)) ipv4_zero
      then case interfaces of Inl e \<Rightarrow> Inl (InterfacesFailed e) | Inr intfs \<Rightarrow> ip_to_ifindex (contents ip) intfs
      else Inr 0)"

section \<open>Receiving and sending DHCP packets\<close>

text \<open>
  \<^verbatim>\<open>RecvDHCP\<close>: datagrams from other interfaces and datagrams that are no DHCP packet are skipped.
  \<open>by_index\<close> is \<^verbatim>\<open>net.InterfaceByIndex\<close>.
\<close>

fun recv_dhcp ::
    "('ev \<Rightarrow> conn_error + bytes \<times> udp_addr \<times> int) \<Rightarrow> (int \<Rightarrow> string + net_interface option) \<Rightarrow> int \<Rightarrow> 'ev list \<Rightarrow>
     ((conn_error + packet \<times> net_interface option) \<times> 'ev list) option" where
  "recv_dhcp recv by_index ifIndex [] = None"
| "recv_dhcp recv by_index ifIndex (ev # es) =
     (case recv ev of
        Inl e \<Rightarrow> Some (Inl e, es)
      | Inr (b, _, ifidx) \<Rightarrow>
          if ifIndex \<noteq> 0 \<and> ifidx \<noteq> ifIndex then recv_dhcp recv by_index ifIndex es
          else case unmarshal b of
              Inl _ \<Rightarrow> recv_dhcp recv by_index ifIndex es
            | Inr pkt \<Rightarrow>
                (case by_index ifidx of
                   Inl e \<Rightarrow> Some (Inl (NoSuchInterface e), es)
                 | Inr intf \<Rightarrow> Some (Inr (pkt, intf), es)))"

abbreviation dhcp_client_port :: int where "dhcp_client_port \<equiv> 68"
abbreviation dhcp_server_port :: int where "dhcp_server_port \<equiv> 67"

definition destination :: "packet \<Rightarrow> net_interface \<Rightarrow> udp_addr \<times> int" where
  "destination pkt intf =
     (case tx_type pkt of
        TxClientBroadcast \<Rightarrow> (\<lparr>IP = Some ipv4_bcast, Port = dhcp_server_port\<rparr>, Index intf)
      | TxServerBroadcast \<Rightarrow> (\<lparr>IP = Some ipv4_bcast, Port = dhcp_client_port\<rparr>, Index intf)
      | TxHardwareAddr \<Rightarrow> (\<lparr>IP = Some ipv4_bcast, Port = dhcp_client_port\<rparr>, Index intf)
      | TxRelayAddr \<Rightarrow> (\<lparr>IP = RelayAddr pkt, Port = dhcp_server_port\<rparr>, 0)
      | TxClientAddr \<Rightarrow> (\<lparr>IP = ClientAddr pkt, Port = dhcp_client_port\<rparr>, 0))"

text \<open>\<open>refuse\<close> is the operating system's verdict on what is sent.\<close>

definition send_dhcp ::
    "(bytes \<Rightarrow> udp_addr \<Rightarrow> int \<Rightarrow> 'out) \<Rightarrow> ('out \<Rightarrow> string option) \<Rightarrow> packet \<Rightarrow> net_interface \<Rightarrow> conn_error + 'out" where
  "send_dhcp send refuse pkt intf =
     (case marshal pkt of
        Inl e \<Rightarrow> Inl (MarshalFailed e)
      | Inr b \<Rightarrow>
          let (addr, ifidx) = destination pkt intf; out = send b addr ifidx
          in case refuse out of Some e \<Rightarrow> Inl (SendFailed e) | None \<Rightarrow> Inr out)"

lemma send_dhcp_Inr:
  "send_dhcp send refuse p intf = Inr out \<Longrightarrow>
     \<exists>b. marshal p = Inr b \<and> out = send b (fst (destination p intf)) (snd (destination p intf)) \<and> refuse out = None"
  by (cases "destination p intf") (auto simp: send_dhcp_def Let_def split: sum.splits option.splits)

section \<open>What a socket promises\<close>

text \<open>
  \<open>arrive src i out\<close> is the event at a host of the same kind which the datagram \<open>out\<close> reaches on its
  interface \<open>i\<close>. A payload that fits is delivered whole.
\<close>

locale datagram_socket =
  fixes recv :: "'ev \<Rightarrow> conn_error + bytes \<times> udp_addr \<times> int"
    and send :: "bytes \<Rightarrow> udp_addr \<Rightarrow> int \<Rightarrow> 'out"
    and arrive :: "udp_addr \<Rightarrow> int \<Rightarrow> 'out \<Rightarrow> 'ev"
    and fits :: "bytes \<Rightarrow> bool"
  assumes delivered: "fits b \<Longrightarrow> \<exists>a. recv (arrive src i (send b addr ifidx)) = Inr (b, a, i)"
begin

lemma packet_arrives:
  assumes "send_dhcp send refuse p intf = Inr out" and "fits (projr (marshal p))"
    and "name_ok 64 (BootServerName p)" and "name_ok 128 (BootFilename p)"
    and "ifIndex = 0 \<or> i = ifIndex" and "by_index i = Inr peer"
  shows "recv_dhcp recv by_index ifIndex (arrive src i out # es) = Some (Inr (received p, peer), es)"
proof -
  obtain b where b: "marshal p = Inr b" and out: "out = send b (fst (destination p intf)) (snd (destination p intf))"
    using send_dhcp_Inr [OF assms(1)] by blast
  obtain a where "recv (arrive src i out) = Inr (b, a, i)"
    unfolding out using delivered [of b] assms(2) b by (metis sum.sel(2))
  moreover have "unmarshal b = Inr (received p)"
    using b assms(3,4) by (intro dhcp4.decodes) (simp add: sends_def)
  ultimately show ?thesis
    using assms(5,6) by auto
qed

text \<open>Datagrams for other interfaces and datagrams that do not decode change nothing.\<close>

lemma noise_is_skipped:
  assumes "fits b" and "ifIndex \<noteq> 0 \<and> i \<noteq> ifIndex \<or> (\<exists>e. unmarshal b = Inl e)"
  shows "recv_dhcp recv by_index ifIndex (arrive src i (send b addr ifidx) # es) = recv_dhcp recv by_index ifIndex es"
proof -
  obtain a where "recv (arrive src i (send b addr ifidx)) = Inr (b, a, i)"
    using delivered [OF assms(1)] by blast
  with assms(2) show ?thesis by auto
qed

end

definition portable_arrive :: "udp_addr \<Rightarrow> int \<Rightarrow> bytes \<times> udp_addr \<times> int option \<Rightarrow> udp_read" where
  "portable_arrive src i out = Inr (fst out, src, i)"

definition portable_fits :: "bytes \<Rightarrow> bool" where
  "portable_fits b \<longleftrightarrow> length b \<le> 1500"

interpretation portable: datagram_socket portable_recv portable_send portable_arrive portable_fits
  by unfold_locales (simp add: portable_recv_def portable_send_def portable_arrive_def portable_fits_def recv_buffer_def)

definition linux_arrive :: "udp_addr \<Rightarrow> int \<Rightarrow> ip_header \<times> bytes \<times> int option \<Rightarrow> raw_read" where
  "linux_arrive src i out = Inr (take 1480 (fst (snd out)), contents (IP src), i)"

definition linux_fits :: "bytes \<Rightarrow> bool" where
  "linux_fits b \<longleftrightarrow> length b \<le> 1472"

interpretation snooper: datagram_socket linux_recv "linux_send port" linux_arrive linux_fits for port
  by unfold_locales (auto simp: linux_recv_def linux_send_def linux_arrive_def linux_fits_def Let_def put16_def)

lemma recv_dhcp_shorter: "recv_dhcp recv by_index ifIndex es = Some (r, rest) \<Longrightarrow> length rest < length es"
  by (induction es) (auto split: sum.splits if_splits)

lemma recv_dhcp_decoded:
  "recv_dhcp recv by_index ifIndex es = Some (Inr (p, intf), rest) \<Longrightarrow> \<exists>b. unmarshal b = Inr p"
  by (induction es) (auto split: sum.splits if_splits)

text \<open>A 64-bit EFI client's discovery.\<close>

definition sample_discover :: packet where
  "sample_discover = \<lparr>Type = MsgDiscover, TransactionID = [1, 2, 3, 4], Broadcast = True,
     HardwareAddr = [2, 0, 0, 0, 0, 1], ClientAddr = None, YourAddr = None, ServerAddr = None, RelayAddr = None,
     BootServerName = [], BootFilename = [], Options = [93 \<mapsto> Some [0, 7]]\<rparr>"

lemma sample_discover_ok:
  "\<exists>b. marshal sample_discover = Inr b \<and> unmarshal b = Inr (received sample_discover)"
proof -
  have "\<exists>b. marshal sample_discover = Inr b"
    unfolding marshal_success_iff
    by (auto simp: sample_discover_def overload_flags_def opt_byte_def opt_bytes_def opt_at_def bootp_op_def
        encodable_def legal_key_def)
  then obtain b where "marshal sample_discover = Inr b" ..
  moreover from this have "unmarshal b = Inr (received sample_discover)"
    by (rule decode_encoded) (simp_all add: sample_discover_def name_ok_def)
  ultimately show ?thesis by blast
qed

lemma sample_discover_length:
  assumes "marshal sample_discover = Inr b"
  shows "length b = 248"
proof -
  let ?opts = "[93 \<mapsto> Some [0, 7], 53 \<mapsto> Some [1]] :: options"
  have "overload_flags (Options sample_discover) = (False, False)"
    by (simp add: sample_discover_def overload_flags_def opt_byte_def opt_bytes_def opt_at_def)
  with assms obtain main where "write_main ?opts = Inr main" and b: "length b = 240 + length main"
    unfolding marshal_iff by (auto simp: write_field_def sample_discover_def magic_def header_def)
  moreover have "opt_keys ?opts = [53, 93]"
    by (rule opt_keys_eqI) auto
  ultimately show ?thesis
    by (auto simp: write_main_def marshal_limited_def opt_at_def split: if_splits)
qed

section \<open>Properties\<close>

text \<open>
  C37. A DHCP packet that \<^verbatim>\<open>SendDHCP\<close> sends through either kind of socket is what \<^verbatim>\<open>RecvDHCP\<close>
  returns at a host of the same kind (in its received form, \<open>received p\<close>), together with the interface it came in on, under four
  conditions: its encoding has at most 1500 bytes for the portable socket and 1472 for the snooper, whose receive buffer also
  holds the headers; server name and boot file name are shorter than their fields and have no zero byte; the receiving socket is
  bound to no interface or to that one; and the system knows the interface.
\<close>

theorem dhcp_exchange:
  assumes "marshal p = Inr b" and "name_ok 64 (BootServerName p)" and "name_ok 128 (BootFilename p)"
    and "ifIndex = 0 \<or> i = ifIndex" and "by_index i = Inr peer"
  shows "(length b \<le> 1500 \<and> send_dhcp portable_send refuse p intf = Inr out \<longrightarrow>
      recv_dhcp portable_recv by_index ifIndex (portable_arrive src i out # es) = Some (Inr (received p, peer), es)) \<and>
    (length b \<le> 1472 \<and> send_dhcp (linux_send port) refuse' p intf = Inr out' \<longrightarrow>
      recv_dhcp linux_recv by_index ifIndex (linux_arrive src i out' # es') = Some (Inr (received p, peer), es'))"
  using assms portable.packet_arrives [of refuse p intf out] snooper.packet_arrives [of port refuse' p intf out']
  by (auto simp: portable_fits_def linux_fits_def)

theorem dhcp_exchange_witness:
  "\<exists>b out. marshal sample_discover = Inr b \<and> send_dhcp (linux_send 68) (\<lambda>_. None) sample_discover \<lparr>Index = 2, Name = ''eth0'', Addrs = Inr []\<rparr> = Inr out \<and>
     recv_dhcp linux_recv (\<lambda>_. Inr None) 7 [linux_arrive \<lparr>IP = Some [10, 0, 0, 1], Port = 68\<rparr> 7 out] =
       Some (Inr (received sample_discover, None), [])"
proof -
  let ?intf = "\<lparr>Index = 2, Name = ''eth0'', Addrs = Inr []\<rparr>"
  obtain b where b: "marshal sample_discover = Inr b" using sample_discover_ok by blast
  obtain out where out: "send_dhcp (linux_send 68) (\<lambda>_. None) sample_discover ?intf = Inr out"
    using b by (cases "destination sample_discover ?intf") (simp add: send_dhcp_def)
  have "length b \<le> 1472" using sample_discover_length [OF b] by simp
  moreover have "name_ok 64 (BootServerName sample_discover)" "name_ok 128 (BootFilename sample_discover)"
    by (simp_all add: sample_discover_def name_ok_def)
  ultimately have "recv_dhcp linux_recv (\<lambda>_. Inr None) 7 [linux_arrive \<lparr>IP = Some [10, 0, 0, 1], Port = 68\<rparr> 7 out] =
      Some (Inr (received sample_discover, None), [])"
    using dhcp_exchange [OF b, of 7 7 "\<lambda>_. Inr None" None "\<lambda>_. None" ?intf _ "\<lparr>IP = Some [10, 0, 0, 1], Port = 68\<rparr>" "[]"
        68 "\<lambda>_. None" out "[]"] out by simp
  with b out show ?thesis by blast
qed

text \<open>
  Where \<^verbatim>\<open>SendDHCP\<close> sends (RFC 2131, section 4.1): to port 67 of the relay when the packet names
  one, else to port 68 of the client's address when it has one and the packet is no refusal, else by broadcast to the
  clients of the interface; only a client's own discovery is broadcast to the servers.
\<close>

theorem send_destination:
  assumes "send_dhcp send refuse p intf = Inr out"
  shows "\<exists>b addr ifidx. marshal p = Inr b \<and> out = send b addr ifidx \<and>
    (if \<exists>ip. RelayAddr p = Some ip \<and> is_global_unicast ip
     then IP addr = RelayAddr p \<and> Port addr = 67 \<and> ifidx = 0
     else if Type p \<noteq> MsgNack \<and> (\<exists>ip. ClientAddr p = Some ip \<and> (is_global_unicast ip \<or> is_loopback ip))
     then IP addr = ClientAddr p \<and> Port addr = 68 \<and> ifidx = 0
     else IP addr = Some ipv4_bcast \<and> ifidx = Index intf \<and>
       Port addr = (if Broadcast p \<and> Type p = MsgDiscover then 67 else 68))"
proof -
  obtain b where "marshal p = Inr b" "out = send b (fst (destination p intf)) (snd (destination p intf))"
    using send_dhcp_Inr [OF assms] by blast
  then show ?thesis
    by (intro exI [of _ b] exI [of _ "fst (destination p intf)"] exI [of _ "snd (destination p intf)"])
      (auto simp: destination_def tx_type_def split: option.splits)
qed

theorem send_destination_witness:
  "\<exists>out addr b. send_dhcp portable_send (\<lambda>_. None) sample_discover \<lparr>Index = 2, Name = ''eth0'', Addrs = Inr []\<rparr> = Inr out \<and>
     out = portable_send b addr 2 \<and> IP addr = Some ipv4_bcast \<and> Port addr = 67"
proof -
  let ?intf = "\<lparr>Index = 2, Name = ''eth0'', Addrs = Inr []\<rparr>"
  obtain b where "marshal sample_discover = Inr b" using sample_discover_ok by blast
  then obtain out where out: "send_dhcp portable_send (\<lambda>_. None) sample_discover ?intf = Inr out"
    by (cases "destination sample_discover ?intf") (simp add: send_dhcp_def)
  with send_destination [OF out] show ?thesis
    by (auto simp: sample_discover_def)
qed

text \<open>
  A raw packet with less than a UDP header behind its IP header makes \<^verbatim>\<open>RecvDHCP\<close> fail on the snooper,
  although every other malformed datagram is skipped; the server then stops.
\<close>

theorem truncated_udp_stops_snooper:
  "length payload < 8 \<Longrightarrow> recv_dhcp linux_recv by_index ifIndex (Inr (payload, src, i) # es) = Some (Inl NotUdp, es)"
  by (simp add: linux_recv_def)

text \<open>\<^verbatim>\<open>NewConn(":67")\<close>, an address without an IP, looks the nil address up and fails.\<close>

theorem unspecified_host_rejected:
  "new_conn (Inr [\<lparr>Index = 1, Name = ''lo'', Addrs = Inr [IPNet [127, 0, 0, 1]]\<rparr>]) None = Inl IpNotFound"
  by (simp add: new_conn_def to4_def ip_equal_def ipv4_zero_def v4_mapped_prefix_def)

end
