(* ===== verification/Server_Events.thy ===== *)
theory Server_Events
  imports Go_Std
begin

text \<open>
  The event log the boot server keeps per machine (\<^verbatim>\<open>server/logging.go\<close>): the last ten events of
  each hardware address. The text loggers are in \<^verbatim>\<open>Server_Log\<close>, the percentage of a state in
  \<^verbatim>\<open>Machine_Progress\<close>. Time is the number of requests handled before.
\<close>

section \<open>The log\<close>

type_synonym machine_state = int

abbreviation (input) machineStateProxyDHCP :: machine_state where "machineStateProxyDHCP \<equiv> 0"
abbreviation (input) machineStatePXE :: machine_state where "machineStatePXE \<equiv> 1"
abbreviation (input) machineStateTFTP :: machine_state where "machineStateTFTP \<equiv> 2"
abbreviation (input) machineStateProxyDHCPIpxe :: machine_state where "machineStateProxyDHCPIpxe \<equiv> 3"
abbreviation (input) machineStateIpxeScript :: machine_state where "machineStateIpxeScript \<equiv> 4"
abbreviation (input) machineStateKernel :: machine_state where "machineStateKernel \<equiv> 5"
abbreviation (input) machineStateInitrd :: machine_state where "machineStateInitrd \<equiv> 6"
abbreviation (input) machineStateBooted :: machine_state where "machineStateBooted \<equiv> 7"
abbreviation (input) machineStateIgnored :: machine_state where "machineStateIgnored \<equiv> 8"

definition state_string :: "machine_state \<Rightarrow> string" where
  "state_string m =
     (if m = machineStateProxyDHCP then ''Made boot offer (ProxyDHCP)''
      else if m = machineStatePXE then ''Made boot offer (PXE)''
      else if m = machineStateTFTP then ''Sent iPXE binary (TFTP)''
      else if m = machineStateProxyDHCPIpxe then ''Made iPXE boot offer (ProxyDHCP)''
      else if m = machineStateIpxeScript then ''Sent iPXE script (HTTP)''
      else if m = machineStateKernel then ''Sent kernel (HTTP)''
      else if m = machineStateInitrd then ''Sent initrd(s) (HTTP)''
      else if m = machineStateBooted then ''Booted machine''
      else ''Unknown'')"

record machine_event =
  Timestamp :: nat
  State :: machine_state
  Message :: string

type_synonym events = "string \<Rightarrow> machine_event list"

definition saved_events_per_machine :: nat where "saved_events_per_machine = 10"

definition add_event :: "bytes \<Rightarrow> machine_event \<Rightarrow> events \<Rightarrow> events" where
  "add_event mac evt evs =
     (let k = mac_string mac; evs = evs(k := evs k @ [evt])
      in if saved_events_per_machine < length (evs k)
         then evs(k := drop (length (evs k) - saved_events_per_machine) (evs k))
         else evs)"

section \<open>The log as the tail of the history\<close>

text \<open>
  The abstract log keeps every event; the concrete one shows its last ten. \<open>last_events\<close> is the abstraction
  applied to one machine's history.
\<close>

definition last_events :: "'a list \<Rightarrow> 'a list" where
  "last_events es = drop (length es - saved_events_per_machine) es"

definition displays :: "(bytes \<Rightarrow> machine_event list) \<Rightarrow> events \<Rightarrow> bool" where
  "displays history evs \<longleftrightarrow> (\<forall>mac. evs (mac_string mac) = last_events (history mac))"

lemma length_last_events: "length (last_events es) = min saved_events_per_machine (length es)"
  by (simp add: last_events_def min_def)

lemma last_events_snoc: "last_events (last_events es @ [e]) = last_events (es @ [e])"
proof (cases "length es \<le> 9")
  case False
  then have "Suc (length es - 10) = length es - 9" by simp
  then show ?thesis by (simp add: last_events_def saved_events_per_machine_def)
qed (simp add: last_events_def saved_events_per_machine_def)

lemma mac_string_inj: "mac_string a = mac_string b \<longleftrightarrow> a = b"
proof
  assume eq: "mac_string a = mac_string b"
  have "mac_string m \<noteq> []" if "m \<noteq> []" for m
    using that length_mac_string [of m] by (cases m) auto
  with eq have "a = [] \<longleftrightarrow> b = []" by (metis mac_string.simps(1))
  then show "a = b"
    using eq mac_pairs_mac_string by (metis option.inject)
qed simp

lemma add_event_at:
  "add_event mac evt evs k = (if k = mac_string mac then last_events (evs k @ [evt]) else evs k)"
  by (simp add: add_event_def last_events_def Let_def)

lemma add_event_displays:
  assumes "displays history evs"
  shows "displays (history(mac := history mac @ [evt])) (add_event mac evt evs)"
  using assms by (auto simp: displays_def add_event_at mac_string_inj last_events_snoc)

text \<open>The server's calls of \<^verbatim>\<open>machineEvent\<close>, in order.\<close>

definition run_events :: "(bytes \<times> machine_event) list \<Rightarrow> events \<Rightarrow> events" where
  "run_events calls = fold (\<lambda>(mac, evt). add_event mac evt) calls"

definition history_of :: "(bytes \<times> machine_event) list \<Rightarrow> bytes \<Rightarrow> machine_event list" where
  "history_of calls mac = map snd (filter (\<lambda>c. fst c = mac) calls)"

lemma run_events_display:
  "displays (history_of calls) (run_events calls (\<lambda>_. []))"
proof (induction calls rule: rev_induct)
  case Nil
  show ?case by (simp add: displays_def run_events_def history_of_def last_events_def)
next
  case (snoc c calls)
  have "(history_of calls)(fst c := history_of calls (fst c) @ [snd c]) = history_of (calls @ [c])"
    by (auto simp: history_of_def fun_eq_iff)
  with add_event_displays [OF snoc, of "fst c" "snd c"] show ?case
    by (simp add: run_events_def split_beta)
qed

text \<open>
  C16. The log refines the full history: after any sequence of events, of any machines interleaved in any way, what is
  stored for a machine are its own last ten events in their order.
\<close>

theorem event_log_refines:
  "run_events calls (\<lambda>_. []) (mac_string mac) = last_events (history_of calls mac) \<and>
   length (run_events calls (\<lambda>_. []) (mac_string mac)) = min 10 (length (history_of calls mac))"
  using run_events_display [of calls] by (simp add: displays_def length_last_events saved_events_per_machine_def)

end
