(* ===== verification/Server_Dhcp.thy ===== *)
theory Server_Dhcp
  imports Dhcp4_Conn Server_Events
begin

text \<open>
  The boot server (\<^verbatim>\<open>server/server.go\<close>, \<^verbatim>\<open>constants\<close>, \<^verbatim>\<open>types\<close>) and its ProxyDHCP
  service (\<^verbatim>\<open>server/dhcp.go\<close>): which requests it answers, the offer it makes for each kind of
  firmware, the choice of its own address, and the serving loop. The state of a run is the event log, what was sent
  and the number of requests handled, which serves as the time.
\<close>

section \<open>Firmware, architectures, machines\<close>

type_synonym firmware = int

abbreviation (input) FirmwareX86PC :: firmware where "FirmwareX86PC \<equiv> 0"
abbreviation (input) FirmwareEFI32 :: firmware where "FirmwareEFI32 \<equiv> 1"
abbreviation (input) FirmwareEFI64 :: firmware where "FirmwareEFI64 \<equiv> 2"
abbreviation (input) FirmwareEFIBC :: firmware where "FirmwareEFIBC \<equiv> 3"
abbreviation (input) FirmwareX86Ipxe :: firmware where "FirmwareX86Ipxe \<equiv> 4"
abbreviation (input) FirmwarePixiecoreIpxe :: firmware where "FirmwarePixiecoreIpxe \<equiv> 5"
abbreviation (input) FirmwareEfiArm64 :: firmware where "FirmwareEfiArm64 \<equiv> 6"

type_synonym architecture = int

abbreviation (input) ArchIA32 :: architecture where "ArchIA32 \<equiv> 0"
abbreviation (input) ArchX64 :: architecture where "ArchX64 \<equiv> 1"
abbreviation (input) ArchArm64 :: architecture where "ArchArm64 \<equiv> 2"

definition arch_string :: "architecture \<Rightarrow> string" where
  "arch_string a =
     (if a = ArchIA32 then ''IA32'' else if a = ArchX64 then ''X64'' else if a = ArchArm64 then ''Arm64'' else ''Unknown'')"

record machine =
  MAC :: bytes
  Arch :: architecture

record spec =
  Kernel :: string
  Initrd :: "string list"
  Efi :: string
  Cmdline :: string
  BootMessage :: string
  IpxeScript :: string

text \<open>
  A booter: its answers may depend on the time; \<^term>\<open>Inr None\<close> is a nil spec. A file is its bytes, with the
  error that ends reading it early if any, and its announced length. \<open>FileNamer\<close> is there when the booter
  implements that interface.
\<close>

record booter =
  BootSpec :: "nat \<Rightarrow> machine \<Rightarrow> string + spec option"
  ReadBootFile :: "nat \<Rightarrow> string \<Rightarrow> string + ((bytes \<times> string option) \<times> int)"
  FileNamer :: "(string \<Rightarrow> string) option"

record boot_server =
  Booter :: booter
  Address :: string
  HTTPPort :: int
  Ipxe :: "firmware \<Rightarrow> slice option"
  DHCPPort :: int
  TFTPPort :: int
  PXEPort :: int

record 'out server_state =
  Events :: events
  Sent :: "'out list"
  Moment :: nat

definition log_event :: "bytes \<Rightarrow> machine_state \<Rightarrow> string \<Rightarrow> 'out server_state \<Rightarrow> 'out server_state" where
  "log_event mac state msg st =
     st\<lparr>Events := add_event mac \<lparr>Timestamp = Moment st, State = state, Message = msg\<rparr> (Events st)\<rparr>"

section \<open>Starting up\<close>

text \<open>The settings \<^verbatim>\<open>Serve\<close> fills in; \<open>asset\<close> gives the bundled binaries.\<close>

abbreviation (input) PortDHCP :: int where "PortDHCP \<equiv> 67"
abbreviation (input) PortTFTP :: int where "PortTFTP \<equiv> 69"
abbreviation (input) PortHTTP :: int where "PortHTTP \<equiv> 80"
abbreviation (input) PortPXE :: int where "PortPXE \<equiv> 4011"

definition with_defaults :: "boot_server \<Rightarrow> boot_server" where
  "with_defaults s =
     (let s = (if DHCPPort s = 0 then s\<lparr>DHCPPort := PortDHCP\<rparr> else s);
          s = (if TFTPPort s = 0 then s\<lparr>TFTPPort := PortTFTP\<rparr> else s);
          s = (if PXEPort s = 0 then s\<lparr>PXEPort := PortPXE\<rparr> else s);
          s = (if HTTPPort s = 0 then s\<lparr>HTTPPort := PortHTTP\<rparr> else s)
      in if Address s = [] then s\<lparr>Address := ''0.0.0.0''\<rparr> else s)"

definition set_default_firmwares :: "(string \<Rightarrow> bytes) \<Rightarrow> boot_server \<Rightarrow> boot_server" where
  "set_default_firmwares asset s =
     s\<lparr>Ipxe := [FirmwareX86PC \<mapsto> Some (asset ''undionly.kpxe''),
       FirmwareEFI32 \<mapsto> Some (asset ''i386.ipxe.efi''),
       FirmwareEFI64 \<mapsto> Some (asset ''amd64.ipxe.efi''),
       FirmwareEFIBC \<mapsto> Some (asset ''amd64.ipxe.efi''),
       FirmwareEfiArm64 \<mapsto> Some (asset ''arm64.ipxe.efi''),
       FirmwareX86Ipxe \<mapsto> Some (asset ''ipxe.pxe'')]\<rparr>"

section \<open>Which requests are answered\<close>

datatype dhcp_error =
    NotDiscover message_type
  | NotPxe
  | BadClientSystem opt_error
  | UnsupportedFirmware u16
  | UnsupportedHttp4X64
  | UnsupportedHttp4Arm64
  | GuidNotZero
  | GuidSize
  | NoIpxeBinary firmware
  | VendorOptionsFailed opt_error
  | UnknownFirmware firmware
  | AddrsFailed string
  | NoUsableAddress

definition is_boot_dhcp :: "packet \<Rightarrow> dhcp_error + unit" where
  "is_boot_dhcp pkt =
     (if Type pkt \<noteq> MsgDiscover then Inl (NotDiscover (Type pkt))
      else if opt_at (Options pkt) OptClientSystem = None then Inl NotPxe
      else Inr ())"

fun has_any_prefix :: "string \<Rightarrow> string list \<Rightarrow> bool" where
  "has_any_prefix s [] = False"
| "has_any_prefix s (prefix # prefixes) = (if has_prefix s prefix then True else has_any_prefix s prefixes)"

definition rpi_prefixes :: "string list" where
  "rpi_prefixes = [''28:cd:c1:'', ''b8:27:eb:'', ''d8:3a:dd:'', ''dc:a6:32:'', ''e4:5f:01:'']"

definition identify :: "u16 \<Rightarrow> dhcp_error + architecture \<times> firmware" where
  "identify fwt =
     (if fwt = 0 then Inr (ArchIA32, FirmwareX86PC)
      else if fwt = 6 then Inr (ArchIA32, FirmwareEFI32)
      else if fwt = 7 then Inr (ArchX64, FirmwareEFI64)
      else if fwt = 9 then Inr (ArchX64, FirmwareEFIBC)
      else if fwt = 11 then Inr (ArchArm64, FirmwareEfiArm64)
      else if fwt = 16 then Inl UnsupportedHttp4X64
      else if fwt = 19 then Inl UnsupportedHttp4Arm64
      else Inl (UnsupportedFirmware fwt))"

definition refine_by_user_class :: "options \<Rightarrow> firmware \<Rightarrow> firmware" where
  "refine_by_user_class opts fwtype =
     (case opt_string opts 77 of
        Inl _ \<Rightarrow> fwtype
      | Inr userClass \<Rightarrow>
          let fwtype = (if userClass = ''iPXE'' \<and> fwtype = FirmwareX86PC then FirmwareX86Ipxe else fwtype)
          in if userClass = ''pixiecore'' then FirmwarePixiecoreIpxe else fwtype)"

definition check_guid :: "bytes \<Rightarrow> dhcp_error + unit" where
  "check_guid guid =
     (if length guid = 0 then Inr ()
      else if length guid = 17 then (if guid ! 0 \<noteq> 0 then Inl GuidNotZero else Inr ())
      else Inl GuidSize)"

definition validate_dhcp :: "packet \<Rightarrow> dhcp_error + machine \<times> firmware" where
  "validate_dhcp pkt =
     (case opt_uint16 (Options pkt) OptClientSystem of
        Inl e \<Rightarrow> Inl (BadClientSystem e)
      | Inr fwt \<Rightarrow>
          if has_any_prefix (mac_string (HardwareAddr pkt)) rpi_prefixes \<and> fwt = 0 then Inl (UnsupportedFirmware fwt)
          else bind_res (identify fwt) (\<lambda>(arch, fwtype).
            let fwtype = refine_by_user_class (Options pkt) fwtype
            in bind_res (check_guid (contents (opt_at (Options pkt) OptUidGuidClientIdentifier))) (\<lambda>_.
              Inr (\<lparr>MAC = HardwareAddr pkt, Arch = arch\<rparr>, fwtype))))"

section \<open>The offer\<close>

text \<open>
  \<open>serverIP\<close> is the four-byte address \<^verbatim>\<open>interfaceIP\<close> chose. The vendor options say that the
  client shall skip the boot server discovery.
\<close>

definition pxe_vendor_options :: options where
  "pxe_vendor_options = [6 \<mapsto> Some [8]]"

definition offer_base :: "packet \<Rightarrow> machine \<Rightarrow> bytes \<Rightarrow> packet" where
  "offer_base pkt mach serverIP =
     (let opts = [OptServerIdentifier \<mapsto> Some serverIP, OptVendorIdentifier \<mapsto> Some (bytes_of ''PXEClient'')];
          guid = opt_at (Options pkt) OptUidGuidClientIdentifier
      in \<lparr>Type = MsgOffer, TransactionID = TransactionID pkt, Broadcast = True, HardwareAddr = MAC mach,
          ClientAddr = None, YourAddr = None, ServerAddr = Some serverIP, RelayAddr = RelayAddr pkt,
          BootServerName = [], BootFilename = [],
          Options = (if guid \<noteq> None then opts(OptUidGuidClientIdentifier \<mapsto> guid) else opts)\<rparr>)"

definition tftp_path :: "bytes \<Rightarrow> firmware \<Rightarrow> string" where
  "tftp_path mac fwtype = mac_string mac @ ''/'' @ format_int fwtype"

definition offer_dhcp :: "boot_server \<Rightarrow> packet \<Rightarrow> machine \<Rightarrow> bytes \<Rightarrow> firmware \<Rightarrow> dhcp_error + packet" where
  "offer_dhcp s pkt mach serverIP fwtype =
     (let resp = offer_base pkt mach serverIP in
      if fwtype = FirmwareX86PC then
        (case opts_marshal pxe_vendor_options of
           Inl e \<Rightarrow> Inl (VendorOptionsFailed e)
         | Inr bs \<Rightarrow> Inr (resp\<lparr>Options := (Options resp)(OptVendorSpecific \<mapsto> Some bs),
             BootServerName := dotted serverIP, BootFilename := tftp_path (MAC mach) fwtype\<rparr>))
      else if fwtype = FirmwareX86Ipxe then
        (case opts_marshal pxe_vendor_options of
           Inl e \<Rightarrow> Inl (VendorOptionsFailed e)
         | Inr bs \<Rightarrow> Inr (resp\<lparr>Options := (Options resp)(OptVendorSpecific \<mapsto> Some bs),
             BootFilename := ''tftp://'' @ dotted serverIP @ ''/'' @ tftp_path (MAC mach) fwtype\<rparr>))
      else if fwtype = FirmwareEFI32 \<or> fwtype = FirmwareEFI64 \<or> fwtype = FirmwareEFIBC \<or> fwtype = FirmwareEfiArm64 then
        Inr (resp\<lparr>BootServerName := dotted serverIP, BootFilename := tftp_path (MAC mach) fwtype\<rparr>)
      else if fwtype = FirmwarePixiecoreIpxe then
        Inr (resp\<lparr>BootFilename := ''http://'' @ dotted serverIP @ '':'' @ format_int (HTTPPort s) @
          ''/_/ipxe?arch='' @ format_int (Arch mach) @ ''&mac='' @ mac_string (MAC mach)\<rparr>)
      else Inl (UnknownFirmware fwtype))"

section \<open>The server's address\<close>

definition usable :: "(bytes \<Rightarrow> bool) \<Rightarrow> iface_addr \<Rightarrow> bytes option" where
  "usable f a =
     (case a of
        OtherAddr \<Rightarrow> None
      | IPNet ip \<Rightarrow> (case to4 (Some ip) of None \<Rightarrow> None | Some ip \<Rightarrow> if f ip then Some ip else None))"

fun first_usable :: "(bytes \<Rightarrow> bool) \<Rightarrow> iface_addr list \<Rightarrow> bytes option" where
  "first_usable f [] = None"
| "first_usable f (a # as) = (case usable f a of Some ip \<Rightarrow> Some ip | None \<Rightarrow> first_usable f as)"

fun by_preference :: "(bytes \<Rightarrow> bool) list \<Rightarrow> iface_addr list \<Rightarrow> bytes option" where
  "by_preference [] addrs = None"
| "by_preference (f # fs) addrs = (case first_usable f addrs of Some ip \<Rightarrow> Some ip | None \<Rightarrow> by_preference fs addrs)"

definition interface_ip :: "net_interface \<Rightarrow> dhcp_error + bytes" where
  "interface_ip intf =
     (case Addrs intf of
        Inl e \<Rightarrow> Inl (AddrsFailed e)
      | Inr addrs \<Rightarrow>
          (case by_preference [is_global_unicast, is_link_local_unicast, is_loopback] addrs of
             None \<Rightarrow> Inl NoUsableAddress | Some ip \<Rightarrow> Inr ip))"

section \<open>Serving\<close>

text \<open>One received packet: every error leads to the next iteration of the loop.\<close>

definition handle_dhcp ::
    "boot_server \<Rightarrow> (bytes \<Rightarrow> udp_addr \<Rightarrow> int \<Rightarrow> 'out) \<Rightarrow> ('out \<Rightarrow> string option) \<Rightarrow> packet \<Rightarrow> net_interface \<Rightarrow>
     'out server_state \<Rightarrow> 'out server_state" where
  "handle_dhcp s send refuse pkt intf st =
     (case is_boot_dhcp pkt of
        Inl _ \<Rightarrow> st
      | Inr _ \<Rightarrow>
     (case validate_dhcp pkt of
        Inl _ \<Rightarrow> st
      | Inr (mach, fwtype) \<Rightarrow>
     (case BootSpec (Booter s) (Moment st) mach of
        Inl _ \<Rightarrow> st
      | Inr None \<Rightarrow> log_event (HardwareAddr pkt) machineStateIgnored ''Machine should not netboot'' st
      | Inr (Some _) \<Rightarrow>
          let st = (if fwtype = FirmwarePixiecoreIpxe
                then log_event (HardwareAddr pkt) machineStateProxyDHCPIpxe ''Offering to boot iPXE'' st
                else log_event (HardwareAddr pkt) machineStateProxyDHCP ''Offering to boot'' st)
          in
     (case interface_ip intf of
        Inl _ \<Rightarrow> st
      | Inr serverIP \<Rightarrow>
     (case offer_dhcp s pkt mach serverIP fwtype of
        Inl _ \<Rightarrow> st
      | Inr resp \<Rightarrow>
     (case send_dhcp send refuse resp intf of
        Inl _ \<Rightarrow> st
      | Inr out \<Rightarrow> st\<lparr>Sent := Sent st @ [out]\<rparr>))))))"

datatype serve_error = ReceiveFailed conn_error | NoInterfaceInformation

function serve_dhcp ::
    "boot_server \<Rightarrow> ('ev \<Rightarrow> conn_error + bytes \<times> udp_addr \<times> int) \<Rightarrow> (bytes \<Rightarrow> udp_addr \<Rightarrow> int \<Rightarrow> 'out) \<Rightarrow>
     ('out \<Rightarrow> string option) \<Rightarrow> (int \<Rightarrow> string + net_interface option) \<Rightarrow> int \<Rightarrow> 'ev list \<Rightarrow> 'out server_state \<Rightarrow>
     serve_error option \<times> 'out server_state" where
  "serve_dhcp s recv send refuse by_index ifIndex es st =
     (case recv_dhcp recv by_index ifIndex es of
        None \<Rightarrow> (None, st)
      | Some (Inl e, _) \<Rightarrow> (Some (ReceiveFailed e), st)
      | Some (Inr (pkt, None), _) \<Rightarrow> (Some NoInterfaceInformation, st)
      | Some (Inr (pkt, Some intf), rest) \<Rightarrow>
          serve_dhcp s recv send refuse by_index ifIndex rest
            (handle_dhcp s send refuse pkt intf (st\<lparr>Moment := Moment st + 1\<rparr>)))"
  by pat_completeness auto
termination
  by (relation "measure (\<lambda>(_, _, _, _, _, _, es, _). length es)") (auto dest: recv_dhcp_shorter)

declare serve_dhcp.simps [simp del]

section \<open>Facts about requests\<close>

text \<open>
  The textual test for a Raspberry Pi, a prefix of the printed address, is a test of the first three
  bytes.
\<close>

definition rpi_vendors :: "bytes list" where
  "rpi_vendors = [[0x28, 0xcd, 0xc1], [0xb8, 0x27, 0xeb], [0xd8, 0x3a, 0xdd], [0xdc, 0xa6, 0x32], [0xe4, 0x5f, 0x01]]"

fun oui_prefix :: "bytes \<Rightarrow> string" where
  "oui_prefix [a, b, c] = hex_byte a @ '':'' @ hex_byte b @ '':'' @ hex_byte c @ '':''"
| "oui_prefix _ = []"

lemma rpi_prefixes_eq: "rpi_prefixes = map oui_prefix rpi_vendors"
  by code_simp

lemma has_prefix_same_length:
  "length p = length s \<Longrightarrow> has_prefix (s @ t) p \<longleftrightarrow> p = s"
  by (auto simp: has_prefix_iff append_eq_append_conv)

lemma oui_prefix_test: "has_prefix (mac_string (a # b # c # d # bs)) (oui_prefix [x, y, z]) \<longleftrightarrow> [a, b, c] = [x, y, z]"
proof -
  let ?s = "oui_prefix [a, b, c]"
  have "mac_string (a # b # c # d # bs) = ?s @ mac_string (d # bs)"
    by (simp add: mac_string_Cons)
  moreover have "length (oui_prefix [x, y, z]) = length ?s" by (simp add: hex_byte_def)
  ultimately have "has_prefix (mac_string (a # b # c # d # bs)) (oui_prefix [x, y, z]) \<longleftrightarrow> oui_prefix [x, y, z] = ?s"
    using has_prefix_same_length by metis
  moreover have "length (hex_byte u) = length (hex_byte v)" for u v by (simp add: hex_byte_def)
  ultimately show ?thesis by (auto simp: hex_byte_inj append_eq_append_conv)
qed

lemma has_any_prefix_iff: "has_any_prefix s ps \<longleftrightarrow> (\<exists>p \<in> set ps. has_prefix s p)"
  by (induction ps) auto

lemma rpi_test:
  assumes "4 \<le> length mac"
  shows "has_any_prefix (mac_string mac) rpi_prefixes \<longleftrightarrow> take 3 mac \<in> set rpi_vendors"
proof -
  obtain a b c d bs where mac: "mac = a # b # c # d # bs"
    using assms by (auto simp: Suc_le_length_iff numeral_eq_Suc)
  have "set rpi_vendors \<subseteq> {[x, y, z] | x y z. True}"
    by (simp add: rpi_vendors_def)
  then have "(\<exists>v \<in> set rpi_vendors. has_prefix (mac_string mac) (oui_prefix v)) \<longleftrightarrow> (\<exists>v \<in> set rpi_vendors. take 3 mac = v)"
    unfolding mac using oui_prefix_test by (intro bex_cong) (auto simp: numeral_3_eq_3)
  then show ?thesis
    by (simp add: rpi_prefixes_eq has_any_prefix_iff)
qed

lemma identify_iff:
  "identify fwt = Inr (arch, fw) \<longleftrightarrow>
     (fwt, arch, fw) \<in> {(0, ArchIA32, FirmwareX86PC), (6, ArchIA32, FirmwareEFI32), (7, ArchX64, FirmwareEFI64),
       (9, ArchX64, FirmwareEFIBC), (11, ArchArm64, FirmwareEfiArm64)}"
  by (auto simp: identify_def)

lemma check_guid_iff: "check_guid g = Inr u \<longleftrightarrow> g = [] \<or> length g = 17 \<and> g ! 0 = 0"
  by (auto simp: check_guid_def)

lemma user_class_cases:
  "refine_by_user_class opts fw =
     (if opt_at opts 77 = Some (bytes_of ''pixiecore'') then FirmwarePixiecoreIpxe
      else if opt_at opts 77 = Some (bytes_of ''iPXE'') \<and> fw = FirmwareX86PC then FirmwareX86Ipxe else fw)"
proof (cases "opt_at opts 77")
  case (Some u)
  have "string_of u = s \<longleftrightarrow> u = bytes_of s" for s by (metis bytes_of_string_of string_of_bytes_of)
  with Some show ?thesis
    by (auto simp: refine_by_user_class_def opt_string_def opt_bytes_def Let_def bytes_of_inj)
qed (simp add: refine_by_user_class_def opt_string_def opt_bytes_def)

lemma opt_uint16_iff: "opt_uint16 m n = Inr w \<longleftrightarrow> opt_at m n = Some (put16 w)"
proof
  assume "opt_uint16 m n = Inr w"
  then obtain bs where "opt_at m n = Some bs" "length bs = 2" "w = be16 (bs ! 0) (bs ! 1)"
    by (auto simp: opt_uint16_def opt_bytes_def bind_res_Inr_iff split: option.splits if_splits)
  then show "opt_at m n = Some (put16 w)" by (auto simp: length_2_conv put16_be16)
qed (simp add: opt_uint16_def opt_bytes_def be16_put16 [unfolded One_nat_def])

definition classified :: "packet \<Rightarrow> machine \<Rightarrow> firmware \<Rightarrow> u16 \<Rightarrow> architecture \<Rightarrow> firmware \<Rightarrow> bool" where
  "classified pkt mach fw fwt arch base \<longleftrightarrow>
     opt_at (Options pkt) 93 = Some (put16 fwt) \<and>
     \<not> (has_any_prefix (mac_string (HardwareAddr pkt)) rpi_prefixes \<and> fwt = 0) \<and>
     fw = refine_by_user_class (Options pkt) base \<and>
     (contents (opt_at (Options pkt) 97) = [] \<or>
      length (contents (opt_at (Options pkt) 97)) = 17 \<and> contents (opt_at (Options pkt) 97) ! 0 = 0) \<and>
     mach = \<lparr>MAC = HardwareAddr pkt, Arch = arch\<rparr>"

lemma validate_dhcp_iff:
  "validate_dhcp pkt = Inr (mach, fw) \<longleftrightarrow>
     (\<exists>fwt arch base. identify fwt = Inr (arch, base) \<and> classified pkt mach fw fwt arch base)"
proof -
  have "validate_dhcp pkt = Inr (mach, fw) \<longleftrightarrow>
     (\<exists>fwt. opt_uint16 (Options pkt) 93 = Inr fwt \<and>
        \<not> (has_any_prefix (mac_string (HardwareAddr pkt)) rpi_prefixes \<and> fwt = 0) \<and>
        (\<exists>arch base. identify fwt = Inr (arch, base) \<and>
           (\<exists>u. check_guid (contents (opt_at (Options pkt) 97)) = Inr u) \<and>
           mach = \<lparr>MAC = HardwareAddr pkt, Arch = arch\<rparr> \<and> fw = refine_by_user_class (Options pkt) base))"
    by (auto simp: validate_dhcp_def bind_res_Inr_iff Let_def split: sum.splits if_splits)
  then show ?thesis
    unfolding opt_uint16_iff check_guid_iff classified_def by blast
qed

lemma validated:
  assumes "validate_dhcp pkt = Inr (mach, fw)"
  shows "MAC mach = HardwareAddr pkt" and "Arch mach \<in> {0..2}" and "fw \<in> {0..6}"
    and "contents (opt_at (Options pkt) 97) = [] \<or> length (contents (opt_at (Options pkt) 97)) = 17"
  using assms by (auto simp: validate_dhcp_iff identify_iff classified_def user_class_cases)

lemma validated_firmware_six:
  assumes "unmarshal b = Inr pkt" and "validate_dhcp pkt = Inr (mach, fw)"
  shows "length (MAC mach) = 6"
  using decoded_wf [OF assms(1)] validated [OF assms(2)] by (simp add: wf_packet_def)

section \<open>The server's address\<close>

lemma first_usable_Some:
  "first_usable f as = Some ip \<Longrightarrow> f ip \<and> length ip = 4 \<and> (\<exists>a. IPNet a \<in> set as \<and> to4 (Some a) = Some ip)"
  by (induction as) (auto simp: usable_def to4_length split: option.splits iface_addr.splits if_splits)

lemma first_usable_None:
  "first_usable f as = None \<Longrightarrow> IPNet a \<in> set as \<Longrightarrow> to4 (Some a) = Some ip \<Longrightarrow> \<not> f ip"
  by (induction as) (auto simp: usable_def split: option.splits iface_addr.splits if_splits)

lemma by_preference_Some:
  "by_preference fs as = Some ip \<Longrightarrow> \<exists>f \<in> set fs. first_usable f as = Some ip"
  by (induction fs) (auto split: option.splits)

lemma interface_ip_four: "interface_ip intf = Inr ip \<Longrightarrow> length ip = 4"
  by (auto simp: interface_ip_def simp del: by_preference.simps split: sum.splits option.splits
      dest!: by_preference_Some first_usable_Some)

section \<open>What an offer says\<close>

definition offered_file :: "boot_server \<Rightarrow> machine \<Rightarrow> bytes \<Rightarrow> firmware \<Rightarrow> string" where
  "offered_file s mach ip fw =
     (if fw = FirmwarePixiecoreIpxe
      then ''http://'' @ dotted ip @ '':'' @ format_int (HTTPPort s) @ ''/_/ipxe?arch='' @ format_int (Arch mach) @
        ''&mac='' @ mac_string (MAC mach)
      else if fw = FirmwareX86Ipxe then ''tftp://'' @ dotted ip @ ''/'' @ tftp_path (MAC mach) fw
      else tftp_path (MAC mach) fw)"

definition offered_name :: "bytes \<Rightarrow> firmware \<Rightarrow> string" where
  "offered_name ip fw = (if fw = FirmwarePixiecoreIpxe \<or> fw = FirmwareX86Ipxe then [] else dotted ip)"

definition offered_options :: "packet \<Rightarrow> bytes \<Rightarrow> firmware \<Rightarrow> options" where
  "offered_options pkt ip fw n =
     (if n = 54 then Some (Some ip)
      else if n = 60 then Some (Some (bytes_of ''PXEClient''))
      else if n = 97 \<and> opt_at (Options pkt) 97 \<noteq> None then Some (opt_at (Options pkt) 97)
      else if n = 43 \<and> fw \<in> {FirmwareX86PC, FirmwareX86Ipxe} then Some (Some [6, 1, 8, 255])
      else None)"

lemma vendor_bytes: "opts_marshal pxe_vendor_options = Inr [6, 1, 8, 255]"
proof -
  have "opt_keys pxe_vendor_options = [6]"
    by (rule opt_keys_eqI) (simp_all add: pxe_vendor_options_def)
  then show ?thesis
    by (simp add: opts_marshal_def marshal_limited_def pxe_vendor_options_def opt_at_def)
qed

lemma offer_dhcp_eq:
  assumes "fw \<in> {0..6}"
  shows "offer_dhcp s pkt mach ip fw = Inr ((offer_base pkt mach ip)
    \<lparr>BootServerName := offered_name ip fw, BootFilename := offered_file s mach ip fw, Options := offered_options pkt ip fw\<rparr>)"
proof -
  have opts: "offered_options pkt ip fw = (if fw = FirmwareX86PC \<or> fw = FirmwareX86Ipxe
      then (Options (offer_base pkt mach ip))(43 \<mapsto> Some [6, 1, 8, 255]) else Options (offer_base pkt mach ip))"
    by (auto simp: offered_options_def offer_base_def Let_def fun_eq_iff)
  have "fw = 0 \<or> fw = 1 \<or> fw = 2 \<or> fw = 3 \<or> fw = 4 \<or> fw = 5 \<or> fw = 6"
    using assms by auto
  then show ?thesis
    unfolding opts by (elim disjE) (simp_all add: offer_dhcp_def vendor_bytes offered_name_def offered_file_def offer_base_def Let_def)
qed

lemma length_format_port: "0 \<le> i \<Longrightarrow> i < 65536 \<Longrightarrow> length (format_int i) \<le> 5"
  using length_format_nat [of "nat i" 5] by (simp add: format_int_def nat_less_iff)

lemma length_format_small: "0 \<le> i \<Longrightarrow> i < 10 \<Longrightarrow> length (format_int i) = 1"
  by (simp add: format_int_def format_nat_def)

lemma offered_names_ok:
  assumes "length (MAC mach) = 6" and "length ip = 4" and "fw \<in> {0..6}" and "Arch mach \<in> {0..2}"
    and "0 \<le> HTTPPort s" and "HTTPPort s < 65536"
  shows "name_ok 64 (offered_name ip fw)" and "name_ok 128 (offered_file s mach ip fw)"
proof -
  have ip: "length (dotted ip) \<le> 15"
    using length_dotted [of ip] assms(2) by (cases ip) auto
  have mac: "length (mac_string (MAC mach)) = 17"
    using length_mac_string [of "MAC mach"] assms(1) by (cases "MAC mach") auto
  have nums: "length (format_int fw) = 1" "length (format_int (Arch mach)) = 1" "length (format_int (HTTPPort s)) \<le> 5"
    using assms length_format_small length_format_port by auto
  have "netascii (offered_name ip fw)" "netascii (offered_file s mach ip fw)"
    by (simp_all add: offered_name_def offered_file_def tftp_path_def printable)
  moreover have "length (offered_name ip fw) < 64" using ip by (simp add: offered_name_def)
  moreover have "length (offered_file s mach ip fw) < 128"
    using ip mac nums length_format_small [of FirmwareX86Ipxe] by (simp add: offered_file_def tftp_path_def)
  ultimately show "name_ok 64 (offered_name ip fw)" "name_ok 128 (offered_file s mach ip fw)"
    by (simp_all add: name_ok_def netascii_no_zero)
qed

lemma offered_options_encodable:
  assumes "length ip = 4" and "length (contents (opt_at (Options pkt) 97)) \<le> 17"
  shows "encodable (offered_options pkt ip fw)" and "overload_flags (offered_options pkt ip fw) = (False, False)"
  using assms
  by (auto simp: encodable_def offered_options_def opt_at_def legal_key_def overload_flags_def opt_byte_def opt_bytes_def
      split: if_splits)

lemma offer_marshals:
  assumes "wf_packet pkt" and "validate_dhcp pkt = Inr (mach, fw)" and "length ip = 4"
    and "0 \<le> HTTPPort s" and "HTTPPort s < 65536"
  defines "resp \<equiv> (offer_base pkt mach ip)
    \<lparr>BootServerName := offered_name ip fw, BootFilename := offered_file s mach ip fw, Options := offered_options pkt ip fw\<rparr>"
  shows "offer_dhcp s pkt mach ip fw = Inr resp" and "\<exists>bs. marshal resp = Inr bs \<and> unmarshal bs = Inr (received resp)"
proof -
  note v = validated [OF assms(2)]
  show "offer_dhcp s pkt mach ip fw = Inr resp"
    unfolding resp_def using v(3) by (rule offer_dhcp_eq)
  have mac: "length (MAC mach) = 6" using v(1) assms(1) by (simp add: wf_packet_def)
  note names = offered_names_ok [OF mac assms(3) v(3) v(2) assms(4,5)]
  have guid: "length (contents (opt_at (Options pkt) 97)) \<le> 17" using v(4) by auto
  note opts = offered_options_encodable [OF assms(3) guid, of fw]
  have "length (TransactionID pkt) = 4" using assms(1) by (simp add: wf_packet_def)
  moreover have "encodable ((offered_options pkt ip fw)(53 := None))"
    using opts(1) by (auto simp: encodable_def opt_at_def)
  ultimately have "\<exists>bs. marshal resp = Inr bs"
    unfolding marshal_success_iff using names opts(2) mac
    by (simp add: resp_def offer_base_def Let_def name_ok_def bootp_op_def)
  then obtain bs where "marshal resp = Inr bs" ..
  moreover from this have "unmarshal bs = Inr (received resp)"
    by (rule decode_encoded) (use names in \<open>simp_all add: resp_def\<close>)
  ultimately show "\<exists>bs. marshal resp = Inr bs \<and> unmarshal bs = Inr (received resp)" by blast
qed

text \<open>When the socket takes the datagram, a discovery the booter wants to boot is logged and answered.\<close>

lemma handle_dhcp_offers:
  assumes "unmarshal b = Inr pkt" and "is_boot_dhcp pkt = Inr ()" and "validate_dhcp pkt = Inr (mach, fw)"
    and "BootSpec (Booter s) (Moment st) mach = Inr (Some sp)" and "interface_ip intf = Inr ip"
    and "0 \<le> HTTPPort s" and "HTTPPort s < 65536"
  shows "\<exists>bs addr i offer. handle_dhcp s send (\<lambda>_. None) pkt intf st =
      (log_event (HardwareAddr pkt) (if fw = FirmwarePixiecoreIpxe then machineStateProxyDHCPIpxe else machineStateProxyDHCP)
        (if fw = FirmwarePixiecoreIpxe then ''Offering to boot iPXE'' else ''Offering to boot'') st)
      \<lparr>Sent := Sent st @ [send bs addr i]\<rparr> \<and>
    unmarshal bs = Inr offer \<and> TransactionID offer = TransactionID pkt \<and> HardwareAddr offer = HardwareAddr pkt \<and>
    BootFilename offer = offered_file s mach ip fw"
proof -
  define resp where "resp = (offer_base pkt mach ip)
      \<lparr>BootServerName := offered_name ip fw, BootFilename := offered_file s mach ip fw, Options := offered_options pkt ip fw\<rparr>"
  note m = offer_marshals [OF decoded_wf [OF assms(1)] assms(3) interface_ip_four [OF assms(5)] assms(6,7), folded resp_def]
  obtain bs where bs: "marshal resp = Inr bs" "unmarshal bs = Inr (received resp)" using m(2) by blast
  obtain addr i where "send_dhcp send (\<lambda>_. None) resp intf = Inr (send bs addr i)"
    using bs(1) by (cases "destination resp intf") (simp add: send_dhcp_def)
  then have "handle_dhcp s send (\<lambda>_. None) pkt intf st =
      (log_event (HardwareAddr pkt) (if fw = FirmwarePixiecoreIpxe then machineStateProxyDHCPIpxe else machineStateProxyDHCP)
        (if fw = FirmwarePixiecoreIpxe then ''Offering to boot iPXE'' else ''Offering to boot'') st)
      \<lparr>Sent := Sent st @ [send bs addr i]\<rparr>"
    using assms(2-5) m(1) by (simp add: handle_dhcp_def log_event_def)
  moreover have "TransactionID (received resp) = TransactionID pkt" "HardwareAddr (received resp) = HardwareAddr pkt"
      "BootFilename (received resp) = offered_file s mach ip fw"
    using validated(1) [OF assms(3)] by (simp_all add: resp_def received_def offer_base_def Let_def)
  ultimately show ?thesis using bs(2) by blast
qed

section \<open>Validation and offer on the wire\<close>

lemma validated_on_wire:
  assumes "unmarshal b = Inr pkt"
  shows "validate_dhcp pkt = Inr (mach, fw) \<longleftrightarrow>
    (\<exists>(code, arch, base) \<in> {(0, 0, 0), (6, 0, 1), (7, 1, 2), (9, 1, 3), (11, 2, 6)}.
       opt_at (Options pkt) 93 = Some [0, code] \<and>
       \<not> (code = 0 \<and> take 3 (HardwareAddr pkt) \<in> set rpi_vendors) \<and>
       (let class = opt_at (Options pkt) 77; guid = contents (opt_at (Options pkt) 97)
        in fw = (if class = Some (bytes_of ''pixiecore'') then 5
                 else if class = Some (bytes_of ''iPXE'') \<and> base = 0 then 4 else base) \<and>
           (guid = [] \<or> length guid = 17 \<and> guid ! 0 = 0)) \<and>
       mach = \<lparr>MAC = HardwareAddr pkt, Arch = arch\<rparr>)"
proof -
  have "4 \<le> length (HardwareAddr pkt)"
    using decoded_wf [OF assms] by (simp add: wf_packet_def)
  note rpi = rpi_test [OF this]
  let ?row = "\<lambda>code arch base. opt_at (Options pkt) 93 = Some [0, code] \<and>
       \<not> (code = 0 \<and> take 3 (HardwareAddr pkt) \<in> set rpi_vendors) \<and>
       (let class = opt_at (Options pkt) 77; guid = contents (opt_at (Options pkt) 97)
        in fw = (if class = Some (bytes_of ''pixiecore'') then 5
                 else if class = Some (bytes_of ''iPXE'') \<and> base = 0 then 4 else base) \<and>
           (guid = [] \<or> length guid = 17 \<and> guid ! 0 = 0)) \<and>
       mach = \<lparr>MAC = HardwareAddr pkt, Arch = arch\<rparr>"
  have row: "classified pkt mach fw fwt arch base \<longleftrightarrow> ?row code arch base"
    if "put16 fwt = [0, code]" and "fwt = 0 \<longleftrightarrow> code = 0" for fwt code arch base
    using that by (simp add: classified_def rpi user_class_cases Let_def conj_commute)
  have rows: "classified pkt mach fw 0 0 0 \<longleftrightarrow> ?row 0 0 0" "classified pkt mach fw 6 0 1 \<longleftrightarrow> ?row 6 0 1"
      "classified pkt mach fw 7 1 2 \<longleftrightarrow> ?row 7 1 2" "classified pkt mach fw 9 1 3 \<longleftrightarrow> ?row 9 1 3"
      "classified pkt mach fw 11 2 6 \<longleftrightarrow> ?row 11 2 6"
    by (rule row; simp add: put16_def)+
  have "validate_dhcp pkt = Inr (mach, fw) \<longleftrightarrow> classified pkt mach fw 0 0 0 \<or> classified pkt mach fw 6 0 1 \<or>
      classified pkt mach fw 7 1 2 \<or> classified pkt mach fw 9 1 3 \<or> classified pkt mach fw 11 2 6"
    unfolding validate_dhcp_iff identify_iff by blast
  then show ?thesis
    unfolding rows by (simp only: bex_simps split simp_thms)
qed

lemma offer_decodes:
  assumes "unmarshal b = Inr pkt" and "validate_dhcp pkt = Inr (mach, fw)" and "interface_ip intf = Inr ip"
    and "0 \<le> HTTPPort s" and "HTTPPort s < 65536"
  shows "\<exists>resp bs offer. offer_dhcp s pkt mach ip fw = Inr resp \<and> marshal resp = Inr bs \<and> unmarshal bs = Inr offer \<and>
    Type offer = MsgOffer \<and> TransactionID offer = TransactionID pkt \<and> HardwareAddr offer = HardwareAddr pkt \<and>
    Broadcast offer \<and> RelayAddr offer = RelayAddr pkt \<and> ServerAddr offer = Some ip \<and>
    opt_at (Options offer) 54 = Some ip \<and> opt_at (Options offer) 60 = Some (bytes_of ''PXEClient'') \<and>
    opt_at (Options offer) 97 = opt_at (Options pkt) 97 \<and>
    opt_at (Options offer) 43 = (if fw = FirmwareX86PC \<or> fw = FirmwareX86Ipxe then Some [6, 1, 8, 255] else None) \<and>
    BootServerName offer = offered_name ip fw \<and> BootFilename offer = offered_file s mach ip fw"
proof -
  have wf: "wf_packet pkt" using assms(1) by (rule decoded_wf)
  have four: "length ip = 4" using assms(3) by (rule interface_ip_four)
  note m = offer_marshals [OF wf assms(2) four assms(4,5)]
  define resp where "resp = (offer_base pkt mach ip)
      \<lparr>BootServerName := offered_name ip fw, BootFilename := offered_file s mach ip fw, Options := offered_options pkt ip fw\<rparr>"
  obtain relay where relay: "RelayAddr pkt = Some relay" "length relay = 4"
    using wf by (auto simp: wf_packet_def)
  obtain bs where bs: "marshal resp = Inr bs" "unmarshal bs = Inr (received resp)"
    using m(2) by (auto simp: resp_def)
  have "opt_at (Options (received resp)) 97 = opt_at (Options pkt) 97"
    by (cases "opt_at (Options pkt) 97")
      (simp_all add: resp_def received_def opt_at_def filled_def offered_options_def)
  moreover have "opt_at (Options (received resp)) 54 = Some ip"
      "opt_at (Options (received resp)) 60 = Some (bytes_of ''PXEClient'')"
      "opt_at (Options (received resp)) 43 = (if fw = FirmwareX86PC \<or> fw = FirmwareX86Ipxe then Some [6, 1, 8, 255] else None)"
    by (simp_all add: resp_def received_def opt_at_def filled_def offered_options_def)
  ultimately show ?thesis
    using m(1) bs validated(1) [OF assms(2)] four relay
    by (intro exI [of _ resp] exI [of _ bs] exI [of _ "received resp"])
      (simp add: resp_def received_def offer_base_def Let_def write_ip_def)
qed

section \<open>The serving loop\<close>

text \<open>The loop, one read at a time.\<close>

lemma serve_dhcp_Nil: "serve_dhcp s recv send refuse by_index ifIndex [] st = (None, st)"
  by (subst serve_dhcp.simps) simp

lemma serve_dhcp_Cons:
  "serve_dhcp s recv send refuse by_index ifIndex (ev # es) st =
     (case recv ev of
        Inl e \<Rightarrow> (Some (ReceiveFailed e), st)
      | Inr (b, _, k) \<Rightarrow>
          if ifIndex \<noteq> 0 \<and> k \<noteq> ifIndex then serve_dhcp s recv send refuse by_index ifIndex es st
          else (case unmarshal b of
            Inl _ \<Rightarrow> serve_dhcp s recv send refuse by_index ifIndex es st
          | Inr pkt \<Rightarrow>
              (case by_index k of
                 Inl e \<Rightarrow> (Some (ReceiveFailed (NoSuchInterface e)), st)
               | Inr None \<Rightarrow> (Some NoInterfaceInformation, st)
               | Inr (Some intf) \<Rightarrow> serve_dhcp s recv send refuse by_index ifIndex es
                   (handle_dhcp s send refuse pkt intf (st\<lparr>Moment := Moment st + 1\<rparr>)))))"
  by (subst (1 2 3) serve_dhcp.simps) (auto split: sum.split option.split)

text \<open>
  What the service ends with, over any kind of socket: the first read that fails, as long as the interfaces datagrams come
  in on are known.
\<close>

lemma serve_dhcp_result:
  assumes "\<forall>ev \<in> set es. \<forall>b src k. recv ev = Inr (b, src, k) \<longrightarrow> (\<exists>intf. by_index k = Inr (Some intf))"
  shows "fst (serve_dhcp s recv send refuse by_index ifIndex es st) = map_option ReceiveFailed (first_failure (map recv es))"
  using assms
proof (induction es arbitrary: st)
  case (Cons ev es)
  show ?case
  proof (cases "recv ev")
    case (Inr d)
    obtain b src k where d: "d = (b, src, k)" by (cases d) auto
    then obtain intf where "by_index k = Inr (Some intf)" using Cons.prems Inr by auto
    then show ?thesis
      using Cons Inr d by (cases "unmarshal b") (auto simp: serve_dhcp_Cons)
  qed (simp add: serve_dhcp_Cons)
qed (simp add: serve_dhcp_Nil)

lemma first_failure_portable: "first_failure (map portable_recv es) = map_option SocketFailed (first_failure es)"
  by (induction es rule: first_failure.induct) (auto simp: portable_recv_def)

lemma first_failure_linux:
  "first_failure (map linux_recv es) = first_failure (map (\<lambda>ev. case ev of
     Inl e \<Rightarrow> Inl (SocketFailed e) | Inr (p, src, i) \<Rightarrow> if length p < 8 then Inl NotUdp else Inr ()) es)"
  by (induction es rule: first_failure.induct) (auto simp: linux_recv_def)

text \<open>
  What justifies sending: one datagram, which carries the offer made for a packet the booter wants to boot at the time,
  to where the offer belongs.
\<close>

definition justified ::
    "boot_server \<Rightarrow> (bytes \<Rightarrow> udp_addr \<Rightarrow> int \<Rightarrow> 'out) \<Rightarrow> packet \<Rightarrow> net_interface \<Rightarrow> nat \<Rightarrow> 'out list \<Rightarrow> bool" where
  "justified s send pkt intf t outs \<longleftrightarrow>
     (\<exists>mach fw sp ip resp bs. is_boot_dhcp pkt = Inr () \<and> validate_dhcp pkt = Inr (mach, fw) \<and>
        BootSpec (Booter s) t mach = Inr (Some sp) \<and> interface_ip intf = Inr ip \<and> offer_dhcp s pkt mach ip fw = Inr resp \<and>
        marshal resp = Inr bs \<and> outs = [send bs (fst (destination resp intf)) (snd (destination resp intf))])"

lemma handle_dhcp_sent:
  "\<exists>outs. Sent (handle_dhcp s send refuse pkt intf st) = Sent st @ outs \<and> Moment (handle_dhcp s send refuse pkt intf st) = Moment st \<and>
     (outs = [] \<or> justified s send pkt intf (Moment st) outs)"
proof (cases "Sent (handle_dhcp s send refuse pkt intf st) = Sent st")
  case True
  moreover have "Moment (handle_dhcp s send refuse pkt intf st) = Moment st"
    by (auto simp: handle_dhcp_def log_event_def Let_def split: sum.splits option.splits)
  ultimately show ?thesis by (intro exI [of _ "[]"]) simp
next
  case False
  then obtain mach fw sp ip resp out where *: "is_boot_dhcp pkt = Inr ()" "validate_dhcp pkt = Inr (mach, fw)"
      "BootSpec (Booter s) (Moment st) mach = Inr (Some sp)" "interface_ip intf = Inr ip" "offer_dhcp s pkt mach ip fw = Inr resp"
      "send_dhcp send refuse resp intf = Inr out"
    by (auto simp: handle_dhcp_def log_event_def Let_def split: sum.splits option.splits if_splits)
  obtain bs where bs: "marshal resp = Inr bs" "out = send bs (fst (destination resp intf)) (snd (destination resp intf))"
    using send_dhcp_Inr [OF *(6)] by blast
  have "Sent (handle_dhcp s send refuse pkt intf st) = Sent st @ [out]" "Moment (handle_dhcp s send refuse pkt intf st) = Moment st"
    using * by (simp_all add: handle_dhcp_def log_event_def)
  then show ?thesis
    using * bs unfolding justified_def by (intro exI [of _ "[out]"]) auto
qed

lemma serve_dhcp_sent:
  "\<exists>outss. Sent (snd (serve_dhcp s recv send refuse by_index ifIndex es st)) = Sent st @ concat outss \<and> length outss = length es \<and>
     (\<forall>i < length es. outss ! i = [] \<or> (\<exists>b src k pkt intf t. recv (es ! i) = Inr (b, src, k) \<and> (ifIndex = 0 \<or> k = ifIndex) \<and>
        unmarshal b = Inr pkt \<and> by_index k = Inr (Some intf) \<and> Moment st < t \<and> t \<le> Moment st + Suc i \<and>
        justified s send pkt intf t (outss ! i)))"
proof (induction es arbitrary: st)
  case (Cons ev es)
  let ?run = "\<lambda>es st. Sent (snd (serve_dhcp s recv send refuse by_index ifIndex es st))"
  let ?just = "\<lambda>ev st i outs. outs = [] \<or> (\<exists>b src k pkt intf t. recv ev = Inr (b, src, k) \<and> (ifIndex = 0 \<or> k = ifIndex) \<and>
        unmarshal b = Inr pkt \<and> by_index k = Inr (Some intf) \<and> Moment st < t \<and> t \<le> Moment st + Suc i \<and>
        justified s send pkt intf t outs)"
  have first: "\<exists>outss. ?run (ev # es) st = Sent st @ concat outss \<and> length outss = length (ev # es) \<and>
      (\<forall>i < length (ev # es). ?just ((ev # es) ! i) st i (outss ! i))"
    if run: "?run (ev # es) st = ?run es st1" "Sent st1 = Sent st @ outs" and m: "Moment st \<le> Moment st1" "Moment st1 \<le> Moment st + 1"
      and outs: "?just ev st 0 outs" for st1 outs
  proof -
    obtain outss where IH: "?run es st1 = Sent st1 @ concat outss" "length outss = length es"
        "\<forall>i < length es. ?just (es ! i) st1 i (outss ! i)" using Cons.IH by blast
    have later: "?just (es ! i) st (Suc i) (outss ! i)" if "i < length es" for i
    proof -
      have "Moment st < t \<and> t \<le> Moment st + Suc (Suc i)" if "Moment st1 < t" "t \<le> Moment st1 + Suc i" for t
        using m that by simp
      with IH(3) that show ?thesis by blast
    qed
    have "\<forall>i < length (ev # es). ?just ((ev # es) ! i) st i ((outs # outss) ! i)"
    proof (intro allI impI)
      fix i assume "i < length (ev # es)"
      then show "?just ((ev # es) ! i) st i ((outs # outss) ! i)"
        using outs later by (cases i) (simp_all only: nth_Cons_0 nth_Cons_Suc length_Cons Suc_less_eq)
    qed
    then show ?thesis using IH(1,2) run by (intro exI [of _ "outs # outss"]) simp
  qed
  have stopped: ?case if "?run (ev # es) st = Sent st"
    using that by (intro exI [of _ "replicate (length (ev # es)) []"]) (auto simp: nth_replicate simp del: replicate.simps)
  have skipped: ?case if "?run (ev # es) st = ?run es st"
    using first [OF that, of "[]"] by simp
  show ?case
  proof (cases "recv ev")
    case (Inl e)
    then show ?thesis by (intro stopped) (simp add: serve_dhcp_Cons)
  next
    case (Inr d)
    obtain b src k where ev: "recv ev = Inr (b, src, k)" using Inr by (cases d) auto
    show ?thesis
    proof (cases "(ifIndex \<noteq> 0 \<and> k \<noteq> ifIndex) \<or> (\<exists>e. unmarshal b = Inl e)")
      case True
      then show ?thesis using ev by (intro skipped) (auto simp: serve_dhcp_Cons)
    next
      case False
      then obtain pkt where pkt: "unmarshal b = Inr pkt" "ifIndex = 0 \<or> k = ifIndex" by (cases "unmarshal b") auto
      show ?thesis
      proof (cases "\<exists>intf. by_index k = Inr (Some intf)")
        case False
        then show ?thesis using ev pkt by (intro stopped) (auto simp: serve_dhcp_Cons split: sum.split option.split)
      next
        case True
        then obtain intf where intf: "by_index k = Inr (Some intf)" by blast
        let ?tick = "st\<lparr>Moment := Moment st + 1\<rparr>"
        let ?st = "handle_dhcp s send refuse pkt intf ?tick"
        obtain outs where outs: "Sent ?st = Sent st @ outs" "Moment ?st = Moment st + 1"
            "outs = [] \<or> justified s send pkt intf (Moment st + 1) outs"
          using handle_dhcp_sent [of s send refuse pkt intf ?tick] by auto
        have "?run (ev # es) st = ?run es ?st"
          using ev pkt intf by (auto simp: serve_dhcp_Cons)
        moreover have "?just ev st 0 outs"
          using outs(3) ev pkt intf by (intro disj_forward [OF outs(3)]) auto
        ultimately show ?thesis using first [of ?st outs] outs(1,2) by simp
      qed
    qed
  qed
qed (simp add: serve_dhcp_Nil)

lemma justified_offer:
  assumes "justified s send pkt intf t outs" and "unmarshal b = Inr pkt" and "0 \<le> HTTPPort s" and "HTTPPort s < 65536"
  shows "\<exists>mach fw sp ip bs offer. Type pkt = MsgDiscover \<and> BootSpec (Booter s) t mach = Inr (Some sp) \<and>
       (\<exists>(code, arch, base) \<in> {(0, 0, 0), (6, 0, 1), (7, 1, 2), (9, 1, 3), (11, 2, 6)}.
          opt_at (Options pkt) 93 = Some [0, code] \<and>
          \<not> (code = 0 \<and> take 3 (HardwareAddr pkt) \<in> set rpi_vendors) \<and>
          (let class = opt_at (Options pkt) 77; guid = contents (opt_at (Options pkt) 97)
           in fw = (if class = Some (bytes_of ''pixiecore'') then 5
                    else if class = Some (bytes_of ''iPXE'') \<and> base = 0 then 4 else base) \<and>
              (guid = [] \<or> length guid = 17 \<and> guid ! 0 = 0)) \<and>
          mach = \<lparr>MAC = HardwareAddr pkt, Arch = arch\<rparr>) \<and>
       interface_ip intf = Inr ip \<and> unmarshal bs = Inr offer \<and>
       outs = [if \<exists>r. RelayAddr pkt = Some r \<and> is_global_unicast r then send bs \<lparr>IP = RelayAddr pkt, Port = 67\<rparr> 0
                    else send bs \<lparr>IP = Some ipv4_bcast, Port = 68\<rparr> (Index intf)] \<and>
       Type offer = MsgOffer \<and> TransactionID offer = TransactionID pkt \<and> HardwareAddr offer = HardwareAddr pkt \<and>
       RelayAddr offer = RelayAddr pkt \<and> ServerAddr offer = Some ip \<and> opt_at (Options offer) 54 = Some ip \<and>
       opt_at (Options offer) 97 = opt_at (Options pkt) 97 \<and>
       BootServerName offer = offered_name ip fw \<and> BootFilename offer = offered_file s mach ip fw"
proof -
  obtain mach fw sp ip resp bs where *: "is_boot_dhcp pkt = Inr ()" "validate_dhcp pkt = Inr (mach, fw)"
      "BootSpec (Booter s) t mach = Inr (Some sp)" "interface_ip intf = Inr ip" "offer_dhcp s pkt mach ip fw = Inr resp"
      "marshal resp = Inr bs" and outs: "outs = [send bs (fst (destination resp intf)) (snd (destination resp intf))]"
    using assms(1) unfolding justified_def by blast
  obtain offer where offer: "unmarshal bs = Inr offer" "Type offer = MsgOffer" "TransactionID offer = TransactionID pkt"
      "HardwareAddr offer = HardwareAddr pkt" "RelayAddr offer = RelayAddr pkt" "ServerAddr offer = Some ip" "opt_at (Options offer) 54 = Some ip"
      "opt_at (Options offer) 97 = opt_at (Options pkt) 97" "BootServerName offer = offered_name ip fw" "BootFilename offer = offered_file s mach ip fw"
    using offer_decodes [OF assms(2) *(2,4) assms(3,4)] *(5,6) by auto
  have resp: "resp = (offer_base pkt mach ip)
      \<lparr>BootServerName := offered_name ip fw, BootFilename := offered_file s mach ip fw, Options := offered_options pkt ip fw\<rparr>"
    using *(5) offer_dhcp_eq [OF validated(3) [OF *(2)], of s pkt mach ip] by simp
  have "outs = [if \<exists>r. RelayAddr pkt = Some r \<and> is_global_unicast r then send bs \<lparr>IP = RelayAddr pkt, Port = 67\<rparr> 0
      else send bs \<lparr>IP = Some ipv4_bcast, Port = 68\<rparr> (Index intf)]"
    unfolding outs by (auto simp: destination_def tx_type_def resp offer_base_def Let_def split: option.splits)
  moreover have "Type pkt = MsgDiscover" using *(1) by (auto simp: is_boot_dhcp_def split: if_splits)
  ultimately show ?thesis
    by (intro exI [of _ mach] exI [of _ fw] exI [of _ sp] exI [of _ ip] exI [of _ bs] exI [of _ offer] conjI
        validated_on_wire [OF assms(2), THEN iffD1] *(2-4) offer)
qed

text \<open>A failing socket ends the service, of whatever kind it is.\<close>

lemma recv_dhcp_keeps_failure:
  assumes "\<And>e. recv (Inl e) = Inl (SocketFailed e)"
  shows "first_failure es \<noteq> None \<Longrightarrow> \<exists>r rest. recv_dhcp recv by_index ifIndex es = Some (r, rest) \<and>
    ((\<exists>e. r = Inl e) \<or> first_failure rest \<noteq> None)"
  by (induction es rule: first_failure.induct) (auto simp: assms split: sum.split)

lemma serve_dhcp_ends:
  assumes "\<And>e. recv (Inl e) = Inl (SocketFailed e)" and "first_failure es \<noteq> None"
  shows "fst (serve_dhcp s recv send refuse by_index ifIndex es st) \<noteq> None"
  using assms
proof (induction s recv send refuse by_index ifIndex es st rule: serve_dhcp.induct)
  case (1 s recv send refuse by_index ifIndex es st)
  obtain r rest where r: "recv_dhcp recv by_index ifIndex es = Some (r, rest)" "(\<exists>e. r = Inl e) \<or> first_failure rest \<noteq> None"
    using recv_dhcp_keeps_failure [OF "1.prems"] by blast
  show ?case
  proof (cases r)
    case (Inr packet)
    then obtain pkt intf where packet: "r = Inr (pkt, intf)" by (cases packet) auto
    with "1.IH" "1.prems"(1) r show ?thesis by (subst serve_dhcp.simps) (auto split: option.split)
  qed (use r in \<open>subst serve_dhcp.simps; simp\<close>)
qed

section \<open>Properties\<close>

text \<open>
  C19. Validation is the decision table of the PXE architectures, read off the wire: option 93 holds one of the five
  supported codes, which fixes architecture and firmware; a BIOS client with a Raspberry Pi's address is refused; the
  user classes \<^verbatim>\<open>pixiecore\<close> and, for BIOS clients, \<^verbatim>\<open>iPXE\<close> change the firmware;
  the client's identifier is missing or seventeen bytes that start with zero.
\<close>

theorem validation_table:
  assumes "unmarshal b = Inr pkt"
  shows "validate_dhcp pkt = Inr (mach, fw) \<longleftrightarrow>
    (\<exists>(code, arch, base) \<in> {(0, 0, 0), (6, 0, 1), (7, 1, 2), (9, 1, 3), (11, 2, 6)}.
       opt_at (Options pkt) 93 = Some [0, code] \<and>
       \<not> (code = 0 \<and> take 3 (HardwareAddr pkt) \<in> set rpi_vendors) \<and>
       (let class = opt_at (Options pkt) 77; guid = contents (opt_at (Options pkt) 97)
        in fw = (if class = Some (bytes_of ''pixiecore'') then 5
                 else if class = Some (bytes_of ''iPXE'') \<and> base = 0 then 4 else base) \<and>
           (guid = [] \<or> length guid = 17 \<and> guid ! 0 = 0)) \<and>
       mach = \<lparr>MAC = HardwareAddr pkt, Arch = arch\<rparr>)"
  using assms by (rule validated_on_wire)

theorem validation_table_witness:
  "\<exists>b pkt. unmarshal b = Inr pkt \<and>
     validate_dhcp pkt = Inr (\<lparr>MAC = [2, 0, 0, 0, 0, 1], Arch = ArchX64\<rparr>, FirmwareEFI64)"
proof -
  obtain b where "marshal sample_discover = Inr b" "unmarshal b = Inr (received sample_discover)"
    using sample_discover_ok by blast
  then show ?thesis
    using validation_table [of b "received sample_discover" "\<lparr>MAC = [2, 0, 0, 0, 0, 1], Arch = ArchX64\<rparr>" FirmwareEFI64]
    by (auto simp: sample_discover_def received_def filled_def opt_at_def)
qed

text \<open>
  C3. The offer reaches the client as it was meant: for every decoded request that passes validation an offer is made,
  \<^verbatim>\<open>Marshal\<close> accepts it, and what the client decodes carries the request's transaction id, address
  and relay, names the server, mirrors the client's identifier, tells BIOS clients to skip the boot server discovery,
  and points to the boot file of the client's firmware.
\<close>

theorem offer_reaches_client:
  assumes "unmarshal b = Inr pkt" and "validate_dhcp pkt = Inr (mach, fw)" and "interface_ip intf = Inr ip"
    and "0 \<le> HTTPPort s" and "HTTPPort s < 65536"
  shows "\<exists>resp bs offer. offer_dhcp s pkt mach ip fw = Inr resp \<and> marshal resp = Inr bs \<and> unmarshal bs = Inr offer \<and>
    Type offer = MsgOffer \<and> TransactionID offer = TransactionID pkt \<and> HardwareAddr offer = HardwareAddr pkt \<and>
    Broadcast offer \<and> RelayAddr offer = RelayAddr pkt \<and> ServerAddr offer = Some ip \<and>
    opt_at (Options offer) 54 = Some ip \<and> opt_at (Options offer) 60 = Some (bytes_of ''PXEClient'') \<and>
    opt_at (Options offer) 97 = opt_at (Options pkt) 97 \<and>
    opt_at (Options offer) 43 = (if fw = FirmwareX86PC \<or> fw = FirmwareX86Ipxe then Some [6, 1, 8, 255] else None) \<and>
    BootServerName offer = offered_name ip fw \<and> BootFilename offer = offered_file s mach ip fw"
  using assms by (rule offer_decodes)

definition sample_interface :: net_interface where
  "sample_interface = \<lparr>Index = 2, Name = ''eth0'', Addrs = Inr [IPNet [169, 254, 0, 1], IPNet [192, 168, 1, 5]]\<rparr>"

lemma sample_interface_ip: "interface_ip sample_interface = Inr [192, 168, 1, 5]"
  by code_simp

lemma sample_discover_valid:
  "validate_dhcp (received sample_discover) = Inr (\<lparr>MAC = [2, 0, 0, 0, 0, 1], Arch = ArchX64\<rparr>, FirmwareEFI64)"
  by code_simp

definition sample_server :: boot_server where
  "sample_server = with_defaults \<lparr>Booter = \<lparr>BootSpec = (\<lambda>_ _. Inr (Some \<lparr>Kernel = ''kernel'', Initrd = [], Efi = [],
       Cmdline = [], BootMessage = [], IpxeScript = []\<rparr>)), ReadBootFile = (\<lambda>_ _. Inr (([], None), 0)), FileNamer = None\<rparr>,
     Address = [], HTTPPort = 0, Ipxe = Map.empty, DHCPPort = 0, TFTPPort = 0, PXEPort = 0\<rparr>"

lemma sample_server_port [simp]: "HTTPPort sample_server = 80"
  by (simp add: sample_server_def with_defaults_def)

theorem offer_reaches_client_witness:
  "\<exists>resp bs offer. offer_dhcp sample_server (received sample_discover) \<lparr>MAC = [2, 0, 0, 0, 0, 1], Arch = ArchX64\<rparr> [192, 168, 1, 5] FirmwareEFI64 =
     Inr resp \<and> marshal resp = Inr bs \<and> unmarshal bs = Inr offer \<and> BootFilename offer = ''02:00:00:00:00:01/2''"
proof -
  obtain b where b: "unmarshal b = Inr (received sample_discover)" using sample_discover_ok by blast
  have "offered_file sample_server \<lparr>MAC = [2, 0, 0, 0, 0, 1], Arch = ArchX64\<rparr> [192, 168, 1, 5] FirmwareEFI64 = ''02:00:00:00:00:01/2''"
    by (simp add: sample_server_def) code_simp
  with offer_reaches_client [OF b sample_discover_valid sample_interface_ip, of sample_server] show ?thesis
    by auto
qed

text \<open>
  C8. Only justified offers go out, whatever arrives: each read leads to at most one datagram, and a datagram is the offer to
  the discovery read: a decoded one, from an interface the socket listens on, with a supported architecture code, an acceptable
  address and identifier, for whose machine the booter has a spec at the time. It carries the transaction id, address,
  identifier and relay of that discovery, names the address of the interface the discovery came in on and the boot file of its
  firmware, and goes to the relay if the discovery has one, and otherwise is broadcast to the clients on that interface.
\<close>

theorem only_justified_offers:
  assumes "0 \<le> HTTPPort s" and "HTTPPort s < 65536"
  shows "\<exists>outss. Sent (snd (serve_dhcp s recv send refuse by_index ifIndex es st)) = Sent st @ concat outss \<and> length outss = length es \<and>
    (\<forall>i < length es. outss ! i = [] \<or> (\<exists>b src k pkt intf t mach fw sp ip bs offer.
       recv (es ! i) = Inr (b, src, k) \<and> (ifIndex = 0 \<or> k = ifIndex) \<and> unmarshal b = Inr pkt \<and> by_index k = Inr (Some intf) \<and>
       Moment st < t \<and> t \<le> Moment st + Suc i \<and>
       Type pkt = MsgDiscover \<and> BootSpec (Booter s) t mach = Inr (Some sp) \<and>
       (\<exists>(code, arch, base) \<in> {(0, 0, 0), (6, 0, 1), (7, 1, 2), (9, 1, 3), (11, 2, 6)}.
          opt_at (Options pkt) 93 = Some [0, code] \<and>
          \<not> (code = 0 \<and> take 3 (HardwareAddr pkt) \<in> set rpi_vendors) \<and>
          (let class = opt_at (Options pkt) 77; guid = contents (opt_at (Options pkt) 97)
           in fw = (if class = Some (bytes_of ''pixiecore'') then 5
                    else if class = Some (bytes_of ''iPXE'') \<and> base = 0 then 4 else base) \<and>
              (guid = [] \<or> length guid = 17 \<and> guid ! 0 = 0)) \<and>
          mach = \<lparr>MAC = HardwareAddr pkt, Arch = arch\<rparr>) \<and>
       interface_ip intf = Inr ip \<and> unmarshal bs = Inr offer \<and>
       outss ! i = [if \<exists>r. RelayAddr pkt = Some r \<and> is_global_unicast r then send bs \<lparr>IP = RelayAddr pkt, Port = 67\<rparr> 0
                    else send bs \<lparr>IP = Some ipv4_bcast, Port = 68\<rparr> (Index intf)] \<and>
       Type offer = MsgOffer \<and> TransactionID offer = TransactionID pkt \<and> HardwareAddr offer = HardwareAddr pkt \<and>
       RelayAddr offer = RelayAddr pkt \<and> ServerAddr offer = Some ip \<and> opt_at (Options offer) 54 = Some ip \<and>
       opt_at (Options offer) 97 = opt_at (Options pkt) 97 \<and>
       BootServerName offer = offered_name ip fw \<and> BootFilename offer = offered_file s mach ip fw))"
proof -
  obtain outss where outss: "Sent (snd (serve_dhcp s recv send refuse by_index ifIndex es st)) = Sent st @ concat outss" "length outss = length es"
    and j: "\<And>i. i < length es \<Longrightarrow> outss ! i = [] \<or> (\<exists>b src k pkt intf t. recv (es ! i) = Inr (b, src, k) \<and> (ifIndex = 0 \<or> k = ifIndex) \<and>
        unmarshal b = Inr pkt \<and> by_index k = Inr (Some intf) \<and> Moment st < t \<and> t \<le> Moment st + Suc i \<and>
        justified s send pkt intf t (outss ! i))"
    using serve_dhcp_sent [of s recv send refuse by_index ifIndex es st] by blast
  show ?thesis
    by (rule exI [of _ outss], intro conjI allI impI outss, drule j, erule disj_forward, assumption, elim exE conjE,
        frule (1) justified_offer [OF _ _ assms], elim exE, intro exI, (rule conjI, assumption)+, assumption)
qed

theorem only_justified_offers_witness:
  "\<exists>b. unmarshal b = Inr (received sample_discover) \<and>
     (\<forall>out \<in> set (Sent (snd (serve_dhcp sample_server portable_recv portable_send (\<lambda>_. None) (\<lambda>_. Inr (Some sample_interface)) 0
        [Inr (b, \<lparr>IP = None, Port = 68\<rparr>, 2)] \<lparr>Events = (\<lambda>_. []), Sent = [], Moment = 0\<rparr>))).
      \<exists>bs addr ifidx offer. out = portable_send bs addr ifidx \<and> unmarshal bs = Inr offer \<and> Type offer = MsgOffer)"
proof -
  obtain b where b: "unmarshal b = Inr (received sample_discover)" using sample_discover_ok by blast
  have "0 \<le> HTTPPort sample_server" "HTTPPort sample_server < 65536" by simp_all
  note sent = only_justified_offers [OF this, of portable_recv portable_send "\<lambda>_. None" "\<lambda>_. Inr (Some sample_interface)" 0
      "[Inr (b, \<lparr>IP = None, Port = 68\<rparr>, 2)]" "\<lparr>Events = (\<lambda>_. []), Sent = [], Moment = 0\<rparr>"]
  have "\<forall>out \<in> set (Sent (snd (serve_dhcp sample_server portable_recv portable_send (\<lambda>_. None) (\<lambda>_. Inr (Some sample_interface)) 0
        [Inr (b, \<lparr>IP = None, Port = 68\<rparr>, 2)] \<lparr>Events = (\<lambda>_. []), Sent = [], Moment = 0\<rparr>))).
      out \<in> set (Sent \<lparr>Events = (\<lambda>_. []), Sent = [], Moment = 0\<rparr>) \<or>
      (\<exists>bs addr ifidx offer. out = portable_send bs addr ifidx \<and> unmarshal bs = Inr offer \<and> Type offer = MsgOffer)"
    by (rule sent_per_read [OF sent], elim exE conjE, simp only: list.set ball_simps split: if_split, blast)
  with b show ?thesis by (intro exI [of _ b] conjI) simp_all
qed

text \<open>
  On the portable socket no datagram ends the service: as long as the socket itself works and the interfaces datagrams come in
  on are known, the loop goes on waiting, whatever bytes arrive and however sending, the booter or an offer fails.
\<close>

theorem dhcp_keeps_serving:
  assumes "\<forall>ev \<in> set es. \<exists>b src k intf. ev = Inr (b, src, k) \<and> by_index k = Inr (Some intf)"
  shows "fst (serve_dhcp s portable_recv send refuse by_index ifIndex es st) = None"
proof -
  have "first_failure es = None" using assms by (auto simp: first_failure_None)
  moreover have "\<forall>ev \<in> set es. \<forall>b src k. portable_recv ev = Inr (b, src, k) \<longrightarrow> (\<exists>intf. by_index k = Inr (Some intf))"
  proof (intro ballI allI impI)
    fix ev b src k assume ev: "ev \<in> set es" "portable_recv ev = Inr (b, src, k)"
    from bspec [OF assms ev(1)] obtain b' src' k' intf where "ev = Inr (b', src', k')" "by_index k' = Inr (Some intf)" by blast
    with ev(2) show "\<exists>intf. by_index k = Inr (Some intf)" by (simp add: portable_recv_def)
  qed
  ultimately show ?thesis by (simp add: serve_dhcp_result first_failure_portable)
qed

theorem dhcp_keeps_serving_witness:
  "fst (serve_dhcp sample_server portable_recv portable_send (\<lambda>_. None) (\<lambda>_. Inr (Some sample_interface)) 0
     [Inr ([1, 2, 3], \<lparr>IP = None, Port = 68\<rparr>, 2)] \<lparr>Events = (\<lambda>_. []), Sent = [], Moment = 0\<rparr>) = None"
  by (rule dhcp_keeps_serving) simp_all

text \<open>
  The server's own address is the best IPv4 address of the interface: one of its addresses in four-byte form, a global
  one whenever there is one, else a link-local one whenever there is one, else a loopback address.
\<close>

theorem interface_ip_preference:
  assumes "interface_ip intf = Inr ip" and "Addrs intf = Inr addrs"
  shows "length ip = 4 \<and> (\<exists>a. IPNet a \<in> set addrs \<and> to4 (Some a) = Some ip) \<and>
    (is_global_unicast ip \<or>
     (\<forall>a v4. IPNet a \<in> set addrs \<and> to4 (Some a) = Some v4 \<longrightarrow> \<not> is_global_unicast v4) \<and>
     (is_link_local_unicast ip \<or>
      (\<forall>a v4. IPNet a \<in> set addrs \<and> to4 (Some a) = Some v4 \<longrightarrow> \<not> is_link_local_unicast v4) \<and> is_loopback ip))"
proof -
  let ?g = "first_usable is_global_unicast addrs" and ?l = "first_usable is_link_local_unicast addrs"
  have "?g = Some ip \<or> ?g = None \<and> (?l = Some ip \<or> ?l = None \<and> first_usable is_loopback addrs = Some ip)"
    using assms by (auto simp: interface_ip_def split: option.splits)
  then show ?thesis
    using first_usable_Some [of _ addrs ip] first_usable_None [of _ addrs] by blast
qed

theorem interface_ip_preference_witness: "is_global_unicast [192, 168, 1, 5]"
proof -
  have "IPNet [192, 168, 1, 5] \<in> set [IPNet [169, 254, 0, 1], IPNet [192, 168, 1, 5]]" by simp
  moreover have "to4 (Some [192, 168, 1, 5]) = Some [192, 168, 1, 5]" by simp
  moreover have "\<not> is_loopback [192, 168, 1, 5]" by code_simp
  moreover have "\<not> is_link_local_unicast [192, 168, 1, 5]" by code_simp
  ultimately show ?thesis
    using interface_ip_preference [OF sample_interface_ip, of "[IPNet [169, 254, 0, 1], IPNet [192, 168, 1, 5]]"]
    by (auto simp: sample_interface_def)
qed

end
