(* ===== verification/Server_Pxe.thy ===== *)
theory Server_Pxe
  imports Server_Dhcp
begin

text \<open>
  The PXE boot service on port 4011 (\<^verbatim>\<open>server/pxe.go\<close>), which EFI firmware asks for the boot file
  after the ProxyDHCP offer. It shares \<^verbatim>\<open>isBootDHCP\<close> and \<^verbatim>\<open>interfaceIP\<close> with the
  ProxyDHCP service.
\<close>

section \<open>Validation and answer\<close>

definition identify_pxe :: "u16 \<Rightarrow> dhcp_error + firmware" where
  "identify_pxe fwt =
     (if fwt = 6 then Inr FirmwareEFI32
      else if fwt = 7 then Inr FirmwareEFI64
      else if fwt = 9 then Inr FirmwareEFIBC
      else if fwt = 11 then Inr FirmwareEfiArm64
      else Inl (UnsupportedFirmware fwt))"

text \<open>A missing entry and a nil one both read as nil.\<close>

definition ipxe_binary :: "boot_server \<Rightarrow> firmware \<Rightarrow> slice" where
  "ipxe_binary s fw = (case Ipxe s fw of None \<Rightarrow> None | Some bs \<Rightarrow> bs)"

definition validate_pxe :: "boot_server \<Rightarrow> packet \<Rightarrow> dhcp_error + firmware" where
  "validate_pxe s pkt =
     (case opt_uint16 (Options pkt) 93 of
        Inl e \<Rightarrow> Inl (BadClientSystem e)
      | Inr fwt \<Rightarrow>
          bind_res (identify_pxe fwt) (\<lambda>fwtype.
            if ipxe_binary s fwtype = None then Inl (NoIpxeBinary fwtype)
            else bind_res (check_guid (contents (opt_at (Options pkt) 97))) (\<lambda>_. Inr fwtype)))"

definition offer_pxe :: "packet \<Rightarrow> bytes \<Rightarrow> firmware \<Rightarrow> packet" where
  "offer_pxe pkt serverIP fwtype =
     (let opts = [OptServerIdentifier \<mapsto> Some serverIP, OptVendorIdentifier \<mapsto> Some (bytes_of ''PXEClient'')];
          guid = opt_at (Options pkt) 97
      in \<lparr>Type = MsgAck, TransactionID = TransactionID pkt, Broadcast = False, HardwareAddr = HardwareAddr pkt,
          ClientAddr = ClientAddr pkt, YourAddr = None, ServerAddr = Some serverIP, RelayAddr = RelayAddr pkt,
          BootServerName = dotted serverIP, BootFilename = tftp_path (HardwareAddr pkt) fwtype,
          Options = (if guid \<noteq> None then opts(97 \<mapsto> guid) else opts)\<rparr>)"

section \<open>Serving\<close>

text \<open>
  One datagram, read into a buffer of 1024 bytes. The result of \<^verbatim>\<open>isBootDHCP\<close> is logged and not
  acted upon: the loop goes on with the packet. Replies are sent to where the request came from, through the
  interface it arrived on.
\<close>

type_synonym pxe_reply = "bytes \<times> udp_addr \<times> int"

definition handle_pxe ::
    "boot_server \<Rightarrow> (pxe_reply \<Rightarrow> string option) \<Rightarrow> (int \<Rightarrow> string + net_interface) \<Rightarrow> bytes \<Rightarrow> udp_addr \<Rightarrow> int \<Rightarrow>
     pxe_reply server_state \<Rightarrow> pxe_reply server_state" where
  "handle_pxe s refuse by_index datagram addr ifIndex st =
     (case unmarshal (take 1024 datagram) of
        Inl _ \<Rightarrow> st
      | Inr pkt \<Rightarrow>
     (let ignored = is_boot_dhcp pkt in
      case validate_pxe s pkt of
        Inl _ \<Rightarrow> st
      | Inr fwtype \<Rightarrow>
     (case by_index ifIndex of
        Inl _ \<Rightarrow> st
      | Inr intf \<Rightarrow>
     (case interface_ip intf of
        Inl _ \<Rightarrow> st
      | Inr serverIP \<Rightarrow>
          let st = log_event (HardwareAddr pkt) machineStatePXE ''Sent PXE configuration'' st in
     (case marshal (offer_pxe pkt serverIP fwtype) of
        Inl _ \<Rightarrow> st
      | Inr bs \<Rightarrow>
          if refuse (bs, addr, ifIndex) = None then st\<lparr>Sent := Sent st @ [(bs, addr, ifIndex)]\<rparr> else st)))))"

fun pxe_loop ::
    "boot_server \<Rightarrow> (pxe_reply \<Rightarrow> string option) \<Rightarrow> (int \<Rightarrow> string + net_interface) \<Rightarrow> udp_read list \<Rightarrow>
     pxe_reply server_state \<Rightarrow> string option \<times> pxe_reply server_state" where
  "pxe_loop s refuse by_index [] st = (None, st)"
| "pxe_loop s refuse by_index (Inl e # es) st = (Some (''Receiving packet: '' @ e), st)"
| "pxe_loop s refuse by_index (Inr (datagram, addr, ifIndex) # es) st =
     pxe_loop s refuse by_index es (handle_pxe s refuse by_index datagram addr ifIndex (st\<lparr>Moment := Moment st + 1\<rparr>))"

text \<open>\<open>control\<close> is the error of asking the system for the interface of each datagram, if it fails.\<close>

definition serve_pxe ::
    "boot_server \<Rightarrow> (pxe_reply \<Rightarrow> string option) \<Rightarrow> (int \<Rightarrow> string + net_interface) \<Rightarrow> string option \<Rightarrow> udp_read list \<Rightarrow>
     pxe_reply server_state \<Rightarrow> string option \<times> pxe_reply server_state" where
  "serve_pxe s refuse by_index control es st =
     (case control of
        Some err \<Rightarrow> (Some (''Couldn't get interface metadata on PXE port: '' @ err), st)
      | None \<Rightarrow> pxe_loop s refuse by_index es st)"

section \<open>Facts\<close>

lemma identify_pxe_iff:
  "identify_pxe fwt = Inr fw \<longleftrightarrow> (fwt, fw) \<in> {(6, FirmwareEFI32), (7, FirmwareEFI64), (9, FirmwareEFIBC), (11, FirmwareEfiArm64)}"
  by (auto simp: identify_pxe_def)

lemma validate_pxe_iff:
  "validate_pxe s pkt = Inr fw \<longleftrightarrow>
     (\<exists>fwt. opt_at (Options pkt) 93 = Some (put16 fwt) \<and> identify_pxe fwt = Inr fw) \<and> ipxe_binary s fw \<noteq> None \<and>
     (contents (opt_at (Options pkt) 97) = [] \<or>
      length (contents (opt_at (Options pkt) 97)) = 17 \<and> contents (opt_at (Options pkt) 97) ! 0 = 0)"
proof -
  have "validate_pxe s pkt = Inr fw \<longleftrightarrow>
     (\<exists>fwt. opt_uint16 (Options pkt) 93 = Inr fwt \<and> identify_pxe fwt = Inr fw) \<and> ipxe_binary s fw \<noteq> None \<and>
     (\<exists>u. check_guid (contents (opt_at (Options pkt) 97)) = Inr u)"
    by (auto simp: validate_pxe_def bind_res_Inr_iff split: sum.splits if_splits)
  then show ?thesis
    unfolding opt_uint16_iff check_guid_iff by blast
qed

lemma offer_pxe_options: "fw \<notin> {FirmwareX86PC, FirmwareX86Ipxe} \<Longrightarrow> Options (offer_pxe pkt ip fw) = offered_options pkt ip fw"
  by (auto simp: offer_pxe_def offered_options_def Let_def fun_eq_iff)

lemma validated_pxe:
  assumes "validate_pxe s pkt = Inr fw"
  shows "fw \<in> {FirmwareEFI32, FirmwareEFI64, FirmwareEFIBC, FirmwareEfiArm64}"
    and "length (contents (opt_at (Options pkt) 97)) \<le> 17"
  using assms by (auto simp: validate_pxe_iff identify_pxe_iff)

lemma offer_pxe_decodes:
  assumes "wf_packet pkt" and "validate_pxe s pkt = Inr fw" and "length ip = 4"
  shows "\<exists>bs. marshal (offer_pxe pkt ip fw) = Inr bs \<and> unmarshal bs = Inr (received (offer_pxe pkt ip fw))"
proof -
  note v = validated_pxe [OF assms(2)]
  have ids: "length (HardwareAddr pkt) = 6" "length (TransactionID pkt) = 4" using assms(1) by (simp_all add: wf_packet_def)
  define mach where "mach = \<lparr>MAC = HardwareAddr pkt, Arch = 0\<rparr>"
  have fws: "fw \<in> {0..6}" using v(1) by auto
  have names: "name_ok 64 (dotted ip)" "name_ok 128 (tftp_path (HardwareAddr pkt) fw)"
    using offered_names_ok [of mach ip fw "sample_server"] ids(1) assms(3) v(1) fws
    by (auto simp: mach_def offered_name_def offered_file_def)
  note opts = offered_options_encodable [OF assms(3) v(2), of fw]
  have o: "Options (offer_pxe pkt ip fw) = offered_options pkt ip fw"
    using v(1) by (intro offer_pxe_options) auto
  have "encodable ((offered_options pkt ip fw)(53 := None))"
    using opts(1) by (auto simp: encodable_def opt_at_def)
  then have "\<exists>bs. marshal (offer_pxe pkt ip fw) = Inr bs"
    unfolding marshal_success_iff o using ids names opts(2)
    by (simp add: offer_pxe_def Let_def name_ok_def bootp_op_def)
  then obtain bs where "marshal (offer_pxe pkt ip fw) = Inr bs" ..
  moreover from this have "unmarshal bs = Inr (received (offer_pxe pkt ip fw))"
    by (rule decode_encoded) (use names in \<open>simp_all add: offer_pxe_def Let_def\<close>)
  ultimately show ?thesis by blast
qed

text \<open>A reply to a datagram, if there is one: the offer for the request in it, sent back where it came from.\<close>

definition pxe_justified :: "boot_server \<Rightarrow> (int \<Rightarrow> string + net_interface) \<Rightarrow> bytes \<Rightarrow> udp_addr \<Rightarrow> int \<Rightarrow> pxe_reply list \<Rightarrow> bool" where
  "pxe_justified s by_index datagram addr i outs \<longleftrightarrow>
     (\<exists>pkt fw intf ip bs. unmarshal (take 1024 datagram) = Inr pkt \<and> validate_pxe s pkt = Inr fw \<and> by_index i = Inr intf \<and>
        interface_ip intf = Inr ip \<and> marshal (offer_pxe pkt ip fw) = Inr bs \<and> outs = [(bs, addr, i)])"

lemma handle_pxe_sent:
  "\<exists>outs. Sent (handle_pxe s refuse by_index datagram addr i st) = Sent st @ outs \<and>
     (outs = [] \<or> pxe_justified s by_index datagram addr i outs)"
proof (cases "Sent (handle_pxe s refuse by_index datagram addr i st) = Sent st")
  case False
  then obtain pkt fw intf ip bs where "unmarshal (take 1024 datagram) = Inr pkt" "validate_pxe s pkt = Inr fw" "by_index i = Inr intf"
      "interface_ip intf = Inr ip" "marshal (offer_pxe pkt ip fw) = Inr bs" "refuse (bs, addr, i) = None"
    by (auto simp: handle_pxe_def log_event_def Let_def split: sum.splits if_splits)
  then show ?thesis
    unfolding pxe_justified_def by (intro exI [of _ "[(bs, addr, i)]"]) (auto simp: handle_pxe_def log_event_def Let_def)
qed (auto intro: exI [of _ "[]"])

lemma pxe_loop_sent:
  "\<exists>outss. Sent (snd (pxe_loop s refuse by_index es st)) = Sent st @ concat outss \<and> length outss = length es \<and>
     (\<forall>i < length es. outss ! i = [] \<or> (\<exists>datagram addr k. es ! i = Inr (datagram, addr, k) \<and>
        pxe_justified s by_index datagram addr k (outss ! i)))"
proof (induction s refuse by_index es st rule: pxe_loop.induct)
  case (2 s refuse by_index e es st)
  show ?case by (rule exI [of _ "replicate (length (Inl e # es)) []"]) (auto simp: nth_replicate simp del: replicate.simps)
next
  case (3 s refuse by_index datagram addr ifIndex es st)
  obtain xs where xs: "Sent (handle_pxe s refuse by_index datagram addr ifIndex (st\<lparr>Moment := Moment st + 1\<rparr>)) = Sent st @ xs"
      "xs = [] \<or> pxe_justified s by_index datagram addr ifIndex xs"
    using handle_pxe_sent [of s refuse by_index datagram addr ifIndex "st\<lparr>Moment := Moment st + 1\<rparr>"] by auto
  obtain outss where outss: "Sent (snd (pxe_loop s refuse by_index (Inr (datagram, addr, ifIndex) # es) st)) = Sent st @ xs @ concat outss"
      "length outss = length es" "\<And>i. i < length es \<Longrightarrow> outss ! i = [] \<or> (\<exists>datagram addr k. es ! i = Inr (datagram, addr, k) \<and>
        pxe_justified s by_index datagram addr k (outss ! i))"
    using "3.IH" xs(1) by auto
  show ?case
  proof (intro exI [of _ "xs # outss"] conjI allI impI)
    fix i assume "i < length (Inr (datagram, addr, ifIndex) # es)"
    then show "(xs # outss) ! i = [] \<or> (\<exists>datagram' addr' k. (Inr (datagram, addr, ifIndex) # es) ! i = Inr (datagram', addr', k) \<and>
        pxe_justified s by_index datagram' addr' k ((xs # outss) ! i))"
      using xs(2) outss(3) by (cases i) auto
  qed (use outss in simp_all)
qed simp

lemma serve_pxe_sent:
  "\<exists>outss. Sent (snd (serve_pxe s refuse by_index control es st)) = Sent st @ concat outss \<and> length outss = length es \<and>
     (\<forall>i < length es. outss ! i = [] \<or> (\<exists>datagram addr k. es ! i = Inr (datagram, addr, k) \<and>
        pxe_justified s by_index datagram addr k (outss ! i)))"
proof (cases control)
  case None
  then show ?thesis using pxe_loop_sent [of s refuse by_index es st] by (simp add: serve_pxe_def)
next
  case (Some err)
  then show ?thesis by (intro exI [of _ "replicate (length es) []"]) (simp add: serve_pxe_def nth_replicate)
qed

text \<open>Only a failure of the socket ends the service.\<close>

lemma pxe_loop_result:
  "fst (pxe_loop s refuse by_index es st) = map_option ((@) ''Receiving packet: '') (first_failure es)"
  by (induction s refuse by_index es st rule: pxe_loop.induct) simp_all

lemma serve_pxe_result:
  "fst (serve_pxe s refuse by_index None es st) = map_option ((@) ''Receiving packet: '') (first_failure es)"
  by (simp add: serve_pxe_def pxe_loop_result)

section \<open>Properties\<close>

definition pxe_server :: boot_server where
  "pxe_server = sample_server\<lparr>Ipxe := [FirmwareEFI64 \<mapsto> Some [1, 2, 3]]\<rparr>"

lemma identified_on_wire:
  "(\<exists>fwt. opt_at opts 93 = Some (put16 fwt) \<and> identify_pxe fwt = Inr fw) \<longleftrightarrow>
     (\<exists>(code, arch) \<in> {(6, 1), (7, 2), (9, 3), (11, 6)}. opt_at opts 93 = Some [0, code] \<and> fw = arch)"
proof -
  have "put16 6 = [0, 6]" "put16 7 = [0, 7]" "put16 9 = [0, 9]" "put16 11 = [0, 11]" by code_simp+
  then show ?thesis unfolding identify_pxe_iff by auto
qed

lemma pxe_justified_offer:
  assumes "pxe_justified s by_index datagram addr k outs"
  shows "\<exists>pkt fw intf ip bs offer. unmarshal (take 1024 datagram) = Inr pkt \<and>
       (\<exists>(code, arch) \<in> {(6, 1), (7, 2), (9, 3), (11, 6)}. opt_at (Options pkt) 93 = Some [0, code] \<and> fw = arch) \<and>
       (let guid = contents (opt_at (Options pkt) 97) in guid = [] \<or> length guid = 17 \<and> guid ! 0 = 0) \<and>
       (\<exists>bin. Ipxe s fw = Some (Some bin)) \<and> by_index k = Inr intf \<and> interface_ip intf = Inr ip \<and>
       outs = [(bs, addr, k)] \<and> unmarshal bs = Inr offer \<and>
       Type offer = MsgAck \<and> TransactionID offer = TransactionID pkt \<and> HardwareAddr offer = HardwareAddr pkt \<and>
       ClientAddr offer = ClientAddr pkt \<and> RelayAddr offer = RelayAddr pkt \<and> ServerAddr offer = Some ip \<and>
       opt_at (Options offer) 54 = Some ip \<and> opt_at (Options offer) 97 = opt_at (Options pkt) 97 \<and>
       BootServerName offer = dotted ip \<and> BootFilename offer = mac_string (HardwareAddr pkt) @ ''/'' @ format_int fw"
proof -
  obtain pkt fw intf ip bs where *: "unmarshal (take 1024 datagram) = Inr pkt" "validate_pxe s pkt = Inr fw" "by_index k = Inr intf"
      "interface_ip intf = Inr ip" "marshal (offer_pxe pkt ip fw) = Inr bs" "outs = [(bs, addr, k)]"
    using assms unfolding pxe_justified_def by blast
  note wf = decoded_wf [OF *(1)]
  have four: "length ip = 4" using *(4) by (rule interface_ip_four)
  have "unmarshal bs = Inr (received (offer_pxe pkt ip fw))"
    using offer_pxe_decodes [OF wf *(2) four] *(5) by simp
  moreover have "\<exists>bin. Ipxe s fw = Some (Some bin)"
    using *(2) by (auto simp: validate_pxe_iff ipxe_binary_def split: option.splits)
  moreover have "(\<exists>(code, arch) \<in> {(6, 1), (7, 2), (9, 3), (11, 6)}. opt_at (Options pkt) 93 = Some [0, code] \<and> fw = arch)"
      "let guid = contents (opt_at (Options pkt) 97) in guid = [] \<or> length guid = 17 \<and> guid ! 0 = 0"
    using *(2) unfolding validate_pxe_iff identified_on_wire Let_def by blast+
  moreover have "write_ip (ClientAddr pkt) = contents (ClientAddr pkt)" "write_ip (RelayAddr pkt) = contents (RelayAddr pkt)"
      "ClientAddr pkt \<noteq> None" "RelayAddr pkt \<noteq> None"
    using wf by (auto simp: wf_packet_def write_ip_def)
  then have "ClientAddr (received (offer_pxe pkt ip fw)) = ClientAddr pkt" "RelayAddr (received (offer_pxe pkt ip fw)) = RelayAddr pkt"
    by (auto simp: received_def offer_pxe_def Let_def)
  moreover have "ServerAddr (received (offer_pxe pkt ip fw)) = Some ip" "opt_at (Options (received (offer_pxe pkt ip fw))) 54 = Some ip"
      "opt_at (Options (received (offer_pxe pkt ip fw))) 97 = opt_at (Options pkt) 97"
    using four by (auto simp: received_def offer_pxe_def Let_def write_ip_def opt_at_def filled_def split: option.splits)
  moreover have "Type (received (offer_pxe pkt ip fw)) = MsgAck" "TransactionID (received (offer_pxe pkt ip fw)) = TransactionID pkt"
      "HardwareAddr (received (offer_pxe pkt ip fw)) = HardwareAddr pkt" "BootServerName (received (offer_pxe pkt ip fw)) = dotted ip"
      "BootFilename (received (offer_pxe pkt ip fw)) = mac_string (HardwareAddr pkt) @ ''/'' @ format_int fw"
    by (simp_all add: received_def offer_pxe_def Let_def tftp_path_def)
  note facts = calculation this *
  show ?thesis
    by (rule exI [of _ pkt], rule exI [of _ fw], rule exI [of _ intf], rule exI [of _ ip], rule exI [of _ bs],
        rule exI [of _ "received (offer_pxe pkt ip fw)"], intro conjI) (rule facts)+
qed

text \<open>
  C17. Every reply of the PXE service answers the datagram it was read from, at most one for each, and goes back to its sender
  through the interface it came in on. The datagram decodes to a request with one of the EFI architecture codes and an acceptable
  identifier, for which the server has a binary; the sender decodes an acknowledgement with its transaction id, addresses and
  identifier, that names the address of that interface and the boot file of its firmware.
\<close>

theorem pxe_replies_justified:
  "\<exists>outss. Sent (snd (serve_pxe s refuse by_index control es st)) = Sent st @ concat outss \<and> length outss = length es \<and>
     (\<forall>i < length es. outss ! i = [] \<or> (\<exists>datagram addr k pkt fw intf ip bs offer. es ! i = Inr (datagram, addr, k) \<and>
       unmarshal (take 1024 datagram) = Inr pkt \<and>
       (\<exists>(code, arch) \<in> {(6, 1), (7, 2), (9, 3), (11, 6)}. opt_at (Options pkt) 93 = Some [0, code] \<and> fw = arch) \<and>
       (let guid = contents (opt_at (Options pkt) 97) in guid = [] \<or> length guid = 17 \<and> guid ! 0 = 0) \<and>
       (\<exists>bin. Ipxe s fw = Some (Some bin)) \<and> by_index k = Inr intf \<and> interface_ip intf = Inr ip \<and>
       outss ! i = [(bs, addr, k)] \<and> unmarshal bs = Inr offer \<and>
       Type offer = MsgAck \<and> TransactionID offer = TransactionID pkt \<and> HardwareAddr offer = HardwareAddr pkt \<and>
       ClientAddr offer = ClientAddr pkt \<and> RelayAddr offer = RelayAddr pkt \<and> ServerAddr offer = Some ip \<and>
       opt_at (Options offer) 54 = Some ip \<and> opt_at (Options offer) 97 = opt_at (Options pkt) 97 \<and>
       BootServerName offer = dotted ip \<and> BootFilename offer = mac_string (HardwareAddr pkt) @ ''/'' @ format_int fw))"
proof -
  obtain outss where outss: "Sent (snd (serve_pxe s refuse by_index control es st)) = Sent st @ concat outss" "length outss = length es"
    and j: "\<And>i. i < length es \<Longrightarrow> outss ! i = [] \<or> (\<exists>datagram addr k. es ! i = Inr (datagram, addr, k) \<and>
        pxe_justified s by_index datagram addr k (outss ! i))"
    using serve_pxe_sent [of s refuse by_index control es st] by blast
  show ?thesis
    by (rule exI [of _ outss], intro conjI allI impI outss, drule j, erule disj_forward, assumption, elim exE conjE,
        drule pxe_justified_offer, elim exE, intro exI, rule conjI, assumption, assumption)
qed

theorem pxe_replies_justified_witness:
  "\<exists>b. unmarshal b = Inr (received sample_discover) \<and>
     (\<forall>reply \<in> set (Sent (snd (serve_pxe pxe_server (\<lambda>_. None) (\<lambda>_. Inr sample_interface) None
       [Inr (b, \<lparr>IP = None, Port = 68\<rparr>, 2)] \<lparr>Events = (\<lambda>_. []), Sent = [], Moment = 0\<rparr>))).
      \<exists>offer. unmarshal (fst reply) = Inr offer \<and> Type offer = MsgAck)"
proof -
  obtain b where b: "unmarshal b = Inr (received sample_discover)" using sample_discover_ok by blast
  note sent = pxe_replies_justified [of pxe_server "\<lambda>_. None" "\<lambda>_. Inr sample_interface" None
      "[Inr (b, \<lparr>IP = None, Port = 68\<rparr>, 2)]" "\<lparr>Events = (\<lambda>_. []), Sent = [], Moment = 0\<rparr>"]
  have "\<forall>reply \<in> set (Sent (snd (serve_pxe pxe_server (\<lambda>_. None) (\<lambda>_. Inr sample_interface) None
       [Inr (b, \<lparr>IP = None, Port = 68\<rparr>, 2)] \<lparr>Events = (\<lambda>_. []), Sent = [], Moment = 0\<rparr>))).
      reply \<in> set (Sent \<lparr>Events = (\<lambda>_. []), Sent = [], Moment = 0\<rparr>) \<or> (\<exists>offer. unmarshal (fst reply) = Inr offer \<and> Type offer = MsgAck)"
    by (rule sent_per_read [OF sent], elim exE conjE, simp only: list.set ball_simps fst_conv, blast)
  with b show ?thesis by (intro exI [of _ b] conjI) simp_all
qed

text \<open>
  C36. The two stages of an EFI boot agree: when the ProxyDHCP service takes a client for EFI firmware and makes it an offer, and
  the same client (same address, same architecture option) asks the PXE service, both recognise the same firmware, and the
  acknowledgement names the boot file and the server of the offer.
\<close>

theorem stages_agree:
  assumes "validate_dhcp pkt = Inr (mach, fw)" and "fw \<in> {FirmwareEFI32, FirmwareEFI64, FirmwareEFIBC, FirmwareEfiArm64}"
    and "offer_dhcp s pkt mach ip fw = Inr resp"
    and "validate_pxe s pkt' = Inr fw'" and "HardwareAddr pkt' = HardwareAddr pkt"
    and "opt_at (Options pkt') 93 = opt_at (Options pkt) 93"
  shows "fw' = fw \<and> BootFilename (offer_pxe pkt' ip fw') = BootFilename resp \<and>
    BootServerName (offer_pxe pkt' ip fw') = BootServerName resp"
proof -
  obtain fwt arch base where dhcp: "identify fwt = Inr (arch, base)" "classified pkt mach fw fwt arch base"
    using assms(1) unfolding validate_dhcp_iff by blast
  obtain fwt' where pxe: "opt_at (Options pkt') 93 = Some (put16 fwt')" "identify_pxe fwt' = Inr fw'"
    using assms(4) unfolding validate_pxe_iff by blast
  have "fwt' = fwt" using dhcp(2) pxe(1) assms(6) by (simp add: classified_def put16_inj)
  moreover have "fw = base" using dhcp(2) assms(2) by (auto simp: classified_def user_class_cases split: if_splits)
  ultimately have "fw' = fw"
    using dhcp(1) pxe(2) assms(2) unfolding identify_iff identify_pxe_iff by auto
  moreover have "BootFilename resp = offered_file s mach ip fw" "BootServerName resp = offered_name ip fw"
    using assms(3) offer_dhcp_eq [OF validated(3) [OF assms(1)], of s pkt mach ip] by auto
  ultimately show ?thesis
    using assms(2,5) validated(1) [OF assms(1)]
    by (auto simp: offer_pxe_def offered_file_def offered_name_def Let_def)
qed

theorem stages_agree_witness:
  "\<exists>resp. offer_dhcp pxe_server (received sample_discover) \<lparr>MAC = [2, 0, 0, 0, 0, 1], Arch = ArchX64\<rparr> [192, 168, 1, 5] FirmwareEFI64
       = Inr resp \<and>
     BootFilename (offer_pxe (received sample_discover) [192, 168, 1, 5] FirmwareEFI64) = BootFilename resp"
proof -
  have "validate_pxe pxe_server (received sample_discover) = Inr FirmwareEFI64"
    by (simp add: validate_pxe_def opt_uint16_iff pxe_server_def) code_simp
  from stages_agree [OF sample_discover_valid _ offer_dhcp_eq this, of "[192, 168, 1, 5]"] show ?thesis
    by (simp add: offer_dhcp_eq)
qed

text \<open>
  The service answers requests \<^verbatim>\<open>isBootDHCP\<close> rejects, although it logs that it ignores them: a
  client's DHCPREQUEST on this port gets its boot file.
\<close>

theorem rejected_requests_answered:
  "is_boot_dhcp ((received sample_discover)\<lparr>Type := MsgRequest\<rparr>) \<noteq> Inr () \<and>
   validate_pxe pxe_server ((received sample_discover)\<lparr>Type := MsgRequest\<rparr>) = Inr FirmwareEFI64"
proof
  show "validate_pxe pxe_server ((received sample_discover)\<lparr>Type := MsgRequest\<rparr>) = Inr FirmwareEFI64"
    by (simp add: pxe_server_def) code_simp
qed (simp add: is_boot_dhcp_def)

end
