(* ===== verification/Server_Tftp.thy ===== *)
theory Server_Tftp
  imports Server_Dhcp Tftp Go_Path
begin

text \<open>
  The TFTP service of the boot server (\<^verbatim>\<open>server/tftp.go\<close>), the accept loop of
  \<^verbatim>\<open>tftp/tftp.go\<close>, and the two ready-made handlers of \<^verbatim>\<open>tftp/handlers.go\<close>.
  \<open>quote\<close> renders \<^verbatim>\<open>%q\<close>, which only error texts use.
\<close>

section \<open>Accepting requests\<close>

text \<open>
  Reads are cut to 512 bytes; each request that parses starts a transfer of its own, everything else is skipped.
  The result is the error that ends the loop, if one does, and the transfers started.
\<close>

fun accept_requests :: "(string + bytes \<times> 'addr) list \<Rightarrow> string option \<times> ('addr \<times> rrq) list" where
  "accept_requests [] = (None, [])"
| "accept_requests (Inl e # es) = (Some e, [])"
| "accept_requests (Inr (b, addr) # es) =
     (case parse_rrq (take 512 b) of
        Inl _ \<Rightarrow> accept_requests es
      | Inr req \<Rightarrow> (case accept_requests es of (r, ts) \<Rightarrow> (r, (addr, req) # ts)))"

text \<open>
  \<^verbatim>\<open>Serve\<close> refuses to run without a handler and fails when the deadline of the listener cannot be
  reset; \<^verbatim>\<open>ListenAndServe\<close> opens the listener. \<open>listen addr\<close> gives the error, or what
  resetting the deadline and reading give.
\<close>

definition tftp_serve ::
    "bool \<Rightarrow> string option \<times> (string + bytes \<times> 'addr) list \<Rightarrow> string option \<times> ('addr \<times> rrq) list" where
  "tftp_serve hasHandler l =
     (if \<not> hasHandler then (Some ''can't serve, Handler is nil'', [])
      else case l of (Some err, _) \<Rightarrow> (Some err, []) | (None, es) \<Rightarrow> accept_requests es)"

definition listen_and_serve ::
    "(string \<Rightarrow> string + string option \<times> (string + bytes \<times> 'addr) list) \<Rightarrow> bool \<Rightarrow> string \<Rightarrow>
     string option \<times> ('addr \<times> rrq) list" where
  "listen_and_serve listen hasHandler addr =
     (let addr = (if addr = [] then '':69'' else addr) in
      case listen addr of Inl err \<Rightarrow> (Some err, []) | Inr l \<Rightarrow> tftp_serve hasHandler l)"

section \<open>Ready-made handlers\<close>

definition constant_handler :: "bytes \<Rightarrow> string \<Rightarrow> string + source \<times> int" where
  "constant_handler bs path = Inr ((bs, None), int (length bs))"

text \<open>What the operating system says of a path: whether it is a regular file, its size, and what opening it gives.\<close>

record file_system =
  Stat :: "string \<Rightarrow> string + bool \<times> int"
  Open :: "string \<Rightarrow> string + source"

definition filesystem_path :: "string \<Rightarrow> string \<Rightarrow> string" where
  "filesystem_path root path = join2 root (join2 ''/'' path)"

definition filesystem_handler :: "file_system \<Rightarrow> (string \<Rightarrow> string) \<Rightarrow> string \<Rightarrow> string \<Rightarrow> string \<Rightarrow> string + source \<times> int" where
  "filesystem_handler fs quote cwd root =
     (let root = abs_path cwd root in (\<lambda>path.
        let path = filesystem_path root path in
        case Stat fs path of
          Inl e \<Rightarrow> Inl e
        | Inr (regular, sz) \<Rightarrow>
            if \<not> regular then Inl (''requested path '' @ quote path @ '' is not a file'')
            else (case Open fs path of Inl e \<Rightarrow> Inl e | Inr f \<Rightarrow> Inr (f, sz))))"

section \<open>The boot server's handler\<close>

datatype path_error = NotFound | InvalidMac string

definition extract_info :: "string \<Rightarrow> path_error + bytes \<times> int" where
  "extract_info path =
     (let pathElements = split_on CHR ''/'' path in
      if length pathElements \<noteq> 2 then Inl NotFound
      else case parse_mac (pathElements ! 0) of
          None \<Rightarrow> Inl (InvalidMac (pathElements ! 0))
        | Some mac \<Rightarrow>
            (case parse_int64 (pathElements ! 1) of None \<Rightarrow> Inl NotFound | Some i \<Rightarrow> Inr (mac, i)))"

definition handle_tftp :: "(string \<Rightarrow> string) \<Rightarrow> boot_server \<Rightarrow> string \<Rightarrow> string + source \<times> int" where
  "handle_tftp quote s path =
     (case extract_info path of
        Inl _ \<Rightarrow> Inl (''unknown path '' @ quote path)
      | Inr (_, i) \<Rightarrow>
          (case Ipxe s i of
             None \<Rightarrow> Inl (''unknown firmware type '' @ format_int i)
           | Some bs \<Rightarrow> Inr ((contents bs, None), int (length (contents bs)))))"

definition log_tftp_transfer :: "string \<Rightarrow> string \<Rightarrow> 'e option \<Rightarrow> 'out server_state \<Rightarrow> 'out server_state" where
  "log_tftp_transfer clientAddr path err st =
     (case extract_info path of
        Inl _ \<Rightarrow> st
      | Inr (mac, _) \<Rightarrow>
          if err \<noteq> None then st
          else log_event mac machineStateTFTP (''Sent iPXE to '' @ clientAddr) st)"

text \<open>
  \<^verbatim>\<open>serveTFTP\<close> sets neither timeout nor attempts nor block size. One transfer with its log entry, on the connection
  \<open>c\<close> to the client; \<open>dialed\<close> is the outcome of setting that connection up.
\<close>

definition boot_tftp :: tftp_server where
  "boot_tftp = \<lparr>WriteTimeout = 0, WriteAttempts = 0, MaxBlockSize = 0\<rparr>"

text \<open>\<^verbatim>\<open>serveTFTP\<close> sets the handler and names the service in the error the listener \<open>l\<close> ends with.\<close>

definition serve_tftp :: "string option \<times> (string + bytes \<times> 'addr) list \<Rightarrow> string option \<times> ('addr \<times> rrq) list" where
  "serve_tftp l =
     (case tftp_serve True l of
        (Some err, ts) \<Rightarrow> (Some (''TFTP server shut down: '' @ err), ts)
      | (None, ts) \<Rightarrow> (None, ts))"

datatype transfer_failure = DialFailed string | TransferFailed transfer_error

definition transfer_and_log ::
    "(string \<Rightarrow> string) \<Rightarrow> boot_server \<Rightarrow> string \<Rightarrow> rrq \<Rightarrow> string + conn \<Rightarrow> 'out server_state \<Rightarrow>
     (transfer_failure option \<times> conn option) \<times> 'out server_state" where
  "transfer_and_log quote s addr req dialed st =
     (let (err, c) = (case dialed of
            Inl e \<Rightarrow> (Some (DialFailed e), None)
          | Inr c \<Rightarrow> (case transfer boot_tftp (handle_tftp quote s) req c of
                (None, c') \<Rightarrow> (None, Some c') | (Some e, c') \<Rightarrow> (Some (TransferFailed e), Some c')))
      in ((err, c), log_tftp_transfer addr (Filename req) err st))"

section \<open>Facts\<close>

text \<open>
  The service accepts the requests read before the first failure of the listener, in order, and nothing else; only such a
  failure ends it, never a client.
\<close>

fun reads_before_error :: "(string + 'a) list \<Rightarrow> 'a list" where
  "reads_before_error (Inr x # es) = x # reads_before_error es"
| "reads_before_error _ = []"

lemma accept_requests_eq:
  "accept_requests es = (first_failure es,
     concat (map (\<lambda>(b, addr). case parse_rrq (take 512 b) of Inl _ \<Rightarrow> [] | Inr req \<Rightarrow> [(addr, req)]) (reads_before_error es)))"
  by (induction es rule: accept_requests.induct) (simp_all split: sum.splits)

lemma serve_tftp_result:
  "fst (serve_tftp (None, es)) = map_option ((@) ''TFTP server shut down: '') (first_failure es)"
  by (cases "first_failure es") (simp_all add: serve_tftp_def tftp_serve_def accept_requests_eq)

lemma extract_tftp_path:
  assumes "mac_length (length mac)" and "- (2 ^ 63) \<le> fw" and "fw < 2 ^ 63"
  shows "extract_info (tftp_path mac fw) = Inr (mac, fw)"
proof -
  have "CHR ''/'' \<notin> set (format_int fw)"
    using slash_not_in_digits by (simp add: format_int_def)
  then have "split_on CHR ''/'' (tftp_path mac fw) = [mac_string mac, format_int fw]"
    using slash_not_in_mac by (simp add: tftp_path_def split_on_append split_on_no_sep)
  then show ?thesis
    using assms by (simp add: extract_info_def parse_mac_mac_string parse_int64_format_int)
qed

lemma extract_info_Inr:
  "extract_info path = Inr (mac, i) \<Longrightarrow>
     mac_length (length mac) \<and> (\<exists>m n. path = m @ CHR ''/'' # n \<and> parse_mac m = Some mac \<and> parse_int64 n = Some i)"
proof -
  assume "extract_info path = Inr (mac, i)"
  then have two: "length (split_on CHR ''/'' path) = 2"
    and m: "parse_mac (split_on CHR ''/'' path ! 0) = Some mac" and n: "parse_int64 (split_on CHR ''/'' path ! 1) = Some i"
    by (auto simp: extract_info_def Let_def split: if_splits option.splits)
  from two obtain a b where ab: "split_on CHR ''/'' path = [a, b]" by (auto simp: length_2_conv)
  then have "path = a @ CHR ''/'' # b" using join_split_slash [of path] by simp
  with m n ab show ?thesis using parse_mac_length by auto
qed

lemma accept_requests_parsed:
  "(addr, req) \<in> set (snd (accept_requests es)) \<Longrightarrow> \<exists>b. Inr (b, addr) \<in> set es \<and> parse_rrq (take 512 b) = Inr req"
  by (induction es rule: accept_requests.induct) (auto split: sum.splits prod.splits)

lemma validated_firmware:
  assumes "unmarshal b = Inr pkt" and "validate_dhcp pkt = Inr (mach, fw)"
  shows "length (MAC mach) = 6" and "fw \<in> {0..6}"
  using decoded_wf [OF assms(1)] validated [OF assms(2)] by (simp_all add: wf_packet_def)

lemma offered_file_resolves:
  assumes "unmarshal b = Inr pkt" and "validate_dhcp pkt = Inr (mach, fw)"
    and "fw \<noteq> FirmwareX86Ipxe" and "fw \<noteq> FirmwarePixiecoreIpxe"
  shows "extract_info (offered_file s mach ip fw) = Inr (MAC mach, fw)"
proof -
  have "offered_file s mach ip fw = tftp_path (MAC mach) fw" using assms(3,4) by (simp add: offered_file_def)
  moreover have "- (2 ^ 63) \<le> fw \<and> fw < 2 ^ 63" using validated_firmware(2) [OF assms(1,2)] by auto
  ultimately show ?thesis
    using validated_firmware(1) [OF assms(1,2)] by (simp add: extract_tftp_path mac_length_def)
qed

lemma length_tftp_path: "length mac = 6 \<Longrightarrow> fw \<in> {0..6} \<Longrightarrow> length (tftp_path mac fw) = 19"
  using length_mac_string [of mac] length_format_small [of fw] by (cases mac) (auto simp: tftp_path_def)

lemma encode_rrq_fits:
  assumes "length (Filename req) \<le> 100" and "0 \<le> BlockSize req" and "BlockSize req \<le> 65464"
  shows "length (encode_rrq req) \<le> 512"
  using assms length_format_port [of "BlockSize req"] by (simp add: encode_rrq_def encode_option_def)

definition below :: "string \<Rightarrow> string \<Rightarrow> bool" where
  "below root p \<longleftrightarrow> (\<exists>base rest. root = rooted base \<and> p = rooted (base @ rest) \<and> (\<forall>e \<in> set (base @ rest). proper e))"

lemma filesystem_path_below: "below (abs_path cwd root) (filesystem_path (abs_path cwd root) path)"
proof -
  obtain base where base: "abs_path cwd root = rooted base" "\<forall>e \<in> set base. proper e"
    using clean_shape [of root] clean_shape [of cwd] clean_shape [of "cwd @ CHR ''/'' # root"]
    unfolding abs_path_def join2_def by metis
  obtain rest where rest: "join2 ''/'' path = rooted rest" "\<forall>e \<in> set rest. proper e"
    using clean_shape [of "''/''"] clean_shape [of "''/'' @ CHR ''/'' # path"] unfolding join2_def by metis
  have "filesystem_path (abs_path cwd root) path = rooted (base @ rest)"
    using base rest by (simp add: filesystem_path_def join2_rooted)
  with base rest show ?thesis
    unfolding below_def by (intro exI [of _ base] exI [of _ rest]) auto
qed

lemma below_elements: "below (rooted es) p \<Longrightarrow> \<forall>e \<in> set es. proper e \<Longrightarrow> \<exists>rest. p = rooted (es @ rest)"
  unfolding below_def by (metis in_set_conv_decomp split_rooted append.assoc Un_iff set_append)

section \<open>Properties\<close>

text \<open>
  The boot file an offer names is what the TFTP service finds: for every validated discovery of a client that boots by
  TFTP, the offered name reads back as the client's address and firmware, and the handler returns the configured binary
  with its size.
\<close>

theorem offered_file_found:
  assumes "unmarshal b = Inr pkt" and "validate_dhcp pkt = Inr (mach, fw)"
    and "fw \<noteq> FirmwareX86Ipxe" and "fw \<noteq> FirmwarePixiecoreIpxe"
  shows "extract_info (offered_file s mach ip fw) = Inr (HardwareAddr pkt, fw) \<and>
    (Ipxe s fw = Some (Some bin) \<longrightarrow>
      handle_tftp quote s (offered_file s mach ip fw) = Inr ((bin, None), int (length bin)))"
  using offered_file_resolves [OF assms] validated(1) [OF assms(2)] by (simp add: handle_tftp_def)

theorem offered_file_found_witness:
  "extract_info (offered_file sample_server \<lparr>MAC = [2, 0, 0, 0, 0, 1], Arch = ArchX64\<rparr> [192, 168, 1, 5] FirmwareEFI64) =
     Inr ([2, 0, 0, 0, 0, 1], FirmwareEFI64)"
proof -
  obtain b where "unmarshal b = Inr (received sample_discover)" using sample_discover_ok by blast
  from offered_file_found [OF this sample_discover_valid] show ?thesis
    by (simp add: received_def sample_discover_def)
qed

text \<open>The request for the offered file, and the transfer of a client that acknowledges.\<close>

lemma boot_transfer:
  assumes "unmarshal b = Inr pkt" and "validate_dhcp pkt = Inr (mach, fw)"
    and "fw \<noteq> FirmwareX86Ipxe" and "fw \<noteq> FirmwarePixiecoreIpxe" and "Ipxe s fw = Some (Some bin)"
    and "Filename req = offered_file s mach ip fw" and "BlockSize req = 0 \<or> 8 \<le> BlockSize req \<and> BlockSize req \<le> 65464"
    and "refuses c = (\<lambda>_. None)" and "sent c = []"
    and "reads_left c = (if wants_oack req (int (length bin)) then [Received (ack_packet 0)] else []) @
      map (\<lambda>i. Received (ack_packet (1 + word_of_nat i))) [0..<length (blocks (block_bytes boot_tftp req) bin)]"
  shows "accept_requests [Inr (encode_rrq req, addr)] = (None, [(addr, req)])"
    and "\<exists>c'. transfer_and_log quote s peer req (Inr c) st =
        ((None, Some c'), log_event (HardwareAddr pkt) machineStateTFTP (''Sent iPXE to '' @ peer) st) \<and>
      sent c' = transfer_packets boot_tftp req (int (length bin)) bin"
proof -
  note mac = validated_firmware [OF assms(1,2)]
  have name: "Filename req = tftp_path (MAC mach) fw" using assms(3,4,6) by (simp add: offered_file_def)
  have "netascii (Filename req)" by (simp add: name tftp_path_def printable)
  then have "parse_rrq (encode_rrq req) = Inr req" using assms(7) by (rule parse_encoded_rrq)
  moreover have "length (encode_rrq req) \<le> 512"
    using assms(7) length_tftp_path [OF mac] by (intro encode_rrq_fits) (auto simp: name)
  ultimately show "accept_requests [Inr (encode_rrq req, addr)] = (None, [(addr, req)])" by simp
  have info: "extract_info (Filename req) = Inr (HardwareAddr pkt, fw)"
    using offered_file_resolves [OF assms(1-4)] validated(1) [OF assms(2)] assms(6) by simp
  then have "handle_tftp quote s (Filename req) = Inr ((bin, None), int (length bin))"
    using assms(5) by (simp add: handle_tftp_def)
  from transfer_acked [where handler = "handle_tftp quote s", OF this assms(8) _ assms(10)] assms(7,9)
  have run: "fst (transfer boot_tftp (handle_tftp quote s) req c) = None"
      "sent (snd (transfer boot_tftp (handle_tftp quote s) req c)) = transfer_packets boot_tftp req (int (length bin)) bin"
    by auto
  obtain c' where c': "transfer boot_tftp (handle_tftp quote s) req c = (None, c')"
    using run(1) by (metis prod.collapse)
  let ?st = "log_event (HardwareAddr pkt) machineStateTFTP (''Sent iPXE to '' @ peer) st"
  have finished: "transfer_and_log quote s peer req (Inr c) st = ((None, Some c'), ?st)"
    using c' info by (simp add: transfer_and_log_def log_tftp_transfer_def)
  then show "\<exists>c'. transfer_and_log quote s peer req (Inr c) st = ((None, Some c'), ?st) \<and>
      sent c' = transfer_packets boot_tftp req (int (length bin)) bin"
    using run(2) c' by auto
qed

text \<open>
  C2. From the offer to the boot binary: a client that asks for the offered file, with or without a block size or the wish for
  the size, and acknowledges each packet, is accepted, receives the binary configured for its firmware, whole and in
  order, and the transfer is the last entry of its event log.
\<close>

theorem boot_binary_delivered:
  assumes "unmarshal b = Inr pkt" and "validate_dhcp pkt = Inr (mach, fw)"
    and "fw \<noteq> FirmwareX86Ipxe" and "fw \<noteq> FirmwarePixiecoreIpxe" and "Ipxe s fw = Some (Some bin)"
    and "Filename req = offered_file s mach ip fw" and "BlockSize req = 0 \<or> 8 \<le> BlockSize req \<and> BlockSize req \<le> 65464"
    and "refuses c = (\<lambda>_. None)" and "sent c = []"
    and "reads_left c = (if wants_oack req (int (length bin)) then [Received (ack_packet 0)] else []) @
      map (\<lambda>i. Received (ack_packet (1 + word_of_nat i))) [0..<length (blocks (block_bytes boot_tftp req) bin)]"
  shows "accept_requests [Inr (encode_rrq req, addr)] = (None, [(addr, req)]) \<and>
    (\<exists>c' st'. transfer_and_log quote s peer req (Inr c) st = ((None, Some c'), st') \<and>
       sent c' = (if wants_oack req (int (length bin)) then [oack_packet (negotiate boot_tftp req) (int (length bin))] else []) @
         data_packets (block_bytes boot_tftp req) 1 bin \<and>
       concat (map (drop 4) (data_packets (block_bytes boot_tftp req) 1 bin)) = bin \<and>
       Events st' (mac_string (HardwareAddr pkt)) \<noteq> [] \<and>
       State (last (Events st' (mac_string (HardwareAddr pkt)))) = machineStateTFTP)"
proof -
  let ?st = "log_event (HardwareAddr pkt) machineStateTFTP (''Sent iPXE to '' @ peer) st"
  have "Events ?st (mac_string (HardwareAddr pkt)) \<noteq> [] \<and>
      State (last (Events ?st (mac_string (HardwareAddr pkt)))) = machineStateTFTP"
    by (simp add: log_event_def add_event_at last_events_def saved_events_per_machine_def)
  then show ?thesis
    using boot_transfer(1) [OF assms] boot_transfer(2) [where quote = quote and peer = peer and st = st, OF assms] payloads_of_packets
    by (auto simp: transfer_packets_def)
qed

definition tftp_sample_server :: boot_server where
  "tftp_sample_server = sample_server\<lparr>Ipxe := [FirmwareEFI64 \<mapsto> Some [1, 2, 3]]\<rparr>"

theorem boot_binary_delivered_witness:
  "\<exists>c' st'. transfer_and_log id tftp_sample_server ''client''
     \<lparr>Filename = tftp_path [2, 0, 0, 0, 0, 1] FirmwareEFI64, BlockSize = 0, WantSize = False\<rparr>
     (Inr \<lparr>sent = [], reads_left = [Received (ack_packet 1)], refuses = (\<lambda>_. None)\<rparr>)
     \<lparr>Events = (\<lambda>_. []), Sent = ([] :: nat list), Moment = 0\<rparr> = ((None, Some c'), st') \<and>
     sent c' = [data_packet 1 [1, 2, 3]]"
proof -
  let ?mach = "\<lparr>MAC = [2, 0, 0, 0, 0, 1], Arch = ArchX64\<rparr>"
  let ?req = "\<lparr>Filename = tftp_path [2, 0, 0, 0, 0, 1] FirmwareEFI64, BlockSize = 0, WantSize = False\<rparr>"
  let ?c = "\<lparr>sent = [], reads_left = [Received (ack_packet 1)], refuses = (\<lambda>_. None)\<rparr>"
  obtain b where b: "unmarshal b = Inr (received sample_discover)" using sample_discover_ok by blast
  have "Ipxe tftp_sample_server FirmwareEFI64 = Some (Some [1, 2, 3])" by (simp add: tftp_sample_server_def)
  moreover have "Filename ?req = offered_file tftp_sample_server ?mach [] FirmwareEFI64" by (simp add: offered_file_def)
  moreover have "length (blocks 512 [1, 2, 3 :: byte]) = 1" by (simp add: length_blocks)
  then have "reads_left ?c = (if wants_oack ?req (int (length [1, 2, 3 :: byte])) then [Received (ack_packet 0)] else []) @
      map (\<lambda>i. Received (ack_packet (1 + word_of_nat i))) [0..<length (blocks (block_bytes boot_tftp ?req) [1, 2, 3])]"
    by (simp add: wants_oack_def block_bytes_def upt_rec)
  ultimately have "\<exists>c' st'. transfer_and_log id tftp_sample_server ''client'' ?req (Inr ?c)
        \<lparr>Events = (\<lambda>_. []), Sent = ([] :: nat list), Moment = 0\<rparr> = ((None, Some c'), st') \<and>
      sent c' = data_packets 512 1 [1, 2, 3]"
    using boot_binary_delivered [OF b sample_discover_valid, of tftp_sample_server "[1, 2, 3]" ?req "[]" ?c "()" id "''client''"
        "\<lparr>Events = (\<lambda>_. []), Sent = ([] :: nat list), Moment = 0\<rparr>"]
    by (auto simp: wants_oack_def block_bytes_def)
  then show ?thesis by (simp add: data_packets_rec)
qed

text \<open>
  C18. The file system handler never leaves its root: whatever path is asked for, its answer depends only on what the
  operating system says of paths below the root, that is with the root's elements as their first elements and no
  element that is empty, \<^verbatim>\<open>.\<close> or \<^verbatim>\<open>..\<close>.
\<close>

theorem filesystem_handler_confined:
  assumes "\<And>p. below (abs_path cwd root) p \<Longrightarrow> Stat fs p = Stat fs' p \<and> Open fs p = Open fs' p"
  shows "filesystem_handler fs quote cwd root path = filesystem_handler fs' quote cwd root path"
  using assms [OF filesystem_path_below [of cwd root path]]
  by (auto simp: filesystem_handler_def Let_def split: sum.splits)

theorem filesystem_handler_confined_witness:
  "filesystem_handler \<lparr>Stat = (\<lambda>_. Inr (True, 1)), Open = (\<lambda>p. Inr ((if p = ''/etc/passwd'' then [1] else [2], None)))\<rparr> id [] ''/srv'' ''../etc/passwd'' =
   filesystem_handler \<lparr>Stat = (\<lambda>_. Inr (True, 1)), Open = (\<lambda>p. Inr ([2], None))\<rparr> id [] ''/srv'' ''../etc/passwd''"
proof (rule filesystem_handler_confined)
  fix p
  assume below: "below (abs_path [] ''/srv'') p"
  have "abs_path [] ''/srv'' = rooted [''srv'']" by code_simp
  with below have "\<exists>rest. p = rooted (''srv'' # rest)"
    using below_elements [of "[''srv'']" p] by (simp add: proper_def)
  then have "p \<noteq> ''/etc/passwd''" by (auto simp: rooted_def)
  then show "Stat \<lparr>Stat = (\<lambda>_. Inr (True, 1)), Open = (\<lambda>p. Inr ((if p = ''/etc/passwd'' then [1] else [2], None)))\<rparr> p =
      Stat \<lparr>Stat = (\<lambda>_. Inr (True, 1)), Open = (\<lambda>p. Inr ([2], None))\<rparr> p \<and>
    Open \<lparr>Stat = (\<lambda>_. Inr (True, 1)), Open = (\<lambda>p. Inr ((if p = ''/etc/passwd'' then [1] else [2], None)))\<rparr> p =
      Open \<lparr>Stat = (\<lambda>_. Inr (True, 1)), Open = (\<lambda>p. Inr ([2], None))\<rparr> p"
    by simp
qed

end
