(* ===== verification/Cmdline.thy ===== *)
theory Cmdline
  imports Go_Url
begin

text \<open>
  Kernel command lines (\<^verbatim>\<open>utils/common.go\<close>): a template with one function is executed, trimmed and
  checked for line breaks.
\<close>

text \<open>
  A template engine runs a template with a function that may keep a state, as the closures the program hands to
  \<^verbatim>\<open>text/template\<close> do; a template that does not parse is an error with the state unchanged.
\<close>

type_synonym 's template = "('s \<Rightarrow> string \<Rightarrow> (string + string) \<times> 's) \<Rightarrow> string \<Rightarrow> 's \<Rightarrow> (string + string) \<times> 's"

definition newline :: char where "newline = CHR 0x0A"

definition expand_cmdline ::
    "'s template \<Rightarrow> ('s \<Rightarrow> string \<Rightarrow> (string + string) \<times> 's) \<Rightarrow> string \<Rightarrow> 's \<Rightarrow> (string + string) \<times> 's" where
  "expand_cmdline run f tpl s =
     (case run f tpl s of
        (Inl e, s') \<Rightarrow> (Inl e, s')
      | (Inr out, s') \<Rightarrow>
          let cmdline = trim_space out
          in if newline \<in> set cmdline then (Inl ''cmdline contains a newline'', s') else (Inr cmdline, s'))"

text \<open>
  An engine that only calls its function leaves a state the calls can explain: every property the calls keep
  holds at the end.
\<close>

definition calls_only :: "'s template \<Rightarrow> bool" where
  "calls_only run \<longleftrightarrow>
     (\<forall>f tpl s P. P s \<longrightarrow> (\<forall>s arg. P s \<longrightarrow> P (snd (f s arg))) \<longrightarrow> P (snd (run f tpl s)))"

lemma calls_onlyD:
  "calls_only run \<Longrightarrow> P s \<Longrightarrow> (\<And>s arg. P s \<Longrightarrow> P (snd (f s arg))) \<Longrightarrow> P (snd (run f tpl s))"
  unfolding calls_only_def by blast

lemma snd_expand_cmdline: "snd (expand_cmdline run f tpl s) = snd (run f tpl s)"
  by (auto simp: expand_cmdline_def Let_def split: prod.splits sum.splits)

text \<open>What comes out is one line without white space at its ends.\<close>

lemma expand_cmdline_line: "fst (expand_cmdline run f tpl s) = Inr c \<Longrightarrow> newline \<notin> set c"
  by (auto simp: expand_cmdline_def Let_def split: prod.splits sum.splits if_splits)

text \<open>The engine for templates made of text and calls, as a list of pieces.\<close>

datatype piece = Literal string | Call string

fun run_pieces :: "('s \<Rightarrow> string \<Rightarrow> (string + string) \<times> 's) \<Rightarrow> piece list \<Rightarrow> 's \<Rightarrow> (string + string) \<times> 's" where
  "run_pieces f [] s = (Inr [], s)"
| "run_pieces f (Literal t # ps) s =
     (case run_pieces f ps s of (Inl e, s') \<Rightarrow> (Inl e, s') | (Inr out, s') \<Rightarrow> (Inr (t @ out), s'))"
| "run_pieces f (Call a # ps) s =
     (case f s a of
        (Inl e, s') \<Rightarrow> (Inl e, s')
      | (Inr t, s') \<Rightarrow> (case run_pieces f ps s' of (Inl e, s'') \<Rightarrow> (Inl e, s'') | (Inr out, s'') \<Rightarrow> (Inr (t @ out), s'')))"

lemma run_pieces_calls: "P s \<Longrightarrow> (\<And>s arg. P s \<Longrightarrow> P (snd (f s arg))) \<Longrightarrow> P (snd (run_pieces f ps s))"
proof (induction f ps s rule: run_pieces.induct)
  case (3 f a ps s)
  obtain r s' where call: "f s a = (r, s')" by fastforce
  with "3.prems" have "P s'" by (metis snd_conv)
  then have "r = Inr t \<Longrightarrow> P (snd (run_pieces f ps s'))" for t
    using "3.IH" [OF call [symmetric] _ \<open>P s'\<close> "3.prems"(2)] by simp
  with \<open>P s'\<close> call show ?case by (cases r) (auto split: sum.splits prod.splits)
qed (auto split: sum.splits prod.splits)

lemma calls_only_pieces: "calls_only (\<lambda>f tpl. run_pieces f (parse (tpl :: string)))"
  unfolding calls_only_def
proof (intro allI impI)
  fix f :: "'a \<Rightarrow> string \<Rightarrow> (string + string) \<times> 'a" and tpl and s :: 'a and P
  assume "P s" and "\<forall>s arg. P s \<longrightarrow> P (snd (f s arg))"
  then show "P (snd (run_pieces f (parse tpl) s))" by (intro run_pieces_calls [where P = P]) simp_all
qed

end
