(* ===== verification/Server_Http.thy ===== *)
theory Server_Http
  imports Server_Dhcp Cmdline
begin

text \<open>
  The HTTP service of the boot server (\<^verbatim>\<open>server/http.go\<close>, \<^verbatim>\<open>utils/common.go\<close>): boot
  scripts, boot files and the no-op script that marks a machine as booted. \<open>quote\<close> renders \<^verbatim>\<open>%q\<close>,
  \<open>other\<close> is what \<^verbatim>\<open>Sprintf\<close> does with verbs but \<^verbatim>\<open>%s\<close>, and \<open>run\<close> executes a
  \<^verbatim>\<open>text/template\<close> with one function.
\<close>

section \<open>Requests and responses\<close>

text \<open>
  A request comes with its connection: \<open>Takes r len body\<close> is how much of a body the response writer takes when the length
  \<open>len\<close> was announced for it, and the error of writing it. Besides a client that is gone, a body longer than announced is such
  an error (\<^verbatim>\<open>http.ErrContentLength\<close>).
\<close>

record http_request =
  Path :: string
  RawQuery :: string
  Host :: string
  Takes :: "int option \<Rightarrow> bytes \<Rightarrow> bytes \<times> string option"

record http_response =
  Status :: int
  ContentType :: "string option"
  ContentLength :: "int option"
  Body :: bytes

definition http_error :: "string \<Rightarrow> int \<Rightarrow> http_response" where
  "http_error msg code =
     \<lparr>Status = code, ContentType = Some ''text/plain; charset=utf-8'', ContentLength = None, Body = bytes_of msg @ [10]\<rparr>"

section \<open>Boot scripts\<close>

definition boot_file_namer :: "booter \<Rightarrow> string \<Rightarrow> string" where
  "boot_file_namer b = (case FileNamer b of None \<Rightarrow> (\<lambda>_. []) | Some namer \<Rightarrow> namer)"

definition file_url :: "string \<Rightarrow> string \<Rightarrow> string \<Rightarrow> string" where
  "file_url serverHost ident name =
     (if name = [] then ''http://'' @ serverHost @ ''/_/file?name='' @ query_escape ident
      else ''http://'' @ serverHost @ ''/_/file/'' @ path_escape name @ ''?name='' @ query_escape ident)"

definition url_template :: "string \<Rightarrow> string" where
  "url_template serverHost = ''http://'' @ serverHost @ ''/_/file?name=%s&type=%s&mac=%s''"

fun initrd_lines :: "(string \<Rightarrow> string list \<Rightarrow> string) \<Rightarrow> string \<Rightarrow> string \<Rightarrow> nat \<Rightarrow> string list \<Rightarrow> string" where
  "initrd_lines other serverHost mac i [] = []"
| "initrd_lines other serverHost mac i (initrd # initrds) =
     ''initrd --name initrd'' @ format_nat i @ '' '' @
     sprintf other (url_template serverHost) [query_escape initrd, ''initrd'', query_escape mac] @ [CHR 0x0A] @
     initrd_lines other serverHost mac (i + 1) initrds"

fun initrd_names :: "nat \<Rightarrow> string list \<Rightarrow> string" where
  "initrd_names i [] = []"
| "initrd_names i (_ # initrds) = ''initrd=initrd'' @ format_nat i @ '' '' @ initrd_names (i + 1) initrds"

definition ipxe_script ::
    "(string \<Rightarrow> string list \<Rightarrow> string) \<Rightarrow> unit template \<Rightarrow> machine \<Rightarrow> spec \<Rightarrow> string \<Rightarrow> (string \<Rightarrow> string) \<Rightarrow> string + string" where
  "ipxe_script other run mach sp serverHost fileName =
     (if IpxeScript sp \<noteq> [] then Inr (IpxeScript sp)
      else if Kernel sp = [] then Inl ''spec is missing Kernel''
      else
        let mac = mac_string (MAC mach);
            u = sprintf other (url_template serverHost) [query_escape (Kernel sp), ''kernel'', query_escape mac];
            f = (\<lambda>u ident. (Inr (file_url serverHost ident (fileName ident)), u))
        in case fst (expand_cmdline run f (Cmdline sp) ()) of
            Inl e \<Rightarrow> Inl e
          | Inr cmdline \<Rightarrow> Inr (
              ''#!ipxe'' @ [CHR 0x0A] @ ''kernel --name kernel '' @ u @ [CHR 0x0A] @
              initrd_lines other serverHost mac 0 (Initrd sp) @
              ''imgfetch --name ready http://'' @ serverHost @ ''/_/booting?mac='' @ query_escape mac @ '' ||'' @ [CHR 0x0A] @
              ''imgfree ready ||'' @ [CHR 0x0A] @
              ''boot kernel '' @ initrd_names 0 (Initrd sp) @ cmdline @ [CHR 0x0A]))"

definition ipxe_script_efi :: "machine \<Rightarrow> spec \<Rightarrow> string \<Rightarrow> string" where
  "ipxe_script_efi mach sp serverHost =
     (if IpxeScript sp \<noteq> [] then IpxeScript sp
      else ''#!ipxe'' @ [CHR 0x0A] @ ''chain --autofree http://'' @ serverHost @ ''/_/file?name='' @ Efi sp @ ''&type=efi&mac='' @
        query_escape (mac_string (MAC mach)) @ [CHR 0x0A] @ [CHR 0x0A])"

section \<open>The handlers\<close>

definition handle_ipxe ::
    "(string \<Rightarrow> string list \<Rightarrow> string) \<Rightarrow> unit template \<Rightarrow> boot_server \<Rightarrow> http_request \<Rightarrow> 'out server_state \<Rightarrow>
     http_response \<times> 'out server_state" where
  "handle_ipxe other run s r st =
     (let macStr = query_get (RawQuery r) ''mac'' in
      if macStr = [] then (http_error ''missing MAC address parameter'' 400, st) else
      let archStr = query_get (RawQuery r) ''arch'' in
      if archStr = [] then (http_error ''missing architecture parameter'' 400, st) else
      case parse_mac macStr of
        None \<Rightarrow> (http_error ''invalid MAC address'' 400, st)
      | Some mac \<Rightarrow>
      (case parse_int64 archStr of
        None \<Rightarrow> (http_error ''invalid architecture'' 400, st)
      | Some arch \<Rightarrow>
      if arch \<noteq> ArchIA32 \<and> arch \<noteq> ArchX64 \<and> arch \<noteq> ArchArm64 then (http_error ''unknown architecture'' 400, st) else
      let mach = \<lparr>MAC = mac, Arch = arch\<rparr> in
      (case BootSpec (Booter s) (Moment st) mach of
        Inl _ \<Rightarrow> (http_error ''couldn't get a bootspec'' 500, st)
      | Inr None \<Rightarrow> (http_error ''you don't netboot'' 404, st)
      | Inr (Some sp) \<Rightarrow>
      let script = (if Efi sp \<noteq> [] then Inr (ipxe_script_efi mach sp (Host r))
                    else ipxe_script other run mach sp (Host r) (boot_file_namer (Booter s))) in
      (case script of
        Inl _ \<Rightarrow> (http_error ''couldn't get a boot script'' 500, st)
      | Inr script \<Rightarrow>
          (\<lparr>Status = 200, ContentType = Some ''text/plain'', ContentLength = None, Body = bytes_of script\<rparr>,
           log_event mac machineStateIpxeScript ''Sent iPXE boot script'' st)))))"

text \<open>
  The type of a file fetch decides what is logged once the file has been sent. A copy that fails midway, on reading the file or
  on writing to the client, ends the handler: the client has got what was taken until then, and nothing is logged. Headers of a response without explicit content type are the standard library's.
\<close>

definition log_file_fetch :: "(string \<Rightarrow> string) \<Rightarrow> http_request \<Rightarrow> string \<Rightarrow> 'out server_state \<Rightarrow> 'out server_state" where
  "log_file_fetch quote r name st =
     (let typ = query_get (RawQuery r) ''type''; macStr = query_get (RawQuery r) ''mac'' in
      if typ = ''kernel'' then
        (case parse_mac macStr of None \<Rightarrow> st | Some mac \<Rightarrow> log_event mac machineStateKernel (''Sent kernel '' @ quote name) st)
      else if typ = ''initrd'' then
        (case parse_mac macStr of None \<Rightarrow> st | Some mac \<Rightarrow> log_event mac machineStateInitrd (''Sent initrd '' @ quote name) st)
      else st)"

definition handle_file ::
    "(string \<Rightarrow> string) \<Rightarrow> boot_server \<Rightarrow> http_request \<Rightarrow> 'out server_state \<Rightarrow> http_response \<times> 'out server_state" where
  "handle_file quote s r st =
     (let name = query_get (RawQuery r) ''name'' in
      if name = [] then (http_error ''missing filename'' 400, st)
      else case ReadBootFile (Booter s) (Moment st) name of
          Inl _ \<Rightarrow> (http_error ''couldn't get file'' 500, st)
        | Inr ((content, err), sz) \<Rightarrow>
            let len = (if 0 \<le> sz then Some sz else None); (taken, refused) = Takes r len content in
            (\<lparr>Status = 200, ContentType = None, ContentLength = len, Body = taken\<rparr>,
             if refused \<noteq> None \<or> err \<noteq> None then st else log_file_fetch quote r name st))"

definition handle_booting :: "http_request \<Rightarrow> 'out server_state \<Rightarrow> http_response \<times> 'out server_state" where
  "handle_booting r st =
     (\<lparr>Status = 200, ContentType = None, ContentLength = None, Body = bytes_of ''# Booting''\<rparr>,
      let macStr = query_get (RawQuery r) ''mac'' in
      if macStr = [] then st
      else case parse_mac macStr of None \<Rightarrow> st | Some mac \<Rightarrow> log_event mac machineStateBooted ''Booting into OS'' st)"

text \<open>
  The multiplexer: registered patterns with their handlers. A pattern matches its own path, and one that ends in a slash
  every path below it too; the longest match wins.
\<close>

type_synonym 'out http_handler = "http_request \<Rightarrow> 'out server_state \<Rightarrow> http_response \<times> 'out server_state"
type_synonym 'out mux = "(string \<times> 'out http_handler) list"

definition handle_func :: "string \<Rightarrow> 'out http_handler \<Rightarrow> 'out mux \<Rightarrow> 'out mux" where
  "handle_func pattern h mux = mux @ [(pattern, h)]"

definition mux_matches :: "string \<Rightarrow> string \<Rightarrow> bool" where
  "mux_matches path pattern \<longleftrightarrow> path = pattern \<or> (pattern \<noteq> [] \<and> last pattern = CHR ''/'' \<and> has_prefix path pattern)"

fun mux_handler :: "'out mux \<Rightarrow> string \<Rightarrow> (string \<times> 'out http_handler) option" where
  "mux_handler [] path = None"
| "mux_handler ((pattern, h) # mux) path =
     (case mux_handler mux path of
        Some (pattern', h') \<Rightarrow> if mux_matches path pattern \<and> length pattern' < length pattern then Some (pattern, h) else Some (pattern', h')
      | None \<Rightarrow> if mux_matches path pattern then Some (pattern, h) else None)"

definition server_routes ::
    "(string \<Rightarrow> string) \<Rightarrow> (string \<Rightarrow> string list \<Rightarrow> string) \<Rightarrow> unit template \<Rightarrow> boot_server \<Rightarrow> 'out mux \<Rightarrow> 'out mux" where
  "server_routes quote other run s mux =
     (let mux = handle_func ''/_/ipxe'' (handle_ipxe other run s) mux;
          mux = handle_func ''/_/file'' (handle_file quote s) mux;
          mux = handle_func ''/_/file/'' (handle_file quote s) mux
      in handle_func ''/_/booting'' handle_booting mux)"

text \<open>
  \<^verbatim>\<open>serveHTTP\<close> registers the handlers it is given and serves what the listener accepts; \<open>missing\<close> is the
  multiplexer's own answer where no pattern matches. Requests are paths in clean form.
\<close>

fun http_serve :: "'out http_handler \<Rightarrow> 'out mux \<Rightarrow> (string + http_request) list \<Rightarrow> 'out server_state \<Rightarrow>
    string option \<times> http_response list \<times> 'out server_state" where
  "http_serve missing mux [] st = (None, [], st)"
| "http_serve missing mux (Inl err # es) st = (Some err, [], st)"
| "http_serve missing mux (Inr r # es) st =
     (let h = (case mux_handler mux (Path r) of None \<Rightarrow> missing | Some (_, h) \<Rightarrow> h); (resp, st) = h r st;
          (err, resps, st) = http_serve missing mux es st
      in (err, resp # resps, st))"

definition serve_http_listener :: "'out http_handler \<Rightarrow> ('out mux \<Rightarrow> 'out mux) list \<Rightarrow> (string + http_request) list \<Rightarrow> 'out server_state \<Rightarrow>
    string option \<times> http_response list \<times> 'out server_state" where
  "serve_http_listener missing handlers es st =
     (case http_serve missing (fold (\<lambda>h mux. h mux) handlers []) es st of
        (Some err, rest) \<Rightarrow> (Some (''HTTP server shut down: '' @ err), rest)
      | (None, rest) \<Rightarrow> (None, rest))"

text \<open>One request to the server's routes: the answer, unless none of them matches.\<close>

definition serve_http ::
    "(string \<Rightarrow> string) \<Rightarrow> (string \<Rightarrow> string list \<Rightarrow> string) \<Rightarrow> unit template \<Rightarrow> boot_server \<Rightarrow> http_request \<Rightarrow> 'out server_state \<Rightarrow>
     (http_response \<times> 'out server_state) option" where
  "serve_http quote other run s r st =
     map_option (\<lambda>(_, h). h r st) (mux_handler (server_routes quote other run s []) (Path r))"

section \<open>Facts\<close>

text \<open>The routes by path: three exact ones and one subtree.\<close>

lemma serve_http_routes:
  "serve_http quote other run s r st =
     (if Path r = ''/_/ipxe'' then Some (handle_ipxe other run s r st)
      else if Path r = ''/_/file'' then Some (handle_file quote s r st)
      else if has_prefix (Path r) ''/_/file/'' then Some (handle_file quote s r st)
      else if Path r = ''/_/booting'' then Some (handle_booting r st)
      else None)"
  by (auto simp: serve_http_def server_routes_def handle_func_def mux_matches_def has_prefix_iff)

text \<open>A listener that works is served for ever, and every request is answered, by the server or the multiplexer.\<close>

lemma http_serve_answers:
  "http_serve missing mux (map Inr rs) st = (None, resps, st') \<Longrightarrow> length resps = length rs"
  by (induction rs arbitrary: st resps) (auto simp: Let_def split: prod.splits)

lemma http_serve_result: "fst (http_serve missing mux es st) = first_failure es"
  by (induction missing mux es st rule: http_serve.induct) (auto simp: Let_def split: prod.splits)

lemma listener_result:
  "fst (serve_http_listener missing handlers es st) = map_option ((@) ''HTTP server shut down: '') (first_failure es)"
proof -
  obtain err rest where served: "http_serve missing (fold (\<lambda>h mux. h mux) handlers []) es st = (err, rest)"
    by (cases "http_serve missing (fold (\<lambda>h mux. h mux) handlers []) es st")
  then have "err = first_failure es"
    using http_serve_result [of missing "fold (\<lambda>h mux. h mux) handlers []" es st] by simp
  with served show ?thesis by (simp add: serve_http_listener_def split: option.split)
qed

text \<open>Each request is answered in the state the ones before it left, by the route of its path.\<close>

lemma http_serve_append:
  "http_serve missing mux (map Inr rs @ es) st =
     (let (_, resps, st) = http_serve missing mux (map Inr rs) st; (err, resps', st) = http_serve missing mux es st
      in (err, resps @ resps', st))"
  by (induction rs arbitrary: st) (simp_all add: Let_def split: prod.splits)

lemma http_serve_one:
  "http_serve missing (server_routes quote other run s []) [Inr r] st =
     (case serve_http quote other run s r st of Some (resp, st) \<Rightarrow> (None, [resp], st)
      | None \<Rightarrow> (let (resp, st) = missing r st in (None, [resp], st)))"
  by (simp add: serve_http_def Let_def split: option.splits prod.splits)

text \<open>
  A client fetching a URL: host up to the first slash, path up to the question mark, unescaped, and the raw query. It stays
  until the end, so that every body of at most the announced length is taken. (How much of a longer one it gets depends on
  the pieces in which it is copied; here it is all that was announced.)
\<close>

definition client_takes :: "int option \<Rightarrow> bytes \<Rightarrow> bytes \<times> string option" where
  "client_takes len body =
     (case len of
        None \<Rightarrow> (body, None)
      | Some n \<Rightarrow>
          if n < int (length body) then (take (nat n) body, Some ''http: wrote more than the declared Content-Length'') else (body, None))"

definition client_request :: "string \<Rightarrow> http_request option" where
  "client_request url =
     (if has_prefix url ''http://'' then
        let (host, rest) = cut CHR ''/'' (drop 7 url); (path, query) = cut CHR ''?'' rest
        in map_option (\<lambda>p. \<lparr>Path = CHR ''/'' # p, RawQuery = query, Host = host, Takes = client_takes\<rparr>) (path_unescape path)
      else None)"

lemma client_request_url:
  assumes "CHR ''/'' \<notin> set host" and "CHR ''?'' \<notin> set path" and "path_unescape path = Some p"
  shows "client_request (''http://'' @ host @ CHR ''/'' # path @ CHR ''?'' # query) = Some \<lparr>Path = CHR ''/'' # p, RawQuery = query, Host = host, Takes = client_takes\<rparr>"
  using assms by (simp add: client_request_def cut_append has_prefix_iff)

text \<open>The keys and kinds the program writes into queries, and hardware addresses, need no escaping.\<close>

lemma query_words [simp]:
  "unreserved CHR ''a''" "unreserved CHR ''c''" "unreserved CHR ''e''" "unreserved CHR ''h''" "unreserved CHR ''m''"
  "unreserved CHR ''n''" "unreserved CHR ''p''" "unreserved CHR ''r''" "unreserved CHR ''t''" "unreserved CHR ''y''"
  by (simp_all add: unreserved_def is_alnum_def)

lemma escaped_safe [simp]:
  "CHR ''&'' \<notin> set (query_escape s)" "CHR '';'' \<notin> set (query_escape s)"
  using query_escape_safe by blast+

definition fetch_query :: "string \<Rightarrow> string \<Rightarrow> bytes \<Rightarrow> string" where
  "fetch_query ident kind mac = ''name='' @ query_escape ident @ ''&type='' @ kind @ ''&mac='' @ query_escape (mac_string mac)"

lemma fetch_query_get:
  assumes "kind = ''kernel'' \<or> kind = ''initrd''"
  shows "query_get (fetch_query ident kind mac) ''name'' = ident"
    and "query_get (fetch_query ident kind mac) ''type'' = kind"
    and "query_get (fetch_query ident kind mac) ''mac'' = mac_string mac"
proof -
  have kind: "CHR ''&'' \<notin> set kind" "CHR '';'' \<notin> set kind" "query_unescape kind = Some kind"
    using assms by auto
  have *: "query_get (fetch_query ident kind mac) key =
      (if key = ''name'' then ident else if key = ''type'' then kind else if key = ''mac'' then mac_string mac else [])" for key
    using query_get_Cons(1) [of "''name''" "query_escape ident" ident "''type='' @ kind @ ''&mac='' @ query_escape (mac_string mac)" key]
      query_get_Cons(1) [OF _ kind(2,1,3), of "''type''" "''mac='' @ query_escape (mac_string mac)" key]
      query_get_Cons(2) [of "''mac''" "query_escape (mac_string mac)" "mac_string mac" key]
    by (simp add: fetch_query_def)
  show "query_get (fetch_query ident kind mac) ''name'' = ident" "query_get (fetch_query ident kind mac) ''type'' = kind"
    "query_get (fetch_query ident kind mac) ''mac'' = mac_string mac"
    by (simp_all add: *)
qed

lemma sprintf_url:
  assumes "CHR ''%'' \<notin> set serverHost"
  shows "sprintf other (url_template serverHost) [query_escape ident, kind, query_escape (mac_string mac)] =
    ''http://'' @ serverHost @ ''/_/file?'' @ fetch_query ident kind mac"
proof -
  have "sprintf other (url_template serverHost) [query_escape ident, kind, query_escape (mac_string mac)] =
      ''http://'' @ sprintf other (serverHost @ ''/_/file?name=%s&type=%s&mac=%s'') [query_escape ident, kind, query_escape (mac_string mac)]"
    by (simp add: url_template_def)
  then show ?thesis
    by (simp only: sprintf_plain [OF assms]) (simp add: fetch_query_def)
qed

lemma fetch_served:
  assumes "CHR ''/'' \<notin> set serverHost" and "kind = ''kernel'' \<or> kind = ''initrd''" and "mac_length (length mac)"
    and "ident \<noteq> []" and "ReadBootFile (Booter s) (Moment st) ident = Inr ((content, None), sz)"
    and "sz < 0 \<or> int (length content) \<le> sz"
  shows "\<exists>r. client_request (''http://'' @ serverHost @ ''/_/file?'' @ fetch_query ident kind mac) = Some r \<and> Host r = serverHost \<and>
    serve_http quote other run s r st =
      Some (\<lparr>Status = 200, ContentType = None, ContentLength = (if 0 \<le> sz then Some sz else None), Body = content\<rparr>,
        log_event mac (if kind = ''kernel'' then machineStateKernel else machineStateInitrd) (''Sent '' @ kind @ '' '' @ quote ident) st)"
proof -
  let ?r = "\<lparr>Path = ''/_/file'', RawQuery = fetch_query ident kind mac, Host = serverHost, Takes = client_takes\<rparr>"
  have "client_request (''http://'' @ serverHost @ ''/_/file?'' @ fetch_query ident kind mac) = Some ?r"
    using client_request_url [OF assms(1), of "''_/file''" "''_/file''"] by simp
  moreover have "parse_mac (mac_string mac) = Some mac" using assms(3) by (rule parse_mac_mac_string)
  ultimately show ?thesis
    using assms(2,4-6) by (intro exI [of _ ?r])
      (auto simp: serve_http_routes handle_file_def log_file_fetch_def client_takes_def fetch_query_get)
qed

lemma initrd_line_in:
  assumes "ident \<in> set initrds" and "CHR ''%'' \<notin> set serverHost"
  shows "\<exists>pre post. initrd_lines other serverHost (mac_string mac) i initrds =
    pre @ (''http://'' @ serverHost @ ''/_/file?'' @ fetch_query ident ''initrd'' mac) @ [CHR 0x0A] @ post"
  using assms(1)
proof (induction initrds arbitrary: i)
  case (Cons x xs)
  note line = initrd_lines.simps(2) [of other serverHost "mac_string mac" i x xs, unfolded sprintf_url [OF assms(2)]]
  show ?case
  proof (cases "ident = x")
    case True
    then show ?thesis unfolding line by (metis append_assoc)
  next
    case False
    with Cons.prems have "ident \<in> set xs" by simp
    from Cons.IH [OF this, of "i + 1"] obtain pre post where
      "initrd_lines other serverHost (mac_string mac) (i + 1) xs =
        pre @ (''http://'' @ serverHost @ ''/_/file?'' @ fetch_query ident ''initrd'' mac) @ [CHR 0x0A] @ post" by blast
    then show ?thesis unfolding line by (metis append_assoc)
  qed
qed simp

lemma script_contains:
  assumes "ipxe_script other run mach sp serverHost fileName = Inr script" and "IpxeScript sp = []"
    and "CHR ''%'' \<notin> set serverHost"
    and "kind = ''kernel'' \<and> ident = Kernel sp \<or> kind = ''initrd'' \<and> ident \<in> set (Initrd sp)"
  shows "\<exists>pre post. script = pre @ (''http://'' @ serverHost @ ''/_/file?'' @ fetch_query ident kind (MAC mach)) @ [CHR 0x0A] @ post"
proof -
  obtain tail where script: "script = (''#!ipxe'' @ [CHR 0x0A] @ ''kernel --name kernel '') @
      (''http://'' @ serverHost @ ''/_/file?'' @ fetch_query (Kernel sp) ''kernel'' (MAC mach)) @ [CHR 0x0A] @
      initrd_lines other serverHost (mac_string (MAC mach)) 0 (Initrd sp) @ tail"
    using assms(1,2) unfolding ipxe_script_def Let_def sprintf_url [OF assms(3)]
    by (auto split: if_splits sum.splits)
  from assms(4) show ?thesis
  proof
    assume "kind = ''kernel'' \<and> ident = Kernel sp"
    with script show ?thesis by blast
  next
    assume "kind = ''initrd'' \<and> ident \<in> set (Initrd sp)"
    then show ?thesis
      unfolding script using initrd_line_in [OF _ assms(3), of ident "Initrd sp" other "MAC mach" 0]
      by (metis append_assoc)
  qed
qed

lemma mac_chars: "set (mac_string mac) \<subseteq> insert CHR '':'' (hex_digit ` {..<16})"
proof -
  have "set (hex_byte b) \<subseteq> hex_digit ` {..<16}" for b
  proof -
    have "unat b div 16 \<in> {..<16}" "unat b mod 16 \<in> {..<16}" using unat_byte_less [of b] by auto
    then show ?thesis unfolding hex_byte_def using imageI [of _ "{..<16}" hex_digit] by simp
  qed
  then show ?thesis
    by (induction mac rule: mac_string.induct) auto
qed

lemma mac_plain: "CHR ''&'' \<notin> set (mac_string mac)" "CHR '';'' \<notin> set (mac_string mac)" "query_unescape (mac_string mac) = Some (mac_string mac)"
proof -
  have hex: "hex_value c \<noteq> None \<or> c = CHR '':''" if "c \<in> set (mac_string mac)" for c
    using mac_chars [of mac] that by auto
  have "CHR ''&'' \<notin> set (mac_string mac) \<and> CHR '';'' \<notin> set (mac_string mac) \<and> CHR ''%'' \<notin> set (mac_string mac) \<and>
      CHR ''+'' \<notin> set (mac_string mac)"
    using hex [of "CHR ''&''"] hex [of "CHR '';''"] hex [of "CHR ''%''"] hex [of "CHR ''+''"]
    by (auto simp: hex_value_def)
  then show "CHR ''&'' \<notin> set (mac_string mac)" "CHR '';'' \<notin> set (mac_string mac)" "query_unescape (mac_string mac) = Some (mac_string mac)"
    by (simp_all add: unescape_plain)
qed

lemma offered_query:
  assumes "a \<in> {0..2}"
  shows "query_get (''arch='' @ format_int a @ ''&mac='' @ mac_string mac) ''arch'' = format_int a"
    and "query_get (''arch='' @ format_int a @ ''&mac='' @ mac_string mac) ''mac'' = mac_string mac"
proof -
  have "a = 0 \<or> a = 1 \<or> a = 2" using assms by auto
  then have "CHR '';'' \<notin> set (format_int a) \<and> CHR ''&'' \<notin> set (format_int a) \<and> query_unescape (format_int a) = Some (format_int a)"
    by (elim disjE; hypsubst; code_simp)
  then have num: "CHR '';'' \<notin> set (format_int a)" "CHR ''&'' \<notin> set (format_int a)" "query_unescape (format_int a) = Some (format_int a)"
    by blast+
  show "query_get (''arch='' @ format_int a @ ''&mac='' @ mac_string mac) ''arch'' = format_int a"
    "query_get (''arch='' @ format_int a @ ''&mac='' @ mac_string mac) ''mac'' = mac_string mac"
    using query_get_Cons(1) [OF _ num, of "''arch''" "''mac='' @ mac_string mac"]
      query_get_Cons(2) [OF _ mac_plain(2,1,3), of "''mac''"] by simp_all
qed

text \<open>Hosts in dotted notation with a port hold neither slashes nor percent signs.\<close>

lemma digits_plain: "c \<in> set (format_nat n) \<Longrightarrow> c \<noteq> CHR ''/'' \<and> c \<noteq> CHR ''%''"
proof -
  assume "c \<in> set (format_nat n)"
  then obtain d where "d < 10" "digit_char d = c" by (auto simp: format_nat_def dest: dec_digits_less)
  then have "char_digit c = Some d" by (metis char_digit_digit_char)
  then show ?thesis by (auto simp: char_digit_def)
qed

lemma dotted_plain: "c \<in> set (dotted bs) \<Longrightarrow> c \<noteq> CHR ''/'' \<and> c \<noteq> CHR ''%''"
  by (induction bs rule: dotted.induct) (auto dest: digits_plain)

lemma host_plain:
  "CHR ''/'' \<notin> set (dotted ip @ '':'' @ format_int p)" "CHR ''%'' \<notin> set (dotted ip @ '':'' @ format_int p)"
  using dotted_plain [of _ ip] digits_plain by (auto simp: format_int_def)

text \<open>A booter with a script of its own, and a client that runs the server's iPXE.\<close>

definition script_spec :: spec where
  "script_spec = \<lparr>Kernel = ''a b'', Initrd = [''c&d''], Efi = [], Cmdline = [], BootMessage = [], IpxeScript = ''#!ipxe''\<rparr>"

definition script_server :: boot_server where
  "script_server = sample_server\<lparr>Booter := \<lparr>BootSpec = (\<lambda>_ _. Inr (Some script_spec)),
     ReadBootFile = (\<lambda>_ _. Inr (([1, 2, 3], None), 3)), FileNamer = None\<rparr>\<rparr>"

definition text_only :: "unit template" where
  "text_only f tpl s = (Inr tpl, s)"

definition chained_discover :: packet where
  "chained_discover = sample_discover\<lparr>Options := [93 \<mapsto> Some [0, 7], 77 \<mapsto> Some (bytes_of ''pixiecore'')]\<rparr>"

lemma chained_discover_ok: "\<exists>b. unmarshal b = Inr (received chained_discover)"
proof -
  have "\<exists>b. marshal chained_discover = Inr b"
    unfolding marshal_success_iff
    by (auto simp: chained_discover_def sample_discover_def overload_flags_def opt_byte_def opt_bytes_def opt_at_def bootp_op_def
        encodable_def legal_key_def)
  then obtain b where "marshal chained_discover = Inr b" ..
  then have "unmarshal b = Inr (received chained_discover)"
    by (rule decode_encoded) (simp_all add: chained_discover_def sample_discover_def name_ok_def)
  then show ?thesis ..
qed

lemma chained_discover_valid:
  "validate_dhcp (received chained_discover) = Inr (\<lparr>MAC = [2, 0, 0, 0, 0, 1], Arch = ArchX64\<rparr>, FirmwarePixiecoreIpxe)"
  by code_simp

text \<open>The URL offered to a client that runs the server's iPXE, and what fetching it gives.\<close>

lemma offered_script:
  assumes "unmarshal b = Inr pkt" and "validate_dhcp pkt = Inr (mach, FirmwarePixiecoreIpxe)"
    and "BootSpec (Booter s) (Moment st) mach = Inr (Some sp)" and "Efi sp = []"
    and "ipxe_script other run mach sp (dotted ip @ '':'' @ format_int (HTTPPort s)) (boot_file_namer (Booter s)) = Inr script"
  shows "\<exists>r. client_request (offered_file s mach ip FirmwarePixiecoreIpxe) = Some r \<and>
    serve_http quote other run s r st =
      Some (\<lparr>Status = 200, ContentType = Some ''text/plain'', ContentLength = None, Body = bytes_of script\<rparr>,
        log_event (HardwareAddr pkt) machineStateIpxeScript ''Sent iPXE boot script'' st)"
proof -
  let ?host = "dotted ip @ '':'' @ format_int (HTTPPort s)"
  let ?q = "''arch='' @ format_int (Arch mach) @ ''&mac='' @ mac_string (MAC mach)"
  let ?r = "\<lparr>Path = ''/_/ipxe'', RawQuery = ?q, Host = ?host, Takes = client_takes\<rparr>"
  have arch: "Arch mach \<in> {0..2}" and mac: "MAC mach = HardwareAddr pkt"
    using validated [OF assms(2)] by simp_all
  have surj: "\<lparr>MAC = MAC mach, Arch = Arch mach\<rparr> = mach" by simp
  have six: "length (MAC mach) = 6" using validated_firmware_six [OF assms(1,2)] .
  have "CHR ''/'' \<notin> set ?host"
    by (rule host_plain)
  from client_request_url [OF this, of "''_/ipxe''" "''_/ipxe''" ?q]
  have url: "client_request (offered_file s mach ip FirmwarePixiecoreIpxe) = Some ?r"
    by (simp add: offered_file_def)
  have "parse_int64 (format_int (Arch mach)) = Some (Arch mach)"
    using arch by (intro parse_int64_format_int) auto
  moreover have "parse_mac (mac_string (MAC mach)) = Some (MAC mach)"
    using six by (intro parse_mac_mac_string) (simp add: mac_length_def)
  moreover have "mac_string (MAC mach) \<noteq> []" using six length_mac_string [of "MAC mach"] by (cases "MAC mach") auto
  moreover have "format_int (Arch mach) \<noteq> []" using arch by (auto simp: format_int_def format_nat_def)
  moreover have "Arch mach = 0 \<or> Arch mach = 1 \<or> Arch mach = 2" using arch by auto
  moreover have "BootSpec (Booter s) (Moment st) \<lparr>MAC = HardwareAddr pkt, Arch = Arch mach\<rparr> = Inr (Some sp)"
      "ipxe_script other run \<lparr>MAC = HardwareAddr pkt, Arch = Arch mach\<rparr> sp ?host (boot_file_namer (Booter s)) = Inr script"
    unfolding mac [symmetric] surj by (fact assms(3), fact assms(5))
  ultimately have "handle_ipxe other run s ?r st =
      (\<lparr>Status = 200, ContentType = Some ''text/plain'', ContentLength = None, Body = bytes_of script\<rparr>,
        log_event (HardwareAddr pkt) machineStateIpxeScript ''Sent iPXE boot script'' st)"
    using assms(4) mac offered_query [OF arch, of "MAC mach"] by (auto simp: handle_ipxe_def Let_def)
  with url show ?thesis by (intro exI [of _ ?r]) (simp add: serve_http_routes)
qed

text \<open>The requests the script handler refuses before it asks the booter, and what it does with the others.\<close>

definition bad_ipxe_request :: "http_request \<Rightarrow> bool" where
  "bad_ipxe_request r \<longleftrightarrow> parse_mac (query_get (RawQuery r) ''mac'') = None \<or> query_get (RawQuery r) ''mac'' = [] \<or>
     (case parse_int64 (query_get (RawQuery r) ''arch'') of None \<Rightarrow> True | Some a \<Rightarrow> a \<notin> {0, 1, 2})"

lemma parse_int64_empty: "parse_int64 [] = None"
  by (simp add: parse_int64_def)

lemma bad_ipxe_answered: "bad_ipxe_request r \<Longrightarrow> \<exists>msg. handle_ipxe other run s r st = (http_error msg 400, st)"
  by (auto simp: bad_ipxe_request_def handle_ipxe_def Let_def split: option.splits)

lemma ipxe_answered:
  assumes "query_get (RawQuery r) ''mac'' \<noteq> []" and "parse_mac (query_get (RawQuery r) ''mac'') = Some mac"
    and "parse_int64 (query_get (RawQuery r) ''arch'') = Some arch" and "arch \<in> {0, 1, 2}"
  shows "handle_ipxe other run s r st = (let mach = \<lparr>MAC = mac, Arch = arch\<rparr> in
    case BootSpec (Booter s) (Moment st) mach of
      Inl _ \<Rightarrow> (http_error ''couldn't get a bootspec'' 500, st)
    | Inr None \<Rightarrow> (http_error ''you don't netboot'' 404, st)
    | Inr (Some sp) \<Rightarrow> (case (if Efi sp \<noteq> [] then Inr (ipxe_script_efi mach sp (Host r))
        else ipxe_script other run mach sp (Host r) (boot_file_namer (Booter s))) of
        Inl _ \<Rightarrow> (http_error ''couldn't get a boot script'' 500, st)
      | Inr script \<Rightarrow> (\<lparr>Status = 200, ContentType = Some ''text/plain'', ContentLength = None, Body = bytes_of script\<rparr>,
          log_event mac machineStateIpxeScript ''Sent iPXE boot script'' st)))"
proof -
  have "query_get (RawQuery r) ''arch'' \<noteq> []" using assms(3) parse_int64_empty by force
  with assms show ?thesis unfolding handle_ipxe_def Let_def by auto
qed

text \<open>When a script can be made for a spec.\<close>

lemma scripts_made:
  "(\<exists>e. (if Efi sp \<noteq> [] then Inr (ipxe_script_efi mach sp host) else ipxe_script other run mach sp host fileName) = Inl e) \<longleftrightarrow>
     IpxeScript sp = [] \<and> Efi sp = [] \<and> (Kernel sp = [] \<or>
       (\<exists>e. fst (expand_cmdline run (\<lambda>u ident. (Inr (file_url host ident (fileName ident)), u)) (Cmdline sp) ()) = Inl e))"
  by (auto simp: ipxe_script_def Let_def split: sum.splits)

section \<open>Properties\<close>

text \<open>
  The last step of the chain: the URL offered to a client that already runs the server's iPXE leads back to the script
  handler with the client's own address and architecture. When the booter has a spec for that machine and the script
  can be made, the script is the answer and the client's event log ends with it.
\<close>

theorem offered_script_served:
  assumes "unmarshal b = Inr pkt" and "validate_dhcp pkt = Inr (mach, FirmwarePixiecoreIpxe)"
    and "BootSpec (Booter s) (Moment st) mach = Inr (Some sp)" and "Efi sp = []"
    and "ipxe_script other run mach sp (dotted ip @ '':'' @ format_int (HTTPPort s)) (boot_file_namer (Booter s)) = Inr script"
  shows "\<exists>r. client_request (offered_file s mach ip FirmwarePixiecoreIpxe) = Some r \<and>
    serve_http quote other run s r st =
      Some (\<lparr>Status = 200, ContentType = Some ''text/plain'', ContentLength = None, Body = bytes_of script\<rparr>,
        log_event (HardwareAddr pkt) machineStateIpxeScript ''Sent iPXE boot script'' st)"
  using assms by (rule offered_script)

theorem offered_script_served_witness:
  "\<exists>r b pkt. unmarshal b = Inr pkt \<and>
     client_request (offered_file script_server \<lparr>MAC = [2, 0, 0, 0, 0, 1], Arch = ArchX64\<rparr> [10, 0, 0, 1] FirmwarePixiecoreIpxe) = Some r \<and>
     Body (fst (the (serve_http id (\<lambda>_ _. []) text_only script_server r \<lparr>Events = (\<lambda>_. []), Sent = ([] :: nat list), Moment = 0\<rparr>))) =
       bytes_of ''#!ipxe''"
proof -
  obtain b where b: "unmarshal b = Inr (received chained_discover)" using chained_discover_ok by blast
  have spec: "BootSpec (Booter script_server) (Moment \<lparr>Events = (\<lambda>_. []), Sent = ([] :: nat list), Moment = 0\<rparr>) \<lparr>MAC = [2, 0, 0, 0, 0, 1], Arch = ArchX64\<rparr> =
      Inr (Some script_spec)"
    by (simp add: script_server_def)
  have efi: "Efi script_spec = []" by (simp add: script_spec_def)
  have script: "ipxe_script (\<lambda>_ _. []) text_only \<lparr>MAC = [2, 0, 0, 0, 0, 1], Arch = ArchX64\<rparr> script_spec
      (dotted [10, 0, 0, 1] @ '':'' @ format_int (HTTPPort script_server)) (boot_file_namer (Booter script_server)) = Inr ''#!ipxe''"
    by (simp add: ipxe_script_def script_spec_def)
  from offered_script_served [where quote = id, OF b chained_discover_valid spec efi script] b show ?thesis by fastforce
qed

text \<open>
  C13. The script's own URLs work: for the kernel and for every initrd of the spec, whatever characters their identifiers
  have, the script holds, on a line of its own, a URL whose fetch is answered with exactly that file's bytes and size,
  and logged for the machine the script was made for. The file can be read, and the booter does not give it a size below its
  length (it may give none).
\<close>

theorem script_urls_served:
  assumes "ipxe_script other run mach sp serverHost fileName = Inr script" and "IpxeScript sp = []"
    and "CHR ''%'' \<notin> set serverHost" and "CHR ''/'' \<notin> set serverHost" and "mac_length (length (MAC mach))"
    and "kind = ''kernel'' \<and> ident = Kernel sp \<or> kind = ''initrd'' \<and> ident \<in> set (Initrd sp)" and "ident \<noteq> []"
    and "ReadBootFile (Booter s) (Moment st) ident = Inr ((content, None), sz)"
    and "sz < 0 \<or> int (length content) \<le> sz"
  shows "\<exists>url pre post r. script = pre @ url @ [CHR 0x0A] @ post \<and> client_request url = Some r \<and> Host r = serverHost \<and>
    serve_http quote other run s r st =
      Some (\<lparr>Status = 200, ContentType = None, ContentLength = (if 0 \<le> sz then Some sz else None), Body = content\<rparr>,
        log_event (MAC mach) (if kind = ''kernel'' then machineStateKernel else machineStateInitrd)
          (''Sent '' @ kind @ '' '' @ quote ident) st)"
proof -
  have kind: "kind = ''kernel'' \<or> kind = ''initrd''" using assms(6) by blast
  obtain pre post where "script = pre @ (''http://'' @ serverHost @ ''/_/file?'' @ fetch_query ident kind (MAC mach)) @ [CHR 0x0A] @ post"
    using script_contains [OF assms(1,2,3,6)] by blast
  with fetch_served [where quote = quote, OF assms(4) kind assms(5,7-9), of other run] show ?thesis by blast
qed

theorem script_urls_served_witness:
  "\<exists>script url r. ipxe_script (\<lambda>_ _. []) text_only \<lparr>MAC = [2, 0, 0, 0, 0, 1], Arch = ArchX64\<rparr> (script_spec\<lparr>IpxeScript := []\<rparr>) ''10.0.0.1:80'' (\<lambda>_. []) = Inr script \<and>
     client_request url = Some r \<and>
     Body (fst (the (serve_http id (\<lambda>_ _. []) text_only script_server r \<lparr>Events = (\<lambda>_. []), Sent = ([] :: nat list), Moment = 0\<rparr>))) = [1, 2, 3]"
proof -
  let ?sp = "script_spec\<lparr>IpxeScript := []\<rparr>" and ?mach = "\<lparr>MAC = [2, 0, 0, 0, 0, 1], Arch = ArchX64\<rparr>"
  let ?st = "\<lparr>Events = (\<lambda>_. []), Sent = ([] :: nat list), Moment = 0\<rparr>"
  have "expand_cmdline text_only (\<lambda>u ident. (Inr (file_url ''10.0.0.1:80'' ident []), u)) [] () = (Inr [], ())"
    by (simp add: expand_cmdline_def trim_space_def text_only_def newline_def)
  then have "\<exists>script. ipxe_script (\<lambda>_ _. []) text_only ?mach ?sp ''10.0.0.1:80'' (\<lambda>_. []) = Inr script"
    by (simp add: ipxe_script_def script_spec_def Let_def)
  then obtain script where script: "ipxe_script (\<lambda>_ _. []) text_only ?mach ?sp ''10.0.0.1:80'' (\<lambda>_. []) = Inr script" ..
  have hyps: "IpxeScript ?sp = []" "CHR ''%'' \<notin> set ''10.0.0.1:80''" "CHR ''/'' \<notin> set ''10.0.0.1:80''" "mac_length (length (MAC ?mach))"
      "''initrd'' = ''kernel'' \<and> ''c&d'' = Kernel ?sp \<or> ''initrd'' = ''initrd'' \<and> ''c&d'' \<in> set (Initrd ?sp)" "''c&d'' \<noteq> []"
      "ReadBootFile (Booter script_server) (Moment ?st) ''c&d'' = Inr (([1, 2, 3], None), 3)"
      "(3 :: int) < 0 \<or> int (length [1, 2, 3 :: byte]) \<le> 3"
    by (simp_all add: script_spec_def script_server_def mac_length_def)
  from script_urls_served [where quote = id, OF script hyps] script show ?thesis by fastforce
qed

text \<open>
  A file the booter names is served under its name: the URL made for the command line leads, through the subtree route,
  to the file handler, whose lookup key is the identifier and not the name.
\<close>

theorem named_file_served:
  assumes "CHR ''/'' \<notin> set serverHost"
  shows "\<exists>r. client_request (file_url serverHost ident name) = Some r \<and> query_get (RawQuery r) ''name'' = ident \<and>
    Path r = (if name = [] then ''/_/file'' else ''/_/file/'' @ name) \<and>
    serve_http quote other run s r st = Some (handle_file quote s r st)"
proof (cases "name = []")
  case True
  from client_request_url [OF assms, of "''_/file''" "''_/file''" "''name='' @ query_escape ident"]
    query_get_Cons(2) [of "''name''" "query_escape ident" ident "''name''"]
  show ?thesis using True by (auto simp: file_url_def serve_http_routes)
next
  case False
  have "CHR ''?'' \<notin> set (path_escape name)" by (rule path_escape_no_question)
  then have path: "CHR ''?'' \<notin> set (''_/file/'' @ path_escape name)" by simp
  have "path_unescape (''_/file/'' @ path_escape name) = Some (''_/file/'' @ name)"
    using path_unescape_escape [of name "[]"] by simp
  from client_request_url [OF assms path this, of "''name='' @ query_escape ident"]
    query_get_Cons(2) [of "''name''" "query_escape ident" ident "''name''"]
  show ?thesis using False by (auto simp: file_url_def serve_http_routes)
qed

theorem named_file_served_witness:
  "\<exists>r. client_request (file_url ''10.0.0.1'' ''other-0'' ''a b.raw'') = Some r \<and> query_get (RawQuery r) ''name'' = ''other-0'' \<and>
     Path r = ''/_/file/a b.raw''"
proof -
  have "CHR ''/'' \<notin> set ''10.0.0.1''" by simp
  from named_file_served [OF this, of "''other-0''" "''a b.raw''" id "\<lambda>_ _. []" text_only sample_server
      "\<lparr>Events = (\<lambda>_. []), Sent = ([] :: nat list), Moment = 0\<rparr>"] show ?thesis by auto
qed

text \<open>
  C38. What the script handler answers, for every request. A request without hardware address or without one of the three
  architectures gets status 400; otherwise status 500 if the booter fails, and 404 if it has nothing for the machine. When
  the booter has a spec, the answer is status 200 with the script of the spec and an event for the machine, except that a spec
  without script, EFI image and kernel, or one whose command line does not expand, gets status 500. Only the answer with a
  script changes the state.
\<close>

theorem ipxe_request_outcomes:
  "if query_get (RawQuery r) ''mac'' = [] \<or> parse_mac (query_get (RawQuery r) ''mac'') = None \<or>
      (\<forall>a \<in> {0, 1, 2}. parse_int64 (query_get (RawQuery r) ''arch'') \<noteq> Some a)
   then \<exists>msg. handle_ipxe other run s r st = (http_error msg 400, st)
   else \<exists>mac arch. parse_mac (query_get (RawQuery r) ''mac'') = Some mac \<and> parse_int64 (query_get (RawQuery r) ''arch'') = Some arch \<and>
     (case BootSpec (Booter s) (Moment st) \<lparr>MAC = mac, Arch = arch\<rparr> of
        Inl _ \<Rightarrow> handle_ipxe other run s r st = (http_error ''couldn't get a bootspec'' 500, st)
      | Inr None \<Rightarrow> handle_ipxe other run s r st = (http_error ''you don't netboot'' 404, st)
      | Inr (Some sp) \<Rightarrow>
          if IpxeScript sp = [] \<and> Efi sp = [] \<and>
              (Kernel sp = [] \<or> (\<exists>e. fst (expand_cmdline run (\<lambda>u ident.
                 (Inr (file_url (Host r) ident (boot_file_namer (Booter s) ident)), u)) (Cmdline sp) ()) = Inl e))
          then handle_ipxe other run s r st = (http_error ''couldn't get a boot script'' 500, st)
          else \<exists>script. (if Efi sp \<noteq> [] then Inr (ipxe_script_efi \<lparr>MAC = mac, Arch = arch\<rparr> sp (Host r))
               else ipxe_script other run \<lparr>MAC = mac, Arch = arch\<rparr> sp (Host r) (boot_file_namer (Booter s))) = Inr script \<and>
             handle_ipxe other run s r st =
               (\<lparr>Status = 200, ContentType = Some ''text/plain'', ContentLength = None, Body = bytes_of script\<rparr>,
                log_event mac machineStateIpxeScript ''Sent iPXE boot script'' st))"
proof (cases "bad_ipxe_request r")
  case True
  then show ?thesis
    using bad_ipxe_answered [of r other run s st] by (auto simp: bad_ipxe_request_def split: option.splits)
next
  case False
  then obtain mac arch where ok: "query_get (RawQuery r) ''mac'' \<noteq> []" "parse_mac (query_get (RawQuery r) ''mac'') = Some mac"
      "parse_int64 (query_get (RawQuery r) ''arch'') = Some arch" "arch \<in> {0, 1, 2}"
    by (auto simp: bad_ipxe_request_def split: option.splits)
  show ?thesis
  proof (cases "BootSpec (Booter s) (Moment st) \<lparr>MAC = mac, Arch = arch\<rparr>")
    case (Inl e)
    with ok ipxe_answered [OF ok, of other run s st] show ?thesis by auto
  next
    case (Inr answer)
    show ?thesis
    proof (cases answer)
      case None
      with Inr ok ipxe_answered [OF ok, of other run s st] show ?thesis by auto
    next
      case (Some sp)
      with Inr ok ipxe_answered [OF ok, of other run s st] scripts_made [of sp "\<lparr>MAC = mac, Arch = arch\<rparr>" "Host r" other run "boot_file_namer (Booter s)"]
      show ?thesis by (auto split: sum.splits)
    qed
  qed
qed

theorem ipxe_request_outcomes_witness:
  "\<exists>msg. handle_ipxe (\<lambda>_ _. []) text_only script_server \<lparr>Path = ''/_/ipxe'', RawQuery = [], Host = [], Takes = client_takes\<rparr>
     (\<lparr>Events = (\<lambda>_. []), Sent = [], Moment = 0\<rparr> :: nat server_state) =
     (http_error msg 400, \<lparr>Events = (\<lambda>_. []), Sent = [], Moment = 0\<rparr>)"
proof -
  have "query_get [] ''mac'' = []" by code_simp
  with ipxe_request_outcomes [of "\<lparr>Path = ''/_/ipxe'', RawQuery = [], Host = [], Takes = client_takes\<rparr>" "\<lambda>_ _. []" text_only script_server
      "\<lparr>Events = (\<lambda>_. []), Sent = [], Moment = 0\<rparr> :: nat server_state"]
  show ?thesis by auto
qed

text \<open>
  A client whose request names the host with a percent sign, as the zone of a link-local address does, gets mangled
  URLs: the host is part of a format string.
\<close>

theorem percent_host_mangles_urls:
  "sprintf other (url_template ''h%s'') [query_escape ''kernel'', ''kernel'', query_escape (mac_string [2, 0, 0, 0, 0, 1])] =
     ''http://hkernel/_/file?name=kernel&type=02%3A00%3A00%3A00%3A00%3A01&mac=%!s(MISSING)''"
  by (simp add: url_template_def) code_simp

text \<open>
  The EFI script puts the identifier into its URL unescaped, unlike the other scripts: an identifier with an ampersand is
  looked up cut short.
\<close>

theorem efi_identifier_cut:
  "\<exists>pre query post. ipxe_script_efi mach \<lparr>Kernel = [], Initrd = [], Efi = ''a&b'', Cmdline = [], BootMessage = [], IpxeScript = []\<rparr> serverHost =
     pre @ ''/_/file?'' @ query @ [CHR 0x0A] @ post \<and> query_get query ''name'' = ''a''"
proof -
  let ?mac = "query_escape (mac_string (MAC mach))"
  let ?q = "''name='' @ ''a&b'' @ ''&type=efi&mac='' @ ?mac"
  have "query_get ?q ''name'' = ''a''"
    using query_get_Cons(1) [of "''name''" "''a''" "''a''" "''b&type=efi&mac='' @ ?mac" "''name''"] by simp
  then show ?thesis
    by (intro exI [of _ "''#!ipxe'' @ [CHR 0x0A] @ ''chain --autofree http://'' @ serverHost"] exI [of _ ?q] exI [of _ "[CHR 0x0A]"])
      (simp add: ipxe_script_efi_def)
qed

end
