(* ===== verification/Url_Sign.thy ===== *)
theory Url_Sign
  imports Go_Std
begin

text \<open>
  Sealed identifiers (\<^verbatim>\<open>utils/urlsign.go\<close>): a URL is sealed with a fresh nonce under the server's key and
  written in URL-safe base64. The authenticated encryption of \<^verbatim>\<open>golang.org/x/crypto\<close> is not part of
  the repository: \<open>seal\<close> and \<open>unseal\<close> are arguments. Base64 is the standard library's.
\<close>

section \<open>URL-safe base64\<close>

definition b64_alphabet :: string where
  "b64_alphabet = ''ABCDEFGHIJKLMNOPQRSTUVWXYZabcdefghijklmnopqrstuvwxyz0123456789-_''"

definition b64_char :: "nat \<Rightarrow> char" where
  "b64_char n = b64_alphabet ! n"

fun index_of :: "char \<Rightarrow> string \<Rightarrow> nat option" where
  "index_of c [] = None"
| "index_of c (x # xs) = (if c = x then Some 0 else map_option Suc (index_of c xs))"

definition b64_value :: "char \<Rightarrow> nat option" where
  "b64_value c = index_of c b64_alphabet"

definition sextets :: "nat \<Rightarrow> string" where
  "sextets n = [b64_char (n div 262144), b64_char (n div 4096 mod 64), b64_char (n div 64 mod 64), b64_char (n mod 64)]"

fun b64_encode :: "bytes \<Rightarrow> string" where
  "b64_encode [] = []"
| "b64_encode [a] = take 2 (sextets (unat a * 65536)) @ ''==''"
| "b64_encode [a, b] = take 3 (sextets (unat a * 65536 + unat b * 256)) @ ''=''"
| "b64_encode (a # b # c # bs) = sextets (unat a * 65536 + unat b * 256 + unat c) @ b64_encode bs"

definition group_value :: "nat option list \<Rightarrow> nat option" where
  "group_value vs = (if None \<in> set vs then None else Some (foldl (\<lambda>n v. n * 64 + the v) 0 vs))"

definition octets :: "nat \<Rightarrow> bytes" where
  "octets n = [word_of_nat (n div 65536), word_of_nat (n div 256), word_of_nat n]"

text \<open>
  Decoding works on groups of four; line breaks are skipped wherever they stand, padding ends the input, and the spare
  bits of a padded group are not looked at.
\<close>

fun b64_groups :: "string \<Rightarrow> bytes option" where
  "b64_groups [] = Some []"
| "b64_groups (c # d # e # f # cs) =
     (if f = CHR ''='' then
        if cs \<noteq> [] then None
        else if e = CHR ''='' then
          map_option (\<lambda>n. take 1 (octets n)) (group_value [b64_value c, b64_value d, Some 0, Some 0])
        else map_option (\<lambda>n. take 2 (octets n)) (group_value [b64_value c, b64_value d, b64_value e, Some 0])
      else
        (case (group_value [b64_value c, b64_value d, b64_value e, b64_value f], b64_groups cs) of
           (Some n, Some bs) \<Rightarrow> Some (octets n @ bs)
         | _ \<Rightarrow> None))"
| "b64_groups _ = None"

definition b64_decode :: "string \<Rightarrow> bytes option" where
  "b64_decode s = b64_groups (filter (\<lambda>c. c \<noteq> CHR 0x0A \<and> c \<noteq> CHR 0x0D) s)"

section \<open>Sealing and opening\<close>

type_synonym secretbox_seal = "bytes \<Rightarrow> bytes \<Rightarrow> bytes \<Rightarrow> bytes"
type_synonym secretbox_open = "bytes \<Rightarrow> bytes \<Rightarrow> bytes \<Rightarrow> bytes option"

datatype open_error = BadBase64 | BlobTooShort | VerificationFailed

text \<open>\<open>nonce\<close> is what reading 24 random bytes gives; the only error of signing is its failure.\<close>

definition sign_url :: "secretbox_seal \<Rightarrow> string + bytes \<Rightarrow> string \<Rightarrow> bytes \<Rightarrow> string + string" where
  "sign_url seal nonce u key =
     (case nonce of
        Inl e \<Rightarrow> Inl (''could not read randomness for signing nonce: '' @ e)
      | Inr nonce \<Rightarrow> Inr (b64_encode (nonce @ seal (bytes_of u) nonce key)))"

definition get_url :: "secretbox_open \<Rightarrow> string \<Rightarrow> bytes \<Rightarrow> open_error + string" where
  "get_url unseal ident key =
     (case b64_decode ident of
        None \<Rightarrow> Inl BadBase64
      | Some blob \<Rightarrow>
          if length blob < 24 then Inl BlobTooShort
          else case unseal (drop 24 blob) (take 24 blob) key of
              None \<Rightarrow> Inl VerificationFailed
            | Some out \<Rightarrow> Inr (string_of out))"

section \<open>Facts\<close>

lemma b64_values: "\<forall>n \<in> set [0..<64]. b64_value (b64_char n) = Some n \<and> b64_char n \<noteq> CHR ''='' \<and> b64_char n \<noteq> CHR 0x0A \<and> b64_char n \<noteq> CHR 0x0D"
  by code_simp

lemma b64_value_char [simp]: "n < 64 \<Longrightarrow> b64_value (b64_char n) = Some n"
  and b64_char_not_special [simp]: "n < 64 \<Longrightarrow> b64_char n \<noteq> CHR ''='' \<and> b64_char n \<noteq> CHR 0x0A \<and> b64_char n \<noteq> CHR 0x0D"
  using b64_values by simp_all

lemma group_value_sextets:
  assumes "n < 16777216"
  shows "group_value [Some (n div 262144), Some (n div 4096 mod 64), Some (n div 64 mod 64), Some (n mod 64)] = Some n"
proof -
  have "n div 262144 = n div 4096 div 64" "n div 4096 = n div 64 div 64"
    by (simp_all add: div_mult2_eq [symmetric])
  then have "((n div 262144 * 64 + n div 4096 mod 64) * 64 + n div 64 mod 64) * 64 + n mod 64 = n"
    by (metis div_mult_mod_eq)
  then show ?thesis by (simp add: group_value_def)
qed

lemma triple_bound: "unat (a :: byte) * 65536 + unat (b :: byte) * 256 + unat (c :: byte) < 16777216"
  using unat_byte_less [of a] unat_byte_less [of b] unat_byte_less [of c] by linarith

lemma triple_digits:
  fixes x y z :: nat
  assumes "x < 256" and "y < 256" and "z < 256"
  shows "(x * 65536 + y * 256 + z) div 65536 mod 256 = x" and "(x * 65536 + y * 256 + z) div 256 mod 256 = y"
    and "(x * 65536 + y * 256 + z) mod 256 = z"
proof -
  have "(x * 65536 + y * 256 + z) div 65536 = x" "(x * 65536 + y * 256 + z) div 256 = x * 256 + y"
    using assms by linarith+
  then show "(x * 65536 + y * 256 + z) div 65536 mod 256 = x" "(x * 65536 + y * 256 + z) div 256 mod 256 = y"
    using assms by simp_all
  have "(x * 65536 + y * 256 + z) = z + (x * 256 + y) * 256" by simp
  then show "(x * 65536 + y * 256 + z) mod 256 = z" by (metis assms(3) mod_less mod_mult_self1)
qed

lemma padding_digits:
  "(x * 65536 :: nat) div 64 mod 64 = 0" "(x * 65536 :: nat) mod 64 = 0" "(x * 65536 + y * 256 :: nat) mod 64 = 0"
proof -
  have "x * 65536 = (x * 1024) * 64" "x * 65536 + y * 256 = (x * 1024 + y * 4) * 64" "x * 1024 = (x * 16) * 64" by simp_all
  then show "(x * 65536 :: nat) div 64 mod 64 = 0" "(x * 65536 :: nat) mod 64 = 0" "(x * 65536 + y * 256 :: nat) mod 64 = 0"
    by (metis mod_mult_self2_is_0 nonzero_mult_div_cancel_right zero_neq_numeral)+
qed

lemma octets_triple: "octets (unat (a :: byte) * 65536 + unat (b :: byte) * 256 + unat (c :: byte)) = [a, b, c]"
proof -
  have w: "word_of_nat m = (x :: byte)" if "m mod 256 = unat x" for m x
    using that by (simp add: word_unat_eq_iff unat_of_nat take_bit_eq_mod)
  show ?thesis
    unfolding octets_def using triple_digits [OF unat_byte_less unat_byte_less unat_byte_less]
    by (auto intro!: w simp del: of_nat_add of_nat_mult)
qed

lemma sextet_bounds:
  "n < 16777216 \<Longrightarrow> n div 262144 < 64" "n div 4096 mod 64 < 64" "n div 64 mod 64 < 64" "n mod 64 < (64 :: nat)"
  by (simp_all add: less_mult_imp_div_less)

lemma b64_plain: "filter (\<lambda>c. c \<noteq> CHR 0x0A \<and> c \<noteq> CHR 0x0D) (b64_encode bs) = b64_encode bs"
proof (induction bs rule: b64_encode.induct)
  case (2 a)
  show ?case using triple_bound [of a 0 0] by (simp add: sextets_def sextet_bounds)
next
  case (3 a b)
  show ?case using triple_bound [of a b 0] by (simp add: sextets_def sextet_bounds)
next
  case (4 a b c bs)
  then show ?case using triple_bound [of a b c] by (simp add: sextets_def sextet_bounds)
qed simp

lemma b64_groups_encode: "b64_groups (b64_encode bs) = Some bs"
proof (induction bs rule: b64_encode.induct)
  case (2 a)
  let ?n = "unat a * 65536"
  have n: "?n < 16777216" using triple_bound [of a 0 0] by simp
  have "?n div 64 mod 64 = 0" "?n mod 64 = 0" by (rule padding_digits)+
  then have "group_value [Some (?n div 262144), Some (?n div 4096 mod 64), Some 0, Some 0] = Some ?n"
    using group_value_sextets [OF n] by simp
  moreover have "octets ?n = [a, 0, 0]" using octets_triple [of a 0 0] by simp
  ultimately show ?case using n by (simp add: sextets_def sextet_bounds)
next
  case (3 a b)
  let ?n = "unat a * 65536 + unat b * 256"
  have n: "?n < 16777216" using triple_bound [of a b 0] by simp
  have "?n mod 64 = 0" by (rule padding_digits)
  then have "group_value [Some (?n div 262144), Some (?n div 4096 mod 64), Some (?n div 64 mod 64), Some 0] = Some ?n"
    using group_value_sextets [OF n] by simp
  moreover have "octets ?n = [a, b, 0]" using octets_triple [of a b 0] by simp
  ultimately show ?case using n by (simp add: sextets_def sextet_bounds)
next
  case (4 a b c bs)
  then show ?case
    using triple_bound [of a b c] group_value_sextets [OF triple_bound [of a b c]]
    by (simp add: sextets_def sextet_bounds octets_triple)
qed simp

lemma b64_decode_encode: "b64_decode (b64_encode bs) = Some bs"
  by (simp add: b64_decode_def b64_plain b64_groups_encode)

lemma get_signed:
  assumes "length nonce = 24" and "unseal (seal (bytes_of u) nonce key) nonce key = Some (bytes_of u)"
    and "sign_url seal (Inr nonce) u key = Inr ident"
  shows "get_url unseal ident key = Inr u"
  using assms by (auto simp: sign_url_def get_url_def b64_decode_encode)

lemma get_url_sealed:
  assumes "get_url unseal ident key = Inr v"
  shows "\<exists>n box. b64_decode ident = Some (n @ box) \<and> length n = 24 \<and> unseal box n key = Some (bytes_of v)"
proof -
  from assms obtain blob out where "b64_decode ident = Some blob" "24 \<le> length blob"
      "unseal (drop 24 blob) (take 24 blob) key = Some out" "v = string_of out"
    by (auto simp: get_url_def not_less split: option.splits if_splits)
  then show ?thesis
    by (intro exI [of _ "take 24 blob"] exI [of _ "drop 24 blob"]) simp
qed

section \<open>Properties\<close>

text \<open>
  C15. Signing is undone by opening, for every URL and every nonce, given that the box opens what it sealed; and an identifier
  that was not made under the key, one the box does not open, is refused, as are all texts that are no base64 or hold
  less than a nonce.
\<close>

theorem signed_urls_open:
  assumes "\<And>m n k. length n = 24 \<Longrightarrow> length k = 32 \<Longrightarrow> unseal (seal m n k) n k = Some m"
    and "length nonce = 24" and "length key = 32"
  shows "(\<exists>ident. sign_url seal (Inr nonce) u key = Inr ident \<and> get_url unseal ident key = Inr u) \<and>
    (\<forall>ident v. get_url unseal ident key = Inr v \<longrightarrow>
      (\<exists>n box. b64_decode ident = Some (n @ box) \<and> length n = 24 \<and> unseal box n key = Some (bytes_of v)))"
proof
  show "\<exists>ident. sign_url seal (Inr nonce) u key = Inr ident \<and> get_url unseal ident key = Inr u"
    using get_signed [where unseal = unseal and seal = seal and u = u and key = key, OF assms(2) assms(1) [OF assms(2,3)]] by (simp add: sign_url_def)
  show "\<forall>ident v. get_url unseal ident key = Inr v \<longrightarrow>
      (\<exists>n box. b64_decode ident = Some (n @ box) \<and> length n = 24 \<and> unseal box n key = Some (bytes_of v))"
    by (intro allI impI get_url_sealed)
qed

theorem signed_urls_open_witness:
  "\<exists>ident. sign_url (\<lambda>m n k. rev m @ [7]) (Inr (replicate 24 1)) ''http://a/b'' (replicate 32 2) = Inr ident \<and>
     get_url (\<lambda>box n k. if box \<noteq> [] \<and> last box = 7 then Some (rev (butlast box)) else None) ident (replicate 32 2) = Inr ''http://a/b''"
  using signed_urls_open [of "\<lambda>box n k. if box \<noteq> [] \<and> last box = 7 then Some (rev (butlast box)) else None" "\<lambda>m n k. rev m @ [7]"
      "replicate 24 1" "replicate 32 2" "''http://a/b''"]
  by (simp del: replicate_numeral)

end
