(* ===== verification/Booters.thy ===== *)
theory Booters
  imports Server_Dhcp Cmdline Url_Sign "HOL-Library.List_Lexorder" "HOL-Library.Char_ord" "HOL-Library.Multiset"
begin

text \<open>
  The booters of \<^verbatim>\<open>booters/booters.go\<close>: the static one, which boots every machine with one spec and serves
  the files that spec names under identifiers of its own, and the one that asks an HTTP service and seals the URLs it is
  given. What the network and the file system answer, URL parsing, template execution and encryption are arguments;
  \<open>quote\<close> renders \<^verbatim>\<open>%q\<close>.
\<close>

section \<open>The world outside\<close>

type_synonym boot_file = "(bytes \<times> string option) \<times> int"

record http_answer =
  AnswerCode :: int
  AnswerStatus :: string
  AnswerBody :: "bytes \<times> string option"
  AnswerLength :: int

text \<open>Opening a file can succeed and asking for its size fail.\<close>

record outside =
  HttpGet :: "string \<Rightarrow> string + http_answer"
  HttpPost :: "string \<Rightarrow> bytes \<Rightarrow> string + http_answer"
  StatusText :: "int \<Rightarrow> string"
  OpenFile :: "string \<Rightarrow> string + (bytes \<times> string option) \<times> (string + int)"

definition open_local :: "outside \<Rightarrow> string \<Rightarrow> string + boot_file" where
  "open_local w path =
     (case OpenFile w path of
        Inl e \<Rightarrow> Inl e
      | Inr (f, fi) \<Rightarrow> (case fi of Inl e \<Rightarrow> Inl e | Inr sz \<Rightarrow> Inr (f, sz)))"

definition serve_file :: "outside \<Rightarrow> string \<Rightarrow> string + boot_file" where
  "serve_file w path =
     (if has_prefix path ''http://'' \<or> has_prefix path ''https://'' then
        (case HttpGet w path of
           Inl e \<Rightarrow> Inl e
         | Inr resp \<Rightarrow>
             if AnswerCode resp \<noteq> 200 then Inl (path @ '': '' @ StatusText w (AnswerCode resp))
             else Inr (AnswerBody resp, AnswerLength resp))
      else open_local w path)"

section \<open>The static booter\<close>

record static_booter =
  staticKernel :: string
  staticInitrd :: "string list"
  otherIDs :: "string list"
  staticEfi :: string
  staticSpec :: spec

definition spec_of_efi :: "string \<Rightarrow> spec" where
  "spec_of_efi msg = \<lparr>Kernel = [], Initrd = [], Efi = ''efi'', Cmdline = [], BootMessage = msg, IpxeScript = []\<rparr>"

fun initrd_ids :: "nat \<Rightarrow> string list \<Rightarrow> string list" where
  "initrd_ids i [] = []"
| "initrd_ids i (_ # initrds) = (''initrd-'' @ format_nat i) # initrd_ids (i + 1) initrds"

text \<open>The template function of the constructor: it notes the identifier and leaves a reference to its place.\<close>

definition note_other :: "string list \<Rightarrow> string \<Rightarrow> (string + string) \<times> string list" where
  "note_other others ident =
     (let others = others @ [ident]
      in (Inr (''{{ ID '' @ [CHR 0x22] @ ''other-'' @ format_nat (length others - 1) @ [CHR 0x22] @ '' }}''), others))"

definition make_static_booter :: "string list template \<Rightarrow> spec \<Rightarrow> string + static_booter" where
  "make_static_booter run sp =
     (if Efi sp \<noteq> [] then
        Inr \<lparr>staticKernel = [], staticInitrd = [], otherIDs = [], staticEfi = Efi sp, staticSpec = spec_of_efi (BootMessage sp)\<rparr>
      else
        (case expand_cmdline run note_other (Cmdline sp) [] of
           (Inl e, _) \<Rightarrow> Inl e
         | (Inr cmdline, others) \<Rightarrow>
             Inr \<lparr>staticKernel = Kernel sp, staticInitrd = Initrd sp, otherIDs = others, staticEfi = [],
               staticSpec = \<lparr>Kernel = ''kernel'', Initrd = initrd_ids 0 (Initrd sp), Efi = [], Cmdline = cmdline,
                 BootMessage = BootMessage sp, IpxeScript = []\<rparr>\<rparr>))"

definition numbered_file :: "string \<Rightarrow> string list \<Rightarrow> string option" where
  "numbered_file n files =
     (case parse_int64 n of
        None \<Rightarrow> None
      | Some i \<Rightarrow> if i < 0 \<or> int (length files) \<le> i then None else Some (files ! nat i))"

definition static_read :: "outside \<Rightarrow> (string \<Rightarrow> string) \<Rightarrow> static_booter \<Rightarrow> string \<Rightarrow> string + boot_file" where
  "static_read w quote b path =
     (let no_file = Inl (''no file with ID '' @ quote path) in
      if path = ''kernel'' then serve_file w (staticKernel b)
      else if path = ''efi'' then serve_file w (staticEfi b)
      else if has_prefix path ''initrd-'' then
        (case numbered_file (drop 7 path) (staticInitrd b) of None \<Rightarrow> no_file | Some f \<Rightarrow> serve_file w f)
      else if has_prefix path ''other-'' then
        (case numbered_file (drop 6 path) (otherIDs b) of None \<Rightarrow> no_file | Some f \<Rightarrow> serve_file w f)
      else no_file)"

definition file_name_from_location :: "'u url_package \<Rightarrow> string \<Rightarrow> string" where
  "file_name_from_location L location =
     (let finish = (\<lambda>name. let name = base_name name in if name = ''.'' \<or> name = ''/'' then [] else name) in
      case UrlParse L location of
        Inl _ \<Rightarrow> finish location
      | Inr u \<Rightarrow>
          if UrlScheme L u = [] then finish location
          else if UrlPath L u = [] then []
          else finish (case path_unescape (UrlPath L u) of None \<Rightarrow> UrlPath L u | Some unescaped \<Rightarrow> unescaped))"

definition static_write_boot_file :: "static_booter \<Rightarrow> string \<Rightarrow> bytes \<Rightarrow> string option" where
  "static_write_boot_file b ident body = None"

definition static_boot_file_name :: "'u url_package \<Rightarrow> static_booter \<Rightarrow> string \<Rightarrow> string" where
  "static_boot_file_name L b path =
     (if \<not> has_prefix path ''other-'' then []
      else case numbered_file (drop 6 path) (otherIDs b) of None \<Rightarrow> [] | Some f \<Rightarrow> file_name_from_location L f)"

definition static_booter_of :: "outside \<Rightarrow> (string \<Rightarrow> string) \<Rightarrow> 'u url_package \<Rightarrow> static_booter \<Rightarrow> booter" where
  "static_booter_of w quote L b =
     \<lparr>BootSpec = (\<lambda>_ _. Inr (Some (staticSpec b))), ReadBootFile = (\<lambda>_. static_read w quote b),
      FileNamer = Some (static_boot_file_name L b)\<rparr>"

section \<open>The booter that asks a service\<close>

datatype json = JBool bool | JString string | JObject "(string \<times> json) list" | JOther

record api_answer =
  apiKernel :: string
  apiInitrd :: "string list"
  apiCmdline :: "json option"
  apiMessage :: string
  apiIpxeScript :: string

record api_booter =
  urlPrefix :: string
  signKey :: bytes

definition has_suffix :: "string \<Rightarrow> string \<Rightarrow> bool" where
  "has_suffix s t = has_prefix (rev s) (rev t)"

definition make_api_booter :: "string + bytes \<Rightarrow> string \<Rightarrow> string + api_booter" where
  "make_api_booter randomness url =
     (let url = (if has_suffix url ''/'' then url else url @ ''/'') in
      case randomness of Inl e \<Rightarrow> Inl (''failed to get randomness for signing key: '' @ e) | Inr k \<Rightarrow> Inr \<lparr>urlPrefix = url @ ''v1'', signKey = k\<rparr>)"

fun cmdline_words :: "(string \<Rightarrow> string) \<Rightarrow> (json option \<Rightarrow> string) \<Rightarrow> (string \<Rightarrow> json option) \<Rightarrow> string list \<Rightarrow> string + string list" where
  "cmdline_words quote kind m [] = Inr []"
| "cmdline_words quote kind m (k # ks) =
     (let rest = (\<lambda>w. case cmdline_words quote kind m ks of Inl e \<Rightarrow> Inl e | Inr ws \<Rightarrow> Inr (w # ws)) in
      case m k of
        Some (JBool b) \<Rightarrow> rest k
      | Some (JString v) \<Rightarrow> rest (k @ ''='' @ quote v)
      | Some (JObject v) \<Rightarrow>
          (case map_of v ''url'' of
             Some (JString u) \<Rightarrow> rest (k @ ''={{ URL '' @ quote u @ '' }}'')
           | _ \<Rightarrow> Inl (''cmdline key '' @ quote k @ '' has object value with no 'url' attribute''))
      | _ \<Rightarrow> Inl (''unsupported value kind '' @ kind (m k) @ '' for cmdline key '' @ quote k))"

fun join_space :: "string list \<Rightarrow> string" where
  "join_space [] = []"
| "join_space [w] = w"
| "join_space (w # ws) = w @ CHR '' '' # join_space ws"

definition construct_cmdline :: "(string \<Rightarrow> string) \<Rightarrow> (json option \<Rightarrow> string) \<Rightarrow> (string \<times> json) list \<Rightarrow> string + string" where
  "construct_cmdline quote kind m =
     (case cmdline_words quote kind (map_of m) (sort (map fst m)) of Inl e \<Rightarrow> Inl e | Inr ws \<Rightarrow> Inr (join_space ws))"

text \<open>The request for a machine's spec.\<close>

definition api_response :: "outside \<Rightarrow> api_booter \<Rightarrow> bytes \<Rightarrow> string + bytes \<times> string option" where
  "api_response w b hw =
     (let reqURL = urlPrefix b @ ''/boot/'' @ mac_string hw in
      case HttpGet w reqURL of
        Inl e \<Rightarrow> Inl e
      | Inr resp \<Rightarrow>
          if AnswerCode resp \<noteq> 200 then Inl (reqURL @ '': '' @ StatusText w (AnswerCode resp)) else Inr (AnswerBody resp))"

definition api_url_absolute :: "'u url_package \<Rightarrow> (string \<Rightarrow> string) \<Rightarrow> api_booter \<Rightarrow> string \<Rightarrow> string + string" where
  "api_url_absolute L quote b urlStr =
     (case UrlParse L urlStr of
        Inl _ \<Rightarrow> Inl (quote urlStr @ '' is not an URL'')
      | Inr u \<Rightarrow>
          if UrlScheme L u = [] then
            (case UrlParse L (urlPrefix b) of Inl e \<Rightarrow> Inl e | Inr base \<Rightarrow> Inr (UrlRender L (UrlResolve L base u)))
          else Inr (UrlRender L u))"

text \<open>
  \<open>nonces n\<close> is what the \<open>n\<close>-th read of randomness gives; the number of these reads is the state.
\<close>

fun map_result :: "('a \<Rightarrow> 'e + 'b) \<Rightarrow> 'a list \<Rightarrow> 'e + 'b list" where
  "map_result f [] = Inr []"
| "map_result f (x # xs) =
     (case f x of Inl e \<Rightarrow> Inl e | Inr y \<Rightarrow> (case map_result f xs of Inl e \<Rightarrow> Inl e | Inr ys \<Rightarrow> Inr (y # ys)))"

fun sign_all ::
    "secretbox_seal \<Rightarrow> (nat \<Rightarrow> string + bytes) \<Rightarrow> bytes \<Rightarrow> string list \<Rightarrow> nat \<Rightarrow> (string + string list) \<times> nat" where
  "sign_all seal nonces k [] n = (Inr [], n)"
| "sign_all seal nonces k (u # us) n =
     (case sign_url seal (nonces n) u k of
        Inl e \<Rightarrow> (Inl e, n + 1)
      | Inr ident \<Rightarrow>
          (case sign_all seal nonces k us (n + 1) of (Inl e, n') \<Rightarrow> (Inl e, n') | (Inr ids, n') \<Rightarrow> (Inr (ident # ids), n')))"

text \<open>The error of a URL that does not parse quotes the empty result of the failed call, not the URL.\<close>

definition url_reference ::
    "'u url_package \<Rightarrow> secretbox_seal \<Rightarrow> (nat \<Rightarrow> string + bytes) \<Rightarrow> (string \<Rightarrow> string) \<Rightarrow> api_booter \<Rightarrow> nat \<Rightarrow> string \<Rightarrow>
     (string + string) \<times> nat" where
  "url_reference L seal nonces quote b n u =
     (case api_url_absolute L quote b u of
        Inl e \<Rightarrow> (Inl (''invalid url '' @ quote [] @ '' for cmdline: '' @ e), n)
      | Inr urlStr \<Rightarrow>
          (case sign_url seal (nonces n) urlStr (signKey b) of
             Inl e \<Rightarrow> (Inl e, n + 1)
           | Inr ident \<Rightarrow> (Inr (''{{ ID '' @ quote ident @ '' }}''), n + 1)))"

text \<open>\<open>kind\<close> renders the type of a value, \<^verbatim>\<open>%T\<close>.\<close>

definition answered_cmdline ::
    "(string \<Rightarrow> string) \<Rightarrow> (json option \<Rightarrow> string) \<Rightarrow> json option \<Rightarrow> string + string" where
  "answered_cmdline quote kind c =
     (case c of
        None \<Rightarrow> Inr []
      | Some (JString s) \<Rightarrow> Inr s
      | Some (JObject m) \<Rightarrow> construct_cmdline quote kind m
      | Some _ \<Rightarrow> Inl (''API server returned unknown type '' @ kind c @ '' for kernel cmdline''))"

text \<open>\<open>decode\<close> is \<^verbatim>\<open>encoding/json\<close> on the record of the answer.\<close>

definition api_boot_spec ::
    "outside \<Rightarrow> (bytes \<times> string option \<Rightarrow> string + api_answer) \<Rightarrow> 'u url_package \<Rightarrow> secretbox_seal \<Rightarrow> (nat \<Rightarrow> string + bytes) \<Rightarrow>
     (string \<Rightarrow> string) \<Rightarrow> (json option \<Rightarrow> string) \<Rightarrow> nat template \<Rightarrow> api_booter \<Rightarrow> machine \<Rightarrow> nat \<Rightarrow> (string + spec) \<times> nat" where
  "api_boot_spec w decode L seal nonces quote kind run b mach n =
     (case api_response w b (MAC mach) of
        Inl e \<Rightarrow> (Inl e, n)
      | Inr body \<Rightarrow>
     (case decode body of
        Inl e \<Rightarrow> (Inl e, n)
      | Inr r \<Rightarrow>
     (if apiIpxeScript r \<noteq> [] then
        (Inr \<lparr>Kernel = [], Initrd = [], Efi = [], Cmdline = [], BootMessage = [], IpxeScript = apiIpxeScript r\<rparr>, n)
      else
     (case map_result (api_url_absolute L quote b) (apiKernel r # apiInitrd r) of
        Inl e \<Rightarrow> (Inl e, n)
      | Inr urls \<Rightarrow>
     (case sign_all seal nonces (signKey b) urls n of
        (Inl e, n) \<Rightarrow> (Inl e, n)
      | (Inr ids, n) \<Rightarrow>
     (case answered_cmdline quote kind (apiCmdline r) of
        Inl e \<Rightarrow> (Inl e, n)
      | Inr c \<Rightarrow>
     (case expand_cmdline run (url_reference L seal nonces quote b) c n of
        (Inl e, n) \<Rightarrow> (Inl e, n)
      | (Inr cmdline, n) \<Rightarrow>
          (Inr \<lparr>Kernel = hd ids, Initrd = tl ids, Efi = [], Cmdline = cmdline, BootMessage = apiMessage r, IpxeScript = []\<rparr>, n))))))))"

datatype read_error = IdRefused open_error | ReadFailed string

definition api_read_boot_file ::
    "secretbox_open \<Rightarrow> 'u url_package \<Rightarrow> (string \<Rightarrow> string) \<Rightarrow> outside \<Rightarrow> api_booter \<Rightarrow> string \<Rightarrow> read_error + boot_file" where
  "api_read_boot_file unseal L quote w b ident =
     (case get_url unseal ident (signKey b) of
        Inl e \<Rightarrow> Inl (IdRefused e)
      | Inr urlStr \<Rightarrow>
          (case UrlParse L urlStr of
             Inl _ \<Rightarrow> Inl (ReadFailed (quote urlStr @ '' is not an URL''))
           | Inr u \<Rightarrow>
               if UrlScheme L u = ''file'' then (case open_local w (UrlPath L u) of Inl e \<Rightarrow> Inl (ReadFailed e) | Inr f \<Rightarrow> Inr f)
               else (case HttpGet w urlStr of
                   Inl e \<Rightarrow> Inl (ReadFailed e)
                 | Inr resp \<Rightarrow>
                     if AnswerCode resp \<noteq> 200 then Inl (ReadFailed (''GET '' @ quote urlStr @ '' failed: '' @ AnswerStatus resp))
                     else Inr (AnswerBody resp, AnswerLength resp))))"

definition api_write_boot_file ::
    "secretbox_open \<Rightarrow> (string \<Rightarrow> string) \<Rightarrow> outside \<Rightarrow> api_booter \<Rightarrow> string \<Rightarrow> bytes \<Rightarrow> read_error option" where
  "api_write_boot_file unseal quote w b ident body =
     (case get_url unseal ident (signKey b) of
        Inl e \<Rightarrow> Some (IdRefused e)
      | Inr u \<Rightarrow>
          (case HttpPost w u body of
             Inl e \<Rightarrow> Some (ReadFailed e)
           | Inr resp \<Rightarrow>
               if AnswerCode resp \<noteq> 200 then Some (ReadFailed (''POST '' @ quote u @ '' failed: '' @ AnswerStatus resp))
               else None))"

section \<open>Facts\<close>

lemma parse_int64_format_nat: "i < 2 ^ 63 \<Longrightarrow> parse_int64 (format_nat i) = Some (int i)"
proof -
  assume "i < 2 ^ 63"
  then have "int i < 2 ^ 63" by (metis of_nat_less_numeral_power_cancel_iff)
  with parse_int64_format_int [of "int i"] show ?thesis by (simp add: format_int_def)
qed

lemma numbered_file_format: "i < length files \<Longrightarrow> length files \<le> 2 ^ 63 \<Longrightarrow> numbered_file (format_nat i) files = Some (files ! i)"
  by (simp add: numbered_file_def parse_int64_format_nat)

lemma numbered_file_member: "numbered_file n files = Some f \<Longrightarrow> f \<in> set files"
  by (auto simp: numbered_file_def split: option.splits if_splits)

lemma length_initrd_ids [simp]: "length (initrd_ids i initrds) = length initrds"
  by (induction i initrds rule: initrd_ids.induct) simp_all

lemma initrd_ids_nth: "j < length initrds \<Longrightarrow> initrd_ids i initrds ! j = ''initrd-'' @ format_nat (i + j)"
proof (induction i initrds arbitrary: j rule: initrd_ids.induct)
  case (2 i x xs)
  then show ?case by (cases j) simp_all
qed simp

lemma static_read_initrd:
  "i < length (staticInitrd b) \<Longrightarrow> length (staticInitrd b) \<le> 2 ^ 63 \<Longrightarrow>
     static_read w quote b (''initrd-'' @ format_nat i) = serve_file w (staticInitrd b ! i)"
  by (simp add: static_read_def numbered_file_format)

lemma static_read_other:
  "i < length (otherIDs b) \<Longrightarrow> length (otherIDs b) \<le> 2 ^ 63 \<Longrightarrow>
     static_read w quote b (''other-'' @ format_nat i) = serve_file w (otherIDs b ! i)"
  by (simp add: static_read_def numbered_file_format)

lemma static_read_outcomes:
  assumes "{staticKernel b, staticEfi b} \<union> set (staticInitrd b) \<union> set (otherIDs b) \<subseteq> F"
  shows "static_read w quote b ident = Inl (''no file with ID '' @ quote ident) \<or>
    (\<exists>f \<in> F. static_read w quote b ident = serve_file w f)"
proof -
  have "static_read w quote b ident = Inl (''no file with ID '' @ quote ident) \<or>
      (\<exists>f \<in> {staticKernel b, staticEfi b} \<union> set (staticInitrd b) \<union> set (otherIDs b). static_read w quote b ident = serve_file w f)"
    by (auto simp: static_read_def Let_def split: option.splits dest: numbered_file_member)
  with assms show ?thesis by (meson subsetD)
qed

text \<open>What the constructor leaves, with and without an EFI binary.\<close>

lemma make_static_booter_kernel:
  assumes "make_static_booter run sp = Inr b" and "Efi sp = []"
  obtains cmdline where "expand_cmdline run note_other (Cmdline sp) [] = (Inr cmdline, otherIDs b)"
    and "staticKernel b = Kernel sp" and "staticInitrd b = Initrd sp" and "staticEfi b = []"
    and "staticSpec b = \<lparr>Kernel = ''kernel'', Initrd = initrd_ids 0 (Initrd sp), Efi = [], Cmdline = cmdline,
      BootMessage = BootMessage sp, IpxeScript = []\<rparr>"
  using assms by (auto simp: make_static_booter_def split: prod.splits sum.splits)

lemma make_static_booter_efi:
  "make_static_booter run sp = Inr b \<Longrightarrow> Efi sp \<noteq> [] \<Longrightarrow>
     b = \<lparr>staticKernel = [], staticInitrd = [], otherIDs = [], staticEfi = Efi sp, staticSpec = spec_of_efi (BootMessage sp)\<rparr>"
  by (simp add: make_static_booter_def)

text \<open>Running a template of text and calls with the constructor's function numbers the calls.\<close>

fun calls :: "piece list \<Rightarrow> string list" where
  "calls [] = []"
| "calls (Literal _ # ps) = calls ps"
| "calls (Call a # ps) = a # calls ps"

fun renumbered :: "nat \<Rightarrow> piece list \<Rightarrow> string" where
  "renumbered i [] = []"
| "renumbered i (Literal t # ps) = t @ renumbered i ps"
| "renumbered i (Call _ # ps) = ''{{ ID '' @ [CHR 0x22] @ ''other-'' @ format_nat i @ [CHR 0x22] @ '' }}'' @ renumbered (i + 1) ps"

lemma run_note_other: "run_pieces note_other ps others = (Inr (renumbered (length others) ps), others @ calls ps)"
  by (induction ps arbitrary: others rule: calls.induct) (simp_all add: note_other_def)

lemma static_booter_calls:
  assumes "make_static_booter (\<lambda>f tpl. run_pieces f (parse tpl)) sp = Inr b" and "Efi sp = []"
  shows "otherIDs b = calls (parse (Cmdline sp))" and "Cmdline (staticSpec b) = trim_space (renumbered 0 (parse (Cmdline sp)))"
proof -
  obtain cmdline where "expand_cmdline (\<lambda>f tpl. run_pieces f (parse tpl)) note_other (Cmdline sp) [] = (Inr cmdline, otherIDs b)"
      and "Cmdline (staticSpec b) = cmdline"
    by (rule make_static_booter_kernel [OF assms]) simp
  then show "otherIDs b = calls (parse (Cmdline sp))" "Cmdline (staticSpec b) = trim_space (renumbered 0 (parse (Cmdline sp)))"
    by (simp_all add: expand_cmdline_def run_note_other Let_def split: if_splits)
qed

section \<open>Properties of the static booter\<close>

text \<open>
  C39. The identifiers of the spec a static booter hands out lead back to the files of the spec it was made from: kernel and
  initrds by position, or the EFI binary alone.
\<close>

theorem static_booter_serves:
  assumes "make_static_booter run sp = Inr b" and "length (Initrd sp) \<le> 2 ^ 63"
  shows "if Efi sp \<noteq> [] then
      static_read w quote b (Efi (staticSpec b)) = serve_file w (Efi sp) \<and> Kernel (staticSpec b) = [] \<and> Initrd (staticSpec b) = []
    else
      static_read w quote b (Kernel (staticSpec b)) = serve_file w (Kernel sp) \<and> Efi (staticSpec b) = [] \<and>
      length (Initrd (staticSpec b)) = length (Initrd sp) \<and>
      (\<forall>i < length (Initrd sp). static_read w quote b (Initrd (staticSpec b) ! i) = serve_file w (Initrd sp ! i))"
proof (cases "Efi sp = []")
  case True
  obtain cmdline where b: "staticKernel b = Kernel sp" "staticInitrd b = Initrd sp" and
      sp: "staticSpec b = \<lparr>Kernel = ''kernel'', Initrd = initrd_ids 0 (Initrd sp), Efi = [], Cmdline = cmdline,
        BootMessage = BootMessage sp, IpxeScript = []\<rparr>"
    by (rule make_static_booter_kernel [OF assms(1) True])
  have "static_read w quote b ''kernel'' = serve_file w (Kernel sp)" by (simp add: static_read_def b)
  moreover have "static_read w quote b (initrd_ids 0 (Initrd sp) ! i) = serve_file w (Initrd sp ! i)" if "i < length (Initrd sp)" for i
    unfolding initrd_ids_nth [OF that] using static_read_initrd [of i b w quote] that assms(2) b by simp
  ultimately show ?thesis using True by (simp add: sp)
next
  case False
  with make_static_booter_efi [OF assms(1) False] show ?thesis
    by (simp add: spec_of_efi_def static_read_def)
qed

text \<open>
  The references of the command line are numbered in the order the template makes them, and each number leads to the
  file it stands for; nothing else of the command line changes but white space at its ends.
\<close>

theorem static_cmdline_references:
  assumes "make_static_booter (\<lambda>f tpl. run_pieces f (parse tpl)) sp = Inr b" and "Efi sp = []"
    and "length (calls (parse (Cmdline sp))) \<le> 2 ^ 63"
  shows "Cmdline (staticSpec b) = trim_space (renumbered 0 (parse (Cmdline sp))) \<and>
    (\<forall>i < length (calls (parse (Cmdline sp))).
       static_read w quote b (''other-'' @ format_nat i) = serve_file w (calls (parse (Cmdline sp)) ! i))"
  using static_read_other [of _ b w quote] assms(3) by (simp add: static_booter_calls [OF assms(1,2)])

text \<open>
  C9. A client can only read the files its operator configured: whatever identifier it asks for, the answer is the refusal of
  that identifier or one of the locations in the spec, or the empty path, which is never a file.
\<close>

theorem static_booter_confined:
  assumes "make_static_booter (\<lambda>f tpl. run_pieces f (parse tpl)) sp = Inr b"
  shows "static_read w quote b ident = Inl (''no file with ID '' @ quote ident) \<or>
    (\<exists>f \<in> {[], Kernel sp, Efi sp} \<union> set (Initrd sp) \<union> set (calls (parse (Cmdline sp))).
       static_read w quote b ident = serve_file w f)"
proof (cases "Efi sp = []")
  case True
  have "staticKernel b = Kernel sp" "staticInitrd b = Initrd sp" "staticEfi b = []"
    by (rule make_static_booter_kernel [OF assms True], simp)+
  with static_booter_calls(1) [OF assms True] show ?thesis by (intro static_read_outcomes) auto
next
  case False
  have "staticKernel b = []" "staticInitrd b = []" "staticEfi b = Efi sp" "otherIDs b = []"
    by (simp_all add: make_static_booter_efi [OF assms False])
  then show ?thesis by (intro static_read_outcomes) auto
qed

text \<open>A machine room for the witnesses: one local file, no network.\<close>

definition sample_world :: outside where
  "sample_world = \<lparr>HttpGet = (\<lambda>u. if has_prefix u ''http://api'' then
       Inr \<lparr>AnswerCode = 200, AnswerStatus = ''200 OK'', AnswerBody = (bytes_of u, None), AnswerLength = 7\<rparr> else Inl ''unreachable''),
     HttpPost = (\<lambda>_ _. Inl ''unreachable''), StatusText = (\<lambda>_. []),
     OpenFile = (\<lambda>p. if p = ''/vmlinuz'' then Inr (([1, 2, 3], None), Inr 3) else Inl ''no such file'')\<rparr>"

definition sample_spec :: spec where
  "sample_spec = \<lparr>Kernel = ''/vmlinuz'', Initrd = [''/initrd'', ''/vmlinuz''], Efi = [], Cmdline = ''/vmlinuz'', BootMessage = [], IpxeScript = []\<rparr>"

definition sample_pieces :: "string \<Rightarrow> piece list" where
  "sample_pieces tpl = [Literal ''root='', Call tpl]"

lemma sample_booter: "\<exists>b. make_static_booter (\<lambda>f tpl. run_pieces f (sample_pieces tpl)) sample_spec = Inr b"
proof -
  have "\<exists>b. fst (run_pieces note_other (sample_pieces (Cmdline sample_spec)) []) = Inr b \<and> newline \<notin> set (trim_space b)"
    by (simp add: sample_spec_def sample_pieces_def note_other_def) code_simp
  then show ?thesis
    by (auto simp: make_static_booter_def expand_cmdline_def Let_def split: prod.splits)
qed

theorem static_booter_serves_witness:
  "\<exists>b. make_static_booter (\<lambda>f tpl. run_pieces f (sample_pieces tpl)) sample_spec = Inr b \<and>
     static_read sample_world id b (Initrd (staticSpec b) ! 1) = Inr (([1, 2, 3], None), 3)"
proof -
  obtain b where b: "make_static_booter (\<lambda>f tpl. run_pieces f (sample_pieces tpl)) sample_spec = Inr b" using sample_booter by blast
  have "length (Initrd sample_spec) \<le> 2 ^ 63" "Efi sample_spec = []" "1 < length (Initrd sample_spec)"
    by (simp_all add: sample_spec_def)
  with static_booter_serves [OF b, of sample_world id]
  have "static_read sample_world id b (Initrd (staticSpec b) ! 1) = serve_file sample_world (Initrd sample_spec ! 1)" by simp
  then show ?thesis
    using b by (simp add: sample_spec_def serve_file_def sample_world_def open_local_def has_prefix_iff)
qed

theorem static_cmdline_references_witness:
  "\<exists>b. make_static_booter (\<lambda>f tpl. run_pieces f (sample_pieces tpl)) sample_spec = Inr b \<and>
     static_read sample_world id b ''other-0'' = Inr (([1, 2, 3], None), 3)"
proof -
  obtain b where b: "make_static_booter (\<lambda>f tpl. run_pieces f (sample_pieces tpl)) sample_spec = Inr b" using sample_booter by blast
  have "Efi sample_spec = []" "length (calls (sample_pieces (Cmdline sample_spec))) \<le> 2 ^ 63"
    "0 < length (calls (sample_pieces (Cmdline sample_spec)))"
    by (simp_all add: sample_spec_def sample_pieces_def)
  with static_cmdline_references [OF b, of sample_world id]
  have "static_read sample_world id b (''other-'' @ format_nat 0) = serve_file sample_world (calls (sample_pieces (Cmdline sample_spec)) ! 0)"
    by blast
  moreover have "''other-'' @ format_nat 0 = ''other-0''" by code_simp
  ultimately show ?thesis
    using b by (simp add: sample_spec_def sample_pieces_def serve_file_def sample_world_def open_local_def has_prefix_iff)
qed

theorem static_booter_confined_witness:
  "\<exists>b. make_static_booter (\<lambda>f tpl. run_pieces f (sample_pieces tpl)) sample_spec = Inr b \<and>
     static_read sample_world id b ''/etc/shadow'' \<noteq> Inr (([1, 2, 3], None), 4)"
proof -
  obtain b where b: "make_static_booter (\<lambda>f tpl. run_pieces f (sample_pieces tpl)) sample_spec = Inr b" using sample_booter by blast
  have "serve_file sample_world f \<noteq> Inr (([1, 2, 3], None), 4)" if "f \<in> {[], ''/vmlinuz'', ''/initrd''}" for f
    using that by (auto simp: serve_file_def sample_world_def open_local_def has_prefix_iff)
  then have "\<forall>f \<in> {[], Kernel sample_spec, Efi sample_spec} \<union> set (Initrd sample_spec) \<union> set (calls (sample_pieces (Cmdline sample_spec))).
      serve_file sample_world f \<noteq> Inr (([1, 2, 3], None), 4)"
    by (simp add: sample_spec_def sample_pieces_def)
  with static_booter_confined [OF b, of sample_world id "''/etc/shadow''"] b show ?thesis by fastforce
qed

text \<open>A script of the operator's own is dropped: the static booter never hands one out.\<close>

theorem static_booter_drops_script: "make_static_booter run sp = Inr b \<Longrightarrow> IpxeScript (staticSpec b) = []"
  by (auto simp: make_static_booter_def spec_of_efi_def split: if_splits prod.splits sum.splits)

text \<open>
  The name of a file behind a URL is unescaped twice, once by parsing and once more by the program: a percent sign in the
  name does not survive. A location that ends in two dots names a parent directory.
\<close>

theorem file_name_unescaped_twice:
  assumes "UrlParse L ''https://host/50%2541.img'' = Inr u" and "UrlScheme L u = ''https''" and "UrlPath L u = ''/50%41.img''"
  shows "file_name_from_location L ''https://host/50%2541.img'' = ''50A.img''"
proof -
  have "path_unescape ''/50%41.img'' = Some ''/50A.img''" by code_simp
  moreover have "base_name ''/50A.img'' = ''50A.img''" by code_simp
  ultimately show ?thesis using assms by (simp add: file_name_from_location_def)
qed

section \<open>Facts about the other booter\<close>

lemma map_result_all: "map_result f xs = Inr ys \<Longrightarrow> list_all2 (\<lambda>x y. f x = Inr y) xs ys"
  by (induction xs arbitrary: ys) (auto split: sum.splits)

lemma sign_all_each:
  "sign_all seal nonces k us n = (Inr ids, n') \<Longrightarrow>
     n' = n + length us \<and> length ids = length us \<and>
     (\<forall>i < length us. \<exists>nonce. nonces (n + i) = Inr nonce \<and> sign_url seal (Inr nonce) (us ! i) k = Inr (ids ! i))"
proof (induction us arbitrary: n ids)
  case (Cons u us)
  from Cons.prems obtain ident ids' where sign: "sign_url seal (nonces n) u k = Inr ident"
      and rest: "sign_all seal nonces k us (n + 1) = (Inr ids', n')" and ids: "ids = ident # ids'"
    by (auto split: sum.splits prod.splits)
  from sign obtain nonce where nonce: "nonces n = Inr nonce" by (auto simp: sign_url_def split: sum.splits)
  have "\<exists>nonce. nonces (n + i) = Inr nonce \<and> sign_url seal (Inr nonce) ((u # us) ! i) k = Inr (ids ! i)" if "i < Suc (length us)" for i
  proof (cases i)
    case 0
    with sign nonce ids show ?thesis by simp
  next
    case (Suc j)
    with Cons.IH [OF rest] that ids show ?thesis by simp
  qed
  with Cons.IH [OF rest] ids show ?case by simp
qed simp

lemma snd_url_reference: "snd (url_reference L seal nonces quote b n u) \<in> {n, n + 1}"
  by (simp add: url_reference_def split: sum.splits)

text \<open>The steps behind a spec that is not a script.\<close>

lemma api_boot_spec_steps:
  assumes "api_boot_spec w decode L seal nonces quote kind run b mach n = (Inr sp, n')" and "IpxeScript sp = []"
  obtains body r urls ids m where "api_response w b (MAC mach) = Inr body" and "decode body = Inr r"
    and "map_result (api_url_absolute L quote b) (apiKernel r # apiInitrd r) = Inr urls"
    and "sign_all seal nonces (signKey b) urls n = (Inr ids, m)" and "Kernel sp = hd ids" and "Initrd sp = tl ids"
proof -
  from assms(1) obtain body where body: "api_response w b (MAC mach) = Inr body"
    by (cases "api_response w b (MAC mach)") (simp_all add: api_boot_spec_def)
  with assms(1) obtain r where r: "decode body = Inr r"
    by (cases "decode body") (simp_all add: api_boot_spec_def)
  have script: "apiIpxeScript r = []"
    using assms body r by (cases "apiIpxeScript r = []") (auto simp: api_boot_spec_def)
  from assms(1) body r script obtain urls where urls: "map_result (api_url_absolute L quote b) (apiKernel r # apiInitrd r) = Inr urls"
    by (cases "map_result (api_url_absolute L quote b) (apiKernel r # apiInitrd r)") (simp_all add: api_boot_spec_def)
  from assms(1) body r script urls obtain ids m where ids: "sign_all seal nonces (signKey b) urls n = (Inr ids, m)"
    by (cases "sign_all seal nonces (signKey b) urls n"; cases "fst (sign_all seal nonces (signKey b) urls n)")
      (simp_all add: api_boot_spec_def)
  with assms(1) body r script urls have "Kernel sp = hd ids" "Initrd sp = tl ids"
    by (auto simp: api_boot_spec_def split: sum.splits prod.splits)
  with body r urls ids show thesis by (rule that)
qed

section \<open>Properties of the other booter\<close>

text \<open>
  The identifiers of a spec made from a service's answer are sealed, each under a nonce of its own, and open to the
  absolute URLs of the answer's kernel and initrds, in order.
\<close>

theorem api_identifiers_open:
  assumes "\<And>m n k. length n = 24 \<Longrightarrow> length k = 32 \<Longrightarrow> unseal (seal m n k) n k = Some m"
    and "\<And>i nonce. nonces i = Inr nonce \<Longrightarrow> length nonce = 24" and "length (signKey b) = 32"
    and "api_boot_spec w decode L seal nonces quote kind run b mach n = (Inr sp, n')" and "IpxeScript sp = []"
  shows "\<exists>body r urls. api_response w b (MAC mach) = Inr body \<and> decode body = Inr r \<and>
    list_all2 (\<lambda>u url. api_url_absolute L quote b u = Inr url) (apiKernel r # apiInitrd r) urls \<and>
    list_all2 (\<lambda>ident url. get_url unseal ident (signKey b) = Inr url) (Kernel sp # Initrd sp) urls \<and>
    (\<forall>i < length urls. \<exists>nonce. nonces (n + i) = Inr nonce \<and>
       sign_url seal (Inr nonce) (urls ! i) (signKey b) = Inr ((Kernel sp # Initrd sp) ! i))"
proof -
  obtain body r urls ids m where steps: "api_response w b (MAC mach) = Inr body" "decode body = Inr r"
      "map_result (api_url_absolute L quote b) (apiKernel r # apiInitrd r) = Inr urls"
      "sign_all seal nonces (signKey b) urls n = (Inr ids, m)" "Kernel sp = hd ids" "Initrd sp = tl ids"
    by (rule api_boot_spec_steps [OF assms(4,5)])
  have absolute: "list_all2 (\<lambda>u url. api_url_absolute L quote b u = Inr url) (apiKernel r # apiInitrd r) urls"
    using steps(3) by (rule map_result_all)
  have signed: "length ids = length urls"
      "\<forall>i < length urls. \<exists>nonce. nonces (n + i) = Inr nonce \<and> sign_url seal (Inr nonce) (urls ! i) (signKey b) = Inr (ids ! i)"
    using sign_all_each [OF steps(4)] by blast+
  have "urls \<noteq> []" using absolute by auto
  with signed(1) have ids: "Kernel sp # Initrd sp = ids" using steps(5,6) by (cases ids) auto
  have "get_url unseal (ids ! i) (signKey b) = Inr (urls ! i)" if "i < length urls" for i
  proof -
    from signed(2) that obtain nonce where nonce: "nonces (n + i) = Inr nonce"
      "sign_url seal (Inr nonce) (urls ! i) (signKey b) = Inr (ids ! i)" by blast
    from assms(2) [OF nonce(1)] show ?thesis
      using get_signed [where unseal = unseal, OF _ _ nonce(2)] assms(1) [of nonce "signKey b"] assms(3) by blast
  qed
  then have "list_all2 (\<lambda>ident url. get_url unseal ident (signKey b) = Inr url) ids urls"
    using signed(1) by (simp add: list_all2_conv_all_nth)
  with steps(1,2) absolute signed(2) show ?thesis unfolding ids by blast
qed

definition sample_urls :: "string url_package" where
  "sample_urls = \<lparr>UrlParse = Inr, UrlScheme = (\<lambda>u. if has_prefix u ''http:'' then ''http'' else []), UrlPath = id,
     UrlResolve = (\<lambda>base u. base @ ''/'' @ u), UrlRender = id\<rparr>"

definition sample_answer :: "bytes \<times> string option \<Rightarrow> string + api_answer" where
  "sample_answer _ = Inr \<lparr>apiKernel = ''k'', apiInitrd = [''http://i''], apiCmdline = None, apiMessage = [], apiIpxeScript = []\<rparr>"

definition no_calls :: "nat template" where
  "no_calls f tpl s = (Inr tpl, s)"

theorem api_identifiers_open_witness:
  "\<exists>sp n'. api_boot_spec sample_world sample_answer sample_urls (\<lambda>m n k. rev m @ [7]) (\<lambda>i. Inr (replicate 24 (word_of_nat i))) id (\<lambda>_. [])
       no_calls \<lparr>urlPrefix = ''http://api/v1'', signKey = replicate 32 9\<rparr> \<lparr>MAC = [2, 0, 0, 0, 0, 1], Arch = 0\<rparr> 0 = (Inr sp, n') \<and>
     get_url (\<lambda>box n k. if box \<noteq> [] \<and> last box = 7 then Some (rev (butlast box)) else None) (Kernel sp) (replicate 32 9) = Inr ''http://api/v1/k'' \<and>
     get_url (\<lambda>box n k. if box \<noteq> [] \<and> last box = 7 then Some (rev (butlast box)) else None) (Initrd sp ! 0) (replicate 32 9) = Inr ''http://i''"
proof -
  let ?b = "\<lparr>urlPrefix = ''http://api/v1'', signKey = replicate 32 (9 :: byte)\<rparr>" and ?mach = "\<lparr>MAC = [2, 0, 0, 0, 0, 1], Arch = 0\<rparr>"
  let ?run = "api_boot_spec sample_world sample_answer sample_urls (\<lambda>m n k. rev m @ [7]) (\<lambda>i. Inr (replicate 24 (word_of_nat i))) id (\<lambda>_. [])
    no_calls ?b ?mach"
  have expand: "expand_cmdline no_calls f [] m = (Inr [], m)" for f m
    by (simp add: expand_cmdline_def no_calls_def trim_space_def newline_def)
  have k: "api_url_absolute sample_urls id ?b ''k'' = Inr ''http://api/v1/k''"
    and i: "api_url_absolute sample_urls id ?b ''http://i'' = Inr ''http://i''"
    by (simp_all add: api_url_absolute_def sample_urls_def has_prefix_iff)
  have "\<exists>sp n'. ?run 0 = (Inr sp, n') \<and> IpxeScript sp = []"
    by (simp add: api_boot_spec_def api_response_def sample_world_def has_prefix_iff sample_answer_def k i sign_url_def
        answered_cmdline_def expand del: replicate_numeral)
  then obtain sp n' where sp: "?run 0 = (Inr sp, n')" "IpxeScript sp = []" by blast
  have "\<exists>body r urls. api_response sample_world ?b (MAC ?mach) = Inr body \<and> sample_answer body = Inr r \<and>
    list_all2 (\<lambda>u url. api_url_absolute sample_urls id ?b u = Inr url) (apiKernel r # apiInitrd r) urls \<and>
    list_all2 (\<lambda>ident url. get_url (\<lambda>box n k. if box \<noteq> [] \<and> last box = 7 then Some (rev (butlast box)) else None) ident (signKey ?b) = Inr url)
      (Kernel sp # Initrd sp) urls"
    using api_identifiers_open [OF _ _ _ sp, of "\<lambda>box n k. if box \<noteq> [] \<and> last box = 7 then Some (rev (butlast box)) else None"]
    by fastforce
  then obtain urls where urls: "list_all2 (\<lambda>u url. api_url_absolute sample_urls id ?b u = Inr url) [''k'', ''http://i''] urls"
    "list_all2 (\<lambda>ident url. get_url (\<lambda>box n k. if box \<noteq> [] \<and> last box = 7 then Some (rev (butlast box)) else None) ident (signKey ?b) = Inr url)
      (Kernel sp # Initrd sp) urls"
    by (auto simp: sample_answer_def)
  from urls(1) have "urls = [''http://api/v1/k'', ''http://i'']" by (auto simp: list_all2_Cons1 k i simp del: replicate_numeral)
  with urls(2) sp(1) show ?thesis by (auto simp: list_all2_Cons2 simp del: replicate_numeral)
qed

text \<open>
  Only sealed identifiers are served: whatever a client asks for, a file comes back only when the identifier is the
  base64 of a nonce and a box that opens under the server's key, and then it is the file or the resource its URL names.
\<close>

theorem api_serves_sealed_only:
  assumes "api_read_boot_file unseal L quote w b ident = Inr f"
  shows "\<exists>nonce box url u. b64_decode ident = Some (nonce @ box) \<and> length nonce = 24 \<and>
    unseal box nonce (signKey b) = Some (bytes_of url) \<and> UrlParse L url = Inr u \<and>
    (if UrlScheme L u = ''file'' then open_local w (UrlPath L u) = Inr f
     else \<exists>resp. HttpGet w url = Inr resp \<and> AnswerCode resp = 200 \<and> f = (AnswerBody resp, AnswerLength resp))"
proof -
  from assms obtain url where url: "get_url unseal ident (signKey b) = Inr url"
    by (auto simp: api_read_boot_file_def split: sum.splits)
  with assms obtain u where u: "UrlParse L url = Inr u"
    by (auto simp: api_read_boot_file_def split: sum.splits)
  have fetched: "if UrlScheme L u = ''file'' then open_local w (UrlPath L u) = Inr f
      else \<exists>resp. HttpGet w url = Inr resp \<and> AnswerCode resp = 200 \<and> f = (AnswerBody resp, AnswerLength resp)"
    using assms by (auto simp: api_read_boot_file_def url u split: sum.splits if_splits)
  from get_url_sealed [OF url] obtain nonce box where "b64_decode ident = Some (nonce @ box)" "length nonce = 24"
    "unseal box nonce (signKey b) = Some (bytes_of url)" by blast
  with u fetched show ?thesis by blast
qed

theorem api_serves_sealed_only_witness:
  "\<exists>ident. api_read_boot_file (\<lambda>box n k. if k = replicate 32 9 then Some (rev box) else None) sample_urls id sample_world
       \<lparr>urlPrefix = [], signKey = replicate 32 9\<rparr> ident = Inr ((bytes_of ''http://api'', None), 7) \<and>
     (\<exists>nonce box. b64_decode ident = Some (nonce @ box) \<and> length nonce = 24)"
proof -
  let ?ident = "b64_encode (replicate 24 0 @ rev (bytes_of ''http://api''))"
  have "get_url (\<lambda>box n k. if k = replicate 32 9 then Some (rev box) else None) ?ident (replicate 32 9) = Inr ''http://api''"
    by (simp add: get_url_def b64_decode_encode del: replicate_numeral)
  then have read: "api_read_boot_file (\<lambda>box n k. if k = replicate 32 9 then Some (rev box) else None) sample_urls id sample_world
       \<lparr>urlPrefix = [], signKey = replicate 32 9\<rparr> ?ident = Inr ((bytes_of ''http://api'', None), 7)"
    by (simp add: api_read_boot_file_def sample_urls_def sample_world_def has_prefix_iff del: replicate_numeral)
  from api_serves_sealed_only [OF this] read show ?thesis by blast
qed

text \<open>
  The order in which a map gives its keys does not show in the command line.\<close>

theorem cmdline_order_irrelevant:
  assumes "mset m = mset m'" and "distinct (map fst m)"
  shows "construct_cmdline quote kind m = construct_cmdline quote kind m'"
proof -
  have keys: "mset (map fst m) = mset (map fst m')" using assms(1) by simp
  then have "distinct (map fst m')" using assms(2) by (metis mset_eq_imp_distinct_iff)
  then have "map_of m = map_of m'"
    using assms by (intro map_of_inject_set [THEN iffD2]) (auto dest: mset_eq_setD)
  moreover have "sort (map fst m) = sort (map fst m')"
    by (rule properties_for_sort) (use keys in simp_all)
  ultimately show ?thesis by (simp add: construct_cmdline_def)
qed

theorem cmdline_order_irrelevant_witness:
  "construct_cmdline id (\<lambda>_. []) [(''quiet'', JBool True), (''a'', JString ''b'')] =
     construct_cmdline id (\<lambda>_. []) [(''a'', JString ''b''), (''quiet'', JBool True)] \<and>
   construct_cmdline id (\<lambda>_. []) [(''quiet'', JBool True), (''a'', JString ''b'')] = Inr ''a=b quiet''"
proof
  show "construct_cmdline id (\<lambda>_. []) [(''quiet'', JBool True), (''a'', JString ''b'')] =
      construct_cmdline id (\<lambda>_. []) [(''a'', JString ''b''), (''quiet'', JBool True)]"
    by (rule cmdline_order_irrelevant) simp_all
  show "construct_cmdline id (\<lambda>_. []) [(''quiet'', JBool True), (''a'', JString ''b'')] = Inr ''a=b quiet''"
    by code_simp
qed

end
