(* ===== verification/Sockets.thy ===== *)
theory Sockets
  imports Dhcp4_Conn
begin

text \<open>
  How the DHCP sockets are made: \<^verbatim>\<open>newConn\<close>, \<^verbatim>\<open>newPortableConn\<close>
  (\<^verbatim>\<open>dhcp4/conn.go\<close>), \<^verbatim>\<open>newLinuxConn\<close> with its packet filter
  (\<^verbatim>\<open>dhcp4/conn_linux.go\<close>), and \<^verbatim>\<open>NewConn\<close> of \<^verbatim>\<open>dhcp6/conn.go\<close>. A constructor gives its
  result and what it asked of the system, in order; \<open>sys\<close> answers each request with an error or none.
\<close>

section \<open>Requests to the system\<close>

datatype request =
    ListenPacket string string
  | RawSocket
  | ControlMessage
  | AttachFilter
  | JoinGroup int bytes
  | CloseSocket

type_synonym system = "request \<Rightarrow> string option"

text \<open>Whether a socket is open after a sequence of requests that went well.\<close>

fun socket_open :: "request list \<Rightarrow> bool \<Rightarrow> bool" where
  "socket_open [] opened = opened"
| "socket_open (ListenPacket _ _ # rs) opened = socket_open rs True"
| "socket_open (CloseSocket # rs) opened = socket_open rs False"
| "socket_open (_ # rs) opened = socket_open rs opened"

section \<open>DHCPv4\<close>

definition new_portable_conn :: "system \<Rightarrow> int \<Rightarrow> (string + unit) \<times> request list" where
  "new_portable_conn sys port =
     (let listen = ListenPacket ''udp4'' (CHR '':'' # format_int port) in
      case sys listen of
        Some err \<Rightarrow> (Inl err, [])
      | None \<Rightarrow>
          (case sys ControlMessage of
             Some err \<Rightarrow> (Inl err, [listen, CloseSocket])
           | None \<Rightarrow> (Inr (), [listen, ControlMessage])))"

text \<open>The instructions of \<^verbatim>\<open>golang.org/x/net/bpf\<close> the filter uses, with their fields.\<close>

datatype bpf_instruction =
    LoadMemShift nat
  | LoadIndirect nat nat
  | JumpIfEqual u32 nat
  | RetConstant nat

definition dhcp_filter :: "int \<Rightarrow> bpf_instruction list" where
  "dhcp_filter port =
     [LoadMemShift 0, LoadIndirect 2 2, JumpIfEqual (word_of_int port) 1, RetConstant 1500, RetConstant 0]"

text \<open>\<open>assemble\<close> encodes a program, which may fail. The result is the port replies are sent from.\<close>

definition new_linux_conn ::
    "(bpf_instruction list \<Rightarrow> string option) \<Rightarrow> system \<Rightarrow> int \<Rightarrow> (string + u16) \<times> request list" where
  "new_linux_conn assemble sys port =
     (if port = 0 then (Inl ''must specify a listen port'', [])
      else case assemble (dhcp_filter port) of
        Some err \<Rightarrow> (Inl err, [])
      | None \<Rightarrow>
      (let listen = ListenPacket ''ip4:17'' ''0.0.0.0'' in
       case sys listen of
         Some err \<Rightarrow> (Inl err, [])
       | None \<Rightarrow>
       (case sys RawSocket of
         Some err \<Rightarrow> (Inl err, [listen, CloseSocket])
       | None \<Rightarrow>
       (case sys ControlMessage of
         Some err \<Rightarrow> (Inl (''setting packet filter: '' @ err), [listen, RawSocket, CloseSocket])
       | None \<Rightarrow>
       (case sys AttachFilter of
         Some err \<Rightarrow> (Inl (''setting packet filter: '' @ err), [listen, RawSocket, ControlMessage, CloseSocket])
       | None \<Rightarrow> (Inr (word_of_int port), [listen, RawSocket, ControlMessage, AttachFilter]))))))"

text \<open>
  \<^verbatim>\<open>newConn\<close>: \<open>resolve\<close> is \<^verbatim>\<open>net.ResolveUDPAddr\<close>, \<open>socket\<close> one of the constructors above.
\<close>

datatype open_failed = Unresolved string | NoInterface conn_error | SocketRefused string

definition open_conn ::
    "(string \<Rightarrow> string + slice \<times> int) \<Rightarrow> string + net_interface list \<Rightarrow> (int \<Rightarrow> (string + 'c) \<times> request list) \<Rightarrow> string \<Rightarrow>
     (open_failed + 'c \<times> int) \<times> request list" where
  "open_conn resolve interfaces socket addr =
     (let addr = (if addr = [] then ''0.0.0.0:67'' else addr) in
      case resolve addr of
        Inl e \<Rightarrow> (Inl (Unresolved e), [])
      | Inr (ip, port) \<Rightarrow>
          (case new_conn interfaces ip of
             Inl e \<Rightarrow> (Inl (NoInterface e), [])
           | Inr ifIndex \<Rightarrow>
               (case socket port of
                  (Inl e, rs) \<Rightarrow> (Inl (SocketRefused e), rs)
                | (Inr c, rs) \<Rightarrow> (Inr (c, ifIndex), rs))))"

definition new_bound_conn ::
    "(string \<Rightarrow> string + slice \<times> int) \<Rightarrow> string + net_interface list \<Rightarrow> system \<Rightarrow> string \<Rightarrow>
     (open_failed + unit \<times> int) \<times> request list" where
  "new_bound_conn resolve interfaces sys addr = open_conn resolve interfaces (new_portable_conn sys) addr"

definition new_snooper_conn ::
    "(string \<Rightarrow> string + slice \<times> int) \<Rightarrow> string + net_interface list \<Rightarrow> (bpf_instruction list \<Rightarrow> string option) \<Rightarrow> system \<Rightarrow>
     string \<Rightarrow> (open_failed + u16 \<times> int) \<times> request list" where
  "new_snooper_conn resolve interfaces assemble sys addr = open_conn resolve interfaces (new_linux_conn assemble sys) addr"

text \<open>On systems other than Linux.\<close>

definition new_snooper_conn_elsewhere :: "string \<Rightarrow> string + unit" where
  "new_snooper_conn_elsewhere addr = Inl ''snooper Conns not supported on this OS''"

section \<open>DHCPv6\<close>

text \<open>\<open>render\<close> is \<^verbatim>\<open>net.IP.String\<close>.\<close>

datatype net_address = AddrIP slice | AddrNet slice | AddrOther

fun addr_to_ip :: "net_address \<Rightarrow> slice" where
  "addr_to_ip (AddrIP ip) = ip"
| "addr_to_ip (AddrNet ip) = ip"
| "addr_to_ip AddrOther = None"

record interface6 =
  ifIndex6 :: int
  ifHardware6 :: bytes
  ifAddrs6 :: "string + net_address list"

fun interface_by_address :: "(slice \<Rightarrow> string) \<Rightarrow> string \<Rightarrow> interface6 list \<Rightarrow> string + interface6" where
  "interface_by_address render ifAddr [] = Inl (''couldn't find an interface with address '' @ ifAddr)"
| "interface_by_address render ifAddr (ifi # ifis) =
     (case ifAddrs6 ifi of
        Inl err \<Rightarrow> Inl (''error getting network interface address information: '' @ err)
      | Inr addrs \<Rightarrow>
          if \<exists>a \<in> set addrs. render (addr_to_ip a) = ifAddr then Inr ifi
          else interface_by_address render ifAddr ifis)"

definition all_relay_agents_and_servers :: bytes where
  "all_relay_agents_and_servers = [0xff, 2, 0, 0, 0, 0, 0, 0, 0, 0, 0, 0, 0, 1, 0, 2]"

definition new_conn6 ::
    "(slice \<Rightarrow> string) \<Rightarrow> string + interface6 list \<Rightarrow> system \<Rightarrow> string \<Rightarrow> int \<Rightarrow> (string + interface6) \<times> request list" where
  "new_conn6 render interfaces sys addr port =
     (case (case interfaces of
              Inl err \<Rightarrow> Inl (''error getting network interface information: '' @ err)
            | Inr ifis \<Rightarrow> interface_by_address render addr ifis) of
        Inl e \<Rightarrow> (Inl e, [])
      | Inr ifi \<Rightarrow>
      (let listen = ListenPacket ''udp6'' (''[::]:'' @ format_int port);
           join = JoinGroup (ifIndex6 ifi) all_relay_agents_and_servers in
       case sys listen of
         Some err \<Rightarrow> (Inl err, [])
       | None \<Rightarrow>
       (case sys join of
         Some err \<Rightarrow> (Inl err, [listen, CloseSocket])
       | None \<Rightarrow>
       (case sys ControlMessage of
         Some err \<Rightarrow> (Inl err, [listen, join, CloseSocket])
       | None \<Rightarrow> (Inr ifi, [listen, join, ControlMessage])))))"

section \<open>The packet filter\<close>

text \<open>
  The kernel's filter machine, as the documentation of the instructions has it: \<open>exec p a x pkt\<close> runs the
  program \<open>p\<close> on a packet with the accumulator \<open>a\<close> and the index register \<open>x\<close>. Loading behind
  the end of the packet rejects it.
\<close>

definition bpf_machine :: "(bpf_instruction list \<Rightarrow> u32 \<Rightarrow> nat \<Rightarrow> bytes \<Rightarrow> nat) \<Rightarrow> bool" where
  "bpf_machine exec \<longleftrightarrow>
     (\<forall>off p a x pkt. exec (LoadMemShift off # p) a x pkt =
        (if off < length pkt then exec p a (4 * (unat (pkt ! off) mod 16)) pkt else 0)) \<and>
     (\<forall>off p a x pkt. exec (LoadIndirect off 2 # p) a x pkt =
        (if x + off + 2 \<le> length pkt then exec p (ucast (be16 (pkt ! (x + off)) (pkt ! (x + off + 1)))) x pkt else 0)) \<and>
     (\<forall>v skipFalse p a x pkt. exec (JumpIfEqual v skipFalse # p) a x pkt =
        (if a = v then exec p a x pkt else exec (drop skipFalse p) a x pkt)) \<and>
     (\<forall>n p a x pkt. exec (RetConstant n # p) a x pkt = n)"

lemma bpf_machineD:
  assumes "bpf_machine exec"
  shows "exec (LoadMemShift off # p) a x pkt = (if off < length pkt then exec p a (4 * (unat (pkt ! off) mod 16)) pkt else 0)"
    and "exec (LoadIndirect off 2 # p) a x pkt =
      (if x + off + 2 \<le> length pkt then exec p (ucast (be16 (pkt ! (x + off)) (pkt ! (x + off + 1)))) x pkt else 0)"
    and "exec (JumpIfEqual v skipFalse # p) a x pkt = (if a = v then exec p a x pkt else exec (drop skipFalse p) a x pkt)"
    and "exec (RetConstant n # p) a x pkt = n"
  using assms unfolding bpf_machine_def by (elim conjE; simp only:)+

lemma drop_one: "drop 1 (x # xs) = xs"
  by simp

text \<open>
  What the filter looks at: the two bytes where the UDP header behind an IP header of the length in the first byte has its
  destination port.
\<close>

definition carries_port :: "int \<Rightarrow> bytes \<Rightarrow> bool" where
  "carries_port port pkt \<longleftrightarrow>
     pkt \<noteq> [] \<and> (let dport = 4 * (unat (pkt ! 0) mod 16) + 2 in
       dport + 2 \<le> length pkt \<and> uint (be16 (pkt ! dport) (pkt ! (dport + 1))) = port)"

lemma ucast_port: "0 \<le> port \<Longrightarrow> port < 65536 \<Longrightarrow> ucast (w :: u16) = (word_of_int port :: u32) \<longleftrightarrow> uint w = port"
proof -
  assume "0 \<le> port" "port < 65536"
  then have "uint (word_of_int port :: u32) = port" by (simp add: uint_word_of_int)
  moreover have "uint (ucast w :: u32) = uint w" by (simp add: unsigned_ucast_eq take_bit_eq_mod) (use uint_lt2p [of w] in simp)
  ultimately show ?thesis by (metis word_uint_eq_iff)
qed

text \<open>A machine to run it on.\<close>

fun bpf_run :: "bpf_instruction list \<Rightarrow> u32 \<Rightarrow> nat \<Rightarrow> bytes \<Rightarrow> nat" where
  "bpf_run (LoadMemShift off # p) a x pkt = (if off < length pkt then bpf_run p a (4 * (unat (pkt ! off) mod 16)) pkt else 0)"
| "bpf_run (LoadIndirect off sz # p) a x pkt =
     (if x + off + 2 \<le> length pkt then bpf_run p (ucast (be16 (pkt ! (x + off)) (pkt ! (x + off + 1)))) x pkt else 0)"
| "bpf_run (JumpIfEqual v skipFalse # p) a x pkt = (if a = v then bpf_run p a x pkt else bpf_run (drop skipFalse p) a x pkt)"
| "bpf_run (RetConstant n # p) a x pkt = n"
| "bpf_run [] a x pkt = 0"

lemma bpf_run_machine: "bpf_machine bpf_run"
  by (simp add: bpf_machine_def)

section \<open>Properties\<close>

text \<open>
  C40. The filter of the snooper passes a packet, up to its first 1500 bytes, if and only if the destination port behind the IP
  header, whose length the first byte gives, is the port of the socket. It looks at nothing else: that the packet is UDP is what
  the socket it is attached to sees to, and whether the UDP header is complete is left to \<^verbatim>\<open>Recv\<close> (below).
\<close>

theorem filter_selects_port:
  assumes "bpf_machine exec" and "0 \<le> port" and "port < 65536"
  shows "exec (dhcp_filter port) a x pkt = (if carries_port port pkt then 1500 else 0)"
proof -
  let ?h = "4 * (unat (pkt ! 0) mod 16)"
  let ?dport = "ucast (be16 (pkt ! (?h + 2)) (pkt ! (?h + 2 + 1))) :: u32"
  note exec = bpf_machineD [OF assms(1)]
  have "exec (dhcp_filter port) a x pkt =
      (if 0 < length pkt then if ?h + 2 + 2 \<le> length pkt then if ?dport = word_of_int port then 1500 else 0 else 0 else 0)"
    by (simp only: dhcp_filter_def exec add_0_right One_nat_def [symmetric] drop_one)
  moreover have "carries_port port pkt \<longleftrightarrow> 0 < length pkt \<and> ?h + 2 + 2 \<le> length pkt \<and> ?dport = word_of_int port"
    unfolding ucast_port [OF assms(2,3)] by (simp add: carries_port_def Let_def)
  ultimately show ?thesis by simp
qed

theorem filter_selects_port_witness:
  "bpf_run (dhcp_filter 67) 0 0 (0x45 # replicate 19 0 @ [0, 68, 0, 67, 0, 8, 0, 0]) = 1500 \<and>
   bpf_run (dhcp_filter 67) 0 0 (0x45 # replicate 19 0 @ [0, 67, 0, 68, 0, 8, 0, 0]) = 0"
proof
  have "carries_port 67 (0x45 # replicate 19 0 @ [0, 68, 0, 67, 0, 8, 0, 0])" by code_simp
  then show "bpf_run (dhcp_filter 67) 0 0 (0x45 # replicate 19 0 @ [0, 68, 0, 67, 0, 8, 0, 0]) = 1500"
    using filter_selects_port [OF bpf_run_machine, of 67] by (simp del: replicate_numeral)
  have "\<not> carries_port 67 (0x45 # replicate 19 0 @ [0, 67, 0, 68, 0, 8, 0, 0])" by code_simp
  then show "bpf_run (dhcp_filter 67) 0 0 (0x45 # replicate 19 0 @ [0, 67, 0, 68, 0, 8, 0, 0]) = 0"
    using filter_selects_port [OF bpf_run_machine, of 67] by (simp del: replicate_numeral)
qed

text \<open>
  The filter also passes packets that end behind the destination port; receiving such a packet is an error, which ends
  the service.
\<close>

theorem filter_passes_truncated:
  assumes "bpf_machine exec"
  shows "exec (dhcp_filter 67) 0 0 (0x45 # replicate 19 0 @ [0, 68, 0, 67]) = 1500 \<and>
    recv_dhcp linux_recv by_index ifIndex (Inr ([0, 68, 0, 67], src, i) # es) = Some (Inl NotUdp, es)"
proof -
  have "carries_port 67 (0x45 # replicate 19 0 @ [0, 68, 0, 67])" by code_simp
  then show ?thesis
    using assms by (simp add: bpf_machine_def dhcp_filter_def linux_recv_def be16_def)
qed

text \<open>
  No constructor leaks a socket: on every path a socket is open at the end if and only if the constructor succeeded, and
  then the system granted every request it made.
\<close>

theorem sockets_not_leaked:
  "(case new_portable_conn sys port of (r, rs) \<Rightarrow>
      socket_open rs False = (\<exists>c. r = Inr c) \<and> (\<forall>q \<in> set rs. q = CloseSocket \<or> sys q = None)) \<and>
   (case new_linux_conn assemble sys port of (r, rs) \<Rightarrow>
      socket_open rs False = (\<exists>c. r = Inr c) \<and> (\<forall>q \<in> set rs. q = CloseSocket \<or> sys q = None)) \<and>
   (case new_conn6 render interfaces sys addr port of (r, rs) \<Rightarrow>
      socket_open rs False = (\<exists>c. r = Inr c) \<and> (\<forall>q \<in> set rs. q = CloseSocket \<or> sys q = None))"
  by (auto simp: new_portable_conn_def new_linux_conn_def new_conn6_def Let_def split: option.splits sum.splits)

theorem sockets_not_leaked_witness:
  "socket_open (snd (new_linux_conn (\<lambda>_. None) (\<lambda>q. if q = AttachFilter then Some ''denied'' else None) 67)) False = False"
  using sockets_not_leaked [of "\<lambda>q. if q = AttachFilter then Some ''denied'' else None" 67 "\<lambda>_. None" "\<lambda>_. []" "Inl []" "[]"]
  by (simp add: new_linux_conn_def)

end
