(* ===== verification/Server_Lifecycle.thy ===== *)
theory Server_Lifecycle
  imports Server_Dhcp
begin

text \<open>
  The life of a server (\<^verbatim>\<open>server/server.go\<close>): opening the listeners, the services that run beside
  \<^verbatim>\<open>Serve\<close> and report to it through a buffered channel, and \<^verbatim>\<open>Shutdown\<close>. The steps of the
  goroutines interleave in any order; both servers are the same machine, over four services and over one.
\<close>

section \<open>Opening the listeners\<close>

datatype listener = DhcpConn | TftpConn | PxeConn | HttpConn

text \<open>What \<^verbatim>\<open>Serve\<close> does to the system: it opens listeners, on a network and an address, and closes them.\<close>

datatype action = Open listener string string | Close listener

definition listen_address :: "boot_server \<Rightarrow> int \<Rightarrow> string" where
  "listen_address s port = Address s @ '':'' @ format_int port"

text \<open>\<open>refuses l network address\<close> is the error of opening a listener, if it fails.\<close>

definition open_listeners ::
    "bool \<Rightarrow> (listener \<Rightarrow> string \<Rightarrow> string \<Rightarrow> string option) \<Rightarrow> boot_server \<Rightarrow> string option \<times> action list" where
  "open_listeners noBind refuses s =
     (let newDHCP = (if noBind then ''snooper'' else ''udp4''); da = listen_address s (DHCPPort s);
          ta = listen_address s (TFTPPort s); pa = listen_address s (PXEPort s); ha = listen_address s (HTTPPort s) in
      case refuses DhcpConn newDHCP da of
        Some err \<Rightarrow> (Some err, [])
      | None \<Rightarrow>
      (case refuses TftpConn ''udp'' ta of
        Some err \<Rightarrow> (Some err, [Open DhcpConn newDHCP da, Close DhcpConn])
      | None \<Rightarrow>
      (case refuses PxeConn ''udp4'' pa of
        Some err \<Rightarrow> (Some err, [Open DhcpConn newDHCP da, Open TftpConn ''udp'' ta, Close DhcpConn, Close TftpConn])
      | None \<Rightarrow>
      (case refuses HttpConn ''tcp'' ha of
        Some err \<Rightarrow> (Some err, [Open DhcpConn newDHCP da, Open TftpConn ''udp'' ta, Open PxeConn ''udp4'' pa,
          Close DhcpConn, Close TftpConn, Close PxeConn])
      | None \<Rightarrow> (None, [Open DhcpConn newDHCP da, Open TftpConn ''udp'' ta, Open PxeConn ''udp4'' pa, Open HttpConn ''tcp'' ha])))))"

fun perform :: "action \<Rightarrow> listener set \<Rightarrow> listener set" where
  "perform (Open l _ _) opened = insert l opened"
| "perform (Close l) opened = opened - {l}"

section \<open>Services, the channel and the goroutine that waits\<close>

text \<open>A service runs, or has ended and is sending what it returned, or is gone.\<close>

datatype goroutine = Serving | Reporting "string option" | Gone

text \<open>\<^verbatim>\<open>Serve\<close> waits for the first report, then closes the listeners one by one, then returns the report.\<close>

datatype 'l main_pc = Waiting | Closing "'l list" "string option" | Returned "string option"

record 'l lifecycle =
  Errs :: "string option list"
  Goroutine :: "'l \<Rightarrow> goroutine"
  Opened :: "'l set"
  Main :: "'l main_pc"
  Shutdowns :: nat

definition buffer_slots :: nat where "buffer_slots = 6"

definition started :: "'l list \<Rightarrow> 'l lifecycle" where
  "started services = \<lparr>Errs = [], Goroutine = (\<lambda>_. Serving), Opened = set services, Main = Waiting, Shutdowns = 0\<rparr>"

text \<open>Shutdown sends nil if there is a free slot and otherwise does nothing.\<close>

definition shutdown :: "'l lifecycle \<Rightarrow> 'l lifecycle" where
  "shutdown st =
     st\<lparr>Errs := (if length (Errs st) < buffer_slots then Errs st @ [None] else Errs st), Shutdowns := Shutdowns st + 1\<rparr>"

text \<open>The steps \<^verbatim>\<open>Serve\<close> takes itself once its services run.\<close>

inductive serve_step :: "'l list \<Rightarrow> 'l lifecycle \<Rightarrow> 'l lifecycle \<Rightarrow> bool" for services where
  receives: "Main st = Waiting \<Longrightarrow> Errs st = e # es \<Longrightarrow>
     serve_step services st (st\<lparr>Errs := es, Main := Closing services e\<rparr>)"
| closes: "Main st = Closing (l # ls) e \<Longrightarrow> serve_step services st (st\<lparr>Opened := Opened st - {l}, Main := Closing ls e\<rparr>)"
| returns: "Main st = Closing [] e \<Longrightarrow> serve_step services st (st\<lparr>Main := Returned e\<rparr>)"

text \<open>
  The steps of a service. It returns only with an error, and there are two ways to one: a system call on its open socket fails,
  which is up to the system, or its listener has been closed, which makes its read return.
\<close>

inductive service_step :: "'l list \<Rightarrow> 'l lifecycle \<Rightarrow> 'l lifecycle \<Rightarrow> bool" for services where
  fails: "l \<in> set services \<Longrightarrow> Goroutine st l = Serving \<Longrightarrow> l \<in> Opened st \<Longrightarrow>
     service_step services st (st\<lparr>Goroutine := (Goroutine st)(l := Reporting (Some err))\<rparr>)"
| unblocked: "l \<in> set services \<Longrightarrow> Goroutine st l = Serving \<Longrightarrow> l \<notin> Opened st \<Longrightarrow>
     service_step services st (st\<lparr>Goroutine := (Goroutine st)(l := Reporting (Some err))\<rparr>)"
| reports: "l \<in> set services \<Longrightarrow> Goroutine st l = Reporting e \<Longrightarrow> length (Errs st) < buffer_slots \<Longrightarrow>
     service_step services st (st\<lparr>Errs := Errs st @ [e], Goroutine := (Goroutine st)(l := Gone)\<rparr>)"

inductive step :: "'l list \<Rightarrow> 'l lifecycle \<Rightarrow> 'l lifecycle \<Rightarrow> bool" for services where
  serves: "serve_step services st st' \<Longrightarrow> step services st st'"
| service_moves: "service_step services st st' \<Longrightarrow> step services st st'"
| shuts_down: "step services st (shutdown st)"

lemma step_elim [consumes 1, case_names ends reports receives closes returns shuts_down]:
  assumes "step services st st'"
  obtains l err where "l \<in> set services" "Goroutine st l = Serving" "st' = st\<lparr>Goroutine := (Goroutine st)(l := Reporting (Some err))\<rparr>"
  | l e where "l \<in> set services" "Goroutine st l = Reporting e" "length (Errs st) < buffer_slots"
      "st' = st\<lparr>Errs := Errs st @ [e], Goroutine := (Goroutine st)(l := Gone)\<rparr>"
  | e es where "Main st = Waiting" "Errs st = e # es" "st' = st\<lparr>Errs := es, Main := Closing services e\<rparr>"
  | l ls e where "Main st = Closing (l # ls) e" "st' = st\<lparr>Opened := Opened st - {l}, Main := Closing ls e\<rparr>"
  | e where "Main st = Closing [] e" "st' = st\<lparr>Main := Returned e\<rparr>"
  | "st' = shutdown st"
  using assms by (elim step.cases serve_step.cases service_step.cases) blast+

inductive reachable :: "'l list \<Rightarrow> 'l lifecycle \<Rightarrow> bool" for services where
  start: "reachable services (started services)"
| onward: "reachable services st \<Longrightarrow> step services st st' \<Longrightarrow> reachable services st'"

inductive runs :: "'l list \<Rightarrow> 'l lifecycle \<Rightarrow> 'l lifecycle \<Rightarrow> bool" for services where
  stay: "runs services st st"
| more: "runs services st st' \<Longrightarrow> step services st' st'' \<Longrightarrow> runs services st st''"

section \<open>Facts about any set of services\<close>

definition unfinished :: "'l list \<Rightarrow> 'l lifecycle \<Rightarrow> nat" where
  "unfinished services st = length (filter (\<lambda>l. Goroutine st l \<noteq> Gone) services)"

text \<open>What the goroutines keep between them: which listeners are open, and that every report has a source.\<close>

definition consistent :: "'l list \<Rightarrow> 'l lifecycle \<Rightarrow> bool" where
  "consistent services st \<longleftrightarrow>
     (case Main st of
        Waiting \<Rightarrow> Opened st = set services
      | Closing ls e \<Rightarrow> Opened st = set ls \<and> distinct ls
      | Returned e \<Rightarrow> Opened st = {}) \<and>
     length (Errs st) + unfinished services st + (if Main st = Waiting then 0 else 1) \<le> length services + Shutdowns st"

lemma filter_shrinks: "\<forall>x \<in> set xs. P x \<longrightarrow> Q x \<Longrightarrow> length (filter P xs) \<le> length (filter Q xs)"
  by (induction xs) auto

lemma filter_drops: "l \<in> set xs \<Longrightarrow> Q l \<Longrightarrow> \<not> P l \<Longrightarrow> \<forall>x \<in> set xs. P x \<longrightarrow> Q x \<Longrightarrow> length (filter P xs) < length (filter Q xs)"
proof (induction xs)
  case (Cons x xs)
  then show ?case using filter_shrinks [of xs P Q] by (cases "l = x") (auto simp: less_Suc_eq_le)
qed simp

lemma unfinished_gone:
  "l \<in> set services \<Longrightarrow> Goroutine st l \<noteq> Gone \<Longrightarrow>
     unfinished services (st\<lparr>Errs := es, Goroutine := (Goroutine st)(l := Gone)\<rparr>) < unfinished services st"
  unfolding unfinished_def by (rule filter_drops [of l]) auto

lemma unfinished_reporting: "unfinished services (st\<lparr>Goroutine := (Goroutine st)(l := Reporting e)\<rparr>) \<le> unfinished services st"
  if "Goroutine st l \<noteq> Gone"
  unfolding unfinished_def by (rule filter_shrinks) (use that in auto)

lemma unfinished_same: "Goroutine st' = Goroutine st \<Longrightarrow> unfinished services st' = unfinished services st"
  by (simp add: unfinished_def)

lemma one_unfinished: "l \<in> set services \<Longrightarrow> Goroutine st l \<noteq> Gone \<Longrightarrow> 0 < unfinished services st"
  by (auto simp: unfinished_def filter_empty_conv)

lemma reachable_runs: "runs services st st' \<Longrightarrow> reachable services st \<Longrightarrow> reachable services st'"
  by (induction rule: runs.induct) (blast intro: reachable.intros)+

lemma runs_head: "runs services st' st'' \<Longrightarrow> step services st st' \<Longrightarrow> runs services st st''"
  by (induction rule: runs.induct) (blast intro: runs.intros)+

text \<open>Closing takes no help from anyone: it ends with every listener closed.\<close>

lemma closing_returns:
  "Main st = Closing ls e \<Longrightarrow> runs services st (st\<lparr>Opened := Opened st - set ls, Main := Returned e\<rparr>)"
proof (induction ls arbitrary: st)
  case Nil
  then have "step services st (st\<lparr>Main := Returned e\<rparr>)" by (blast intro: step.serves serve_step.returns)
  then show ?case by (auto intro: runs_head runs.stay)
next
  case (Cons l ls)
  let ?st = "st\<lparr>Opened := Opened st - {l}, Main := Closing ls e\<rparr>"
  have "step services st ?st" using Cons.prems by (blast intro: step.serves serve_step.closes)
  moreover have "Opened st - {l} - set ls = Opened st - set (l # ls)" by auto
  moreover have "runs services ?st (?st\<lparr>Opened := Opened ?st - set ls, Main := Returned e\<rparr>)"
    by (rule Cons.IH) simp
  ultimately show ?case by (auto intro: runs_head)
qed

lemma reported_returns:
  assumes "Main st = Waiting" and "Errs st = e # es"
  shows "runs services st (st\<lparr>Errs := es, Opened := Opened st - set services, Main := Returned e\<rparr>)"
proof -
  let ?st = "st\<lparr>Errs := es, Main := Closing services e\<rparr>"
  have "step services st ?st" using assms by (blast intro: step.serves serve_step.receives)
  moreover have "runs services ?st (?st\<lparr>Opened := Opened ?st - set services, Main := Returned e\<rparr>)"
    by (rule closing_returns) simp
  ultimately show ?thesis by (auto intro: runs_head)
qed

text \<open>Once \<^verbatim>\<open>Serve\<close> has returned nobody receives any more: a full channel stays full.\<close>

lemma full_stays:
  "runs services st st' \<Longrightarrow> Main st = Returned r \<Longrightarrow> length (Errs st) = buffer_slots \<Longrightarrow>
     Main st' = Returned r \<and> Errs st' = Errs st \<and> (\<forall>l e. Goroutine st l = Reporting e \<longrightarrow> Goroutine st' l = Reporting e)"
proof (induction rule: runs.induct)
  case (more st st' st'')
  then have *: "Main st' = Returned r" "Errs st' = Errs st" "\<forall>l e. Goroutine st l = Reporting e \<longrightarrow> Goroutine st' l = Reporting e"
    by blast+
  from more.hyps(2) show ?case
    by (cases rule: step_elim) (use * more.prems in \<open>auto simp: shutdown_def\<close>)
qed simp

lemma closing_within: "reachable services st \<Longrightarrow> Main st = Closing ls e \<Longrightarrow> length ls \<le> length services"
proof (induction arbitrary: ls e rule: reachable.induct)
  case (onward st st')
  from onward.hyps(2) show ?case
  proof (cases rule: step_elim)
    case (closes l ls' e')
    with onward.IH [of "l # ls'" e'] onward.prems show ?thesis by simp
  qed (use onward in \<open>auto simp: shutdown_def\<close>)
qed (simp add: started_def)

locale supervision =
  fixes services :: "'l list"
  assumes distinct_services: "distinct services"
begin

lemma started_consistent: "consistent services (started services)"
  by (simp add: consistent_def started_def unfinished_def)

lemma step_consistent:
  assumes "step services st st'" and "consistent services st"
  shows "consistent services st'"
  using assms(1)
proof (cases rule: step_elim)
  case (ends l err)
  then show ?thesis
    using assms(2) unfinished_reporting [of st l services "Some err"] by (auto simp: consistent_def split: main_pc.splits)
next
  case (reports l e)
  then show ?thesis
    using assms(2) unfinished_gone [of l services st "Errs st @ [e]"] by (auto simp: consistent_def split: main_pc.splits)
next
  case (receives e es)
  then show ?thesis
    using assms(2) distinct_services unfinished_same [of st' st] by (auto simp: consistent_def)
next
  case (closes l ls e)
  then show ?thesis using assms(2) unfinished_same [of st' st] by (auto simp: consistent_def)
next
  case (returns e)
  then show ?thesis using assms(2) unfinished_same [of st' st] by (auto simp: consistent_def)
next
  case shuts_down
  then show ?thesis
    using assms(2) unfinished_same [of "shutdown st" st services] by (auto simp: consistent_def shutdown_def split: main_pc.splits)
qed

lemma reachable_consistent: "reachable services st \<Longrightarrow> consistent services st"
  by (induction rule: reachable.induct) (blast intro: started_consistent step_consistent)+

text \<open>With few enough calls of Shutdown there is always a slot for a report.\<close>

lemma slot_free:
  assumes "reachable services st" and "l \<in> set services" and "Goroutine st l \<noteq> Gone"
    and "length services + Shutdowns st \<le> buffer_slots"
  shows "length (Errs st) < buffer_slots"
  using reachable_consistent [OF assms(1)] one_unfinished [OF assms(2,3)] assms(4) by (auto simp: consistent_def)

text \<open>The first report decides what is returned.\<close>

lemma decided:
  assumes "runs services st st'" and "Main st = Waiting" and "Errs st = e # es"
  shows "case Main st' of Waiting \<Rightarrow> Errs st' \<noteq> [] \<and> hd (Errs st') = e | Closing ls e' \<Rightarrow> e' = e | Returned e' \<Rightarrow> e' = e"
  using assms
proof (induction rule: runs.induct)
  case (more st st' st'')
  then have *: "case Main st' of Waiting \<Rightarrow> Errs st' \<noteq> [] \<and> hd (Errs st') = e | Closing ls e' \<Rightarrow> e' = e | Returned e' \<Rightarrow> e' = e"
    by blast
  from more.hyps(2) show ?case
    by (cases rule: step_elim) (use * in \<open>auto simp: shutdown_def split: main_pc.splits\<close>)
qed simp

text \<open>From the first report on Serve waits for nobody.\<close>

lemma never_blocked:
  assumes "case Main st of Waiting \<Rightarrow> Errs st \<noteq> [] | _ \<Rightarrow> True" and "\<forall>r. Main st \<noteq> Returned r"
  shows "\<exists>st'. serve_step services st st'"
proof (cases "Main st")
  case Waiting
  with assms(1) obtain e es where "Errs st = e # es" by (cases "Errs st") auto
  with Waiting show ?thesis by (blast intro: serve_step.receives)
next
  case (Closing ls e)
  then show ?thesis by (cases ls) (blast intro: serve_step.closes serve_step.returns)+
qed (use assms(2) in simp)

lemma all_gone:
  assumes "reachable services st" and "length services + Shutdowns st \<le> buffer_slots" and "Opened st = {}"
    and "\<nexists>st'. service_step services st st'" and "l \<in> set services"
  shows "Goroutine st l = Gone"
proof (rule ccontr)
  assume running: "Goroutine st l \<noteq> Gone"
  show False
  proof (cases "Goroutine st l")
    case (Reporting e)
    then show False
      using assms(4) service_step.reports [OF assms(5) Reporting slot_free [OF assms(1,5) running assms(2)]] by blast
  qed (use running assms(3-5) in \<open>auto dest: service_step.unblocked\<close>)
qed

end

text \<open>The services of the two servers.\<close>

abbreviation (input) boot_services :: "listener list" where "boot_services \<equiv> [DhcpConn, TftpConn, PxeConn, HttpConn]"
abbreviation (input) v6_services :: "unit list" where "v6_services \<equiv> [()]"

interpretation server: supervision boot_services
  by unfold_locales simp

interpretation server_v6: supervision v6_services
  by unfold_locales simp

lemma all_listeners: "set boot_services = UNIV"
proof -
  have "l \<in> set boot_services" for l :: listener by (cases l) simp_all
  then show ?thesis by blast
qed

section \<open>Properties\<close>

text \<open>
  C25. Serve starts with all its listeners or with none: when one cannot be opened, those opened before it are closed again.
\<close>

theorem listeners_all_or_none:
  "fold perform (snd (open_listeners noBind refuses s)) {} =
     (if fst (open_listeners noBind refuses s) = None then set [DhcpConn, TftpConn, PxeConn, HttpConn] else {})"
  by (auto simp: open_listeners_def Let_def split: option.splits)

text \<open>The steps Serve has left to take.\<close>

definition steps_left :: "'l list \<Rightarrow> 'l lifecycle \<Rightarrow> nat" where
  "steps_left services st =
     (case Main st of Waiting \<Rightarrow> length services + 2 | Closing ls e \<Rightarrow> length ls + 1 | Returned e \<Rightarrow> 0)"

lemma steps_left_decreases: "serve_step services st st' \<Longrightarrow> steps_left services st' < steps_left services st"
  by (cases rule: serve_step.cases) (auto simp: steps_left_def)

lemma steps_left_stays: "service_step services st st' \<or> st' = shutdown st \<Longrightarrow> steps_left services st' = steps_left services st"
  by (auto simp: steps_left_def shutdown_def elim!: service_step.cases)

text \<open>
  C20. Shutdown ends a server that runs. However its goroutines are interleaved from then on, Serve waits for nobody: as long as
  it has not returned it can take a step of its own, it has at most six such steps to take, each brings it closer to the end, and
  no step of a service and no further Shutdown puts it back. When it has returned, all listeners are closed, and the result
  is the report that was first in the channel, nil from Shutdown if there was none before. The services follow: with at most two
  calls of Shutdown, a state after the return of Serve in which no service can move is one in which all of them are gone.
\<close>

theorem shutdown_ends_serve:
  assumes "reachable [DhcpConn, TftpConn, PxeConn, HttpConn] st" and "Main st = Waiting"
    and "runs [DhcpConn, TftpConn, PxeConn, HttpConn] (shutdown st) st'"
  shows "((\<forall>r. Main st' \<noteq> Returned r) \<longrightarrow> (\<exists>st''. serve_step [DhcpConn, TftpConn, PxeConn, HttpConn] st' st'')) \<and>
    steps_left [DhcpConn, TftpConn, PxeConn, HttpConn] st' \<le> 6 \<and>
    (\<forall>st''. serve_step [DhcpConn, TftpConn, PxeConn, HttpConn] st' st'' \<longrightarrow>
       steps_left [DhcpConn, TftpConn, PxeConn, HttpConn] st'' < steps_left [DhcpConn, TftpConn, PxeConn, HttpConn] st') \<and>
    (\<forall>st''. service_step [DhcpConn, TftpConn, PxeConn, HttpConn] st' st'' \<or> st'' = shutdown st' \<longrightarrow>
       steps_left [DhcpConn, TftpConn, PxeConn, HttpConn] st'' = steps_left [DhcpConn, TftpConn, PxeConn, HttpConn] st') \<and>
    (\<forall>r. Main st' = Returned r \<longrightarrow> r = hd (Errs st @ [None]) \<and> Opened st' = {} \<and>
       (Shutdowns st' \<le> 2 \<and> (\<nexists>st''. service_step [DhcpConn, TftpConn, PxeConn, HttpConn] st' st'') \<longrightarrow>
          (\<forall>l. Goroutine st' l = Gone)))"
proof -
  have waiting: "Main (shutdown st) = Waiting" using assms(2) by (simp add: shutdown_def)
  have "Errs (shutdown st) \<noteq> []" "hd (Errs (shutdown st)) = hd (Errs st @ [None])"
    by (auto simp: shutdown_def buffer_slots_def hd_append)
  then obtain es where errs: "Errs (shutdown st) = hd (Errs st @ [None]) # es"
    by (metis list.collapse)
  have r: "reachable boot_services st'"
    using reachable_runs [OF assms(3) reachable.onward [OF assms(1) step.shuts_down]] .
  note decided = server.decided [OF assms(3) waiting errs]
  have "(\<forall>r. Main st' \<noteq> Returned r) \<longrightarrow> (\<exists>st''. serve_step boot_services st' st'')"
    using decided by (intro impI server.never_blocked) (simp_all split: main_pc.splits)
  moreover have consistent: "consistent boot_services st'" using r by (rule server.reachable_consistent)
  have "steps_left boot_services st' \<le> 6"
    using closing_within [OF r] by (auto simp: steps_left_def split: main_pc.splits)
  moreover have "Goroutine st' l = Gone" if "Main st' = Returned r" "Shutdowns st' \<le> 2" "\<nexists>st''. service_step boot_services st' st''" for l r
    using server.all_gone [OF r _ _ that(3)] that(1,2) consistent all_listeners
    by (auto simp: consistent_def buffer_slots_def)
  moreover have "r = hd (Errs st @ [None]) \<and> Opened st' = {}" if "Main st' = Returned r" for r
    using decided consistent that by (simp add: consistent_def)
  ultimately show ?thesis
    using steps_left_decreases [of boot_services st'] steps_left_stays [of boot_services st'] by blast
qed

theorem shutdown_ends_serve_witness:
  "\<exists>st'. runs [DhcpConn, TftpConn, PxeConn, HttpConn] (shutdown (started [DhcpConn, TftpConn, PxeConn, HttpConn])) st' \<and>
     Main st' = Returned None \<and> Opened st' = {} \<and>
     (\<exists>st''. serve_step [DhcpConn, TftpConn, PxeConn, HttpConn] (shutdown (started [DhcpConn, TftpConn, PxeConn, HttpConn])) st'')"
proof -
  let ?st = "shutdown (started boot_services)"
  have waiting: "Main (started boot_services) = Waiting" "Main ?st = Waiting" "Errs ?st = [None]"
    by (simp_all add: started_def shutdown_def buffer_slots_def)
  obtain st' where run: "runs boot_services ?st st'" "Main st' = Returned None"
    using reported_returns [OF waiting(2,3), of boot_services] by fastforce
  from shutdown_ends_serve [OF reachable.start waiting(1) run(1), THEN conjunct2, THEN conjunct2, THEN conjunct2, THEN conjunct2] run(2)
  have "Opened st' = {}" by simp
  moreover from shutdown_ends_serve [OF reachable.start waiting(1) runs.stay, THEN conjunct1] waiting(2)
  have "\<exists>st''. serve_step boot_services ?st st''" by simp
  ultimately show ?thesis using run by blast
qed

text \<open>
  C21. With at most two calls of Shutdown no service ever waits to report, whatever the order of steps, before and after Serve
  has returned: the channel has a free slot for every one of them.
\<close>

theorem reports_never_wait:
  assumes "reachable [DhcpConn, TftpConn, PxeConn, HttpConn] st" and "Shutdowns st \<le> 2" and "Goroutine st l = Reporting e"
  shows "\<exists>st'. step [DhcpConn, TftpConn, PxeConn, HttpConn] st st' \<and> Goroutine st' l = Gone \<and> Errs st' = Errs st @ [e]"
proof -
  have l: "l \<in> set boot_services" using all_listeners by blast
  have "length (Errs st) < buffer_slots"
    using server.slot_free [OF assms(1) l] assms(2,3) by (simp add: buffer_slots_def)
  from step.service_moves [OF service_step.reports [of l boot_services st e, OF l assms(3) this]] show ?thesis by fastforce
qed

lemma reachable_ended:
  assumes "reachable services st" and "l \<in> set services" and "Goroutine st l = Serving"
  shows "reachable services (st\<lparr>Goroutine := (Goroutine st)(l := Reporting (Some err))\<rparr>)"
proof -
  have "service_step services st (st\<lparr>Goroutine := (Goroutine st)(l := Reporting (Some err))\<rparr>)"
    using service_step.fails [OF assms(2,3)] service_step.unblocked [OF assms(2,3)] by (cases "l \<in> Opened st") auto
  then show ?thesis by (rule reachable.onward [OF assms(1) step.service_moves])
qed

lemma reachable_reported:
  assumes "reachable services st" and "l \<in> set services" and "Goroutine st l = Serving" and "length (Errs st) < buffer_slots"
  shows "reachable services (st\<lparr>Errs := Errs st @ [Some err], Goroutine := (Goroutine st)(l := Gone)\<rparr>)"
proof -
  let ?st = "st\<lparr>Goroutine := (Goroutine st)(l := Reporting (Some err))\<rparr>"
  have "step services ?st (?st\<lparr>Errs := Errs ?st @ [Some err], Goroutine := (Goroutine ?st)(l := Gone)\<rparr>)"
    using assms by (intro step.service_moves service_step.reports) auto
  from reachable.onward [OF reachable_ended [OF assms(1-3)] this] show ?thesis by simp
qed

theorem reports_never_wait_witness:
  "\<exists>st st'. step [DhcpConn, TftpConn, PxeConn, HttpConn] st st' \<and> Goroutine st TftpConn = Reporting (Some ''broken'') \<and>
     Errs st' = [Some ''broken'']"
proof -
  let ?st = "(started boot_services)\<lparr>Goroutine := (Goroutine (started boot_services))(TftpConn := Reporting (Some ''broken''))\<rparr>"
  have "reachable boot_services ?st"
    by (rule reachable_ended [OF reachable.start]) (simp_all add: started_def)
  from reports_never_wait [OF this, of TftpConn "Some ''broken''"] obtain st' where
    "step boot_services ?st st'" "Errs st' = Errs ?st @ [Some ''broken'']" by (auto simp: started_def)
  then show ?thesis by (intro exI [of _ ?st] exI [of _ st']) (simp add: started_def)
qed

text \<open>
  Four calls are too many: Serve takes one report and returns, and the last service to end finds the channel full for
  ever. Its goroutine is never gone.
\<close>

theorem shutdowns_strand_service:
  "\<exists>st. reachable [DhcpConn, TftpConn, PxeConn, HttpConn] st \<and> Shutdowns st = 4 \<and> Main st = Returned None \<and> Opened st = {} \<and>
     (\<forall>st'. runs [DhcpConn, TftpConn, PxeConn, HttpConn] st st' \<longrightarrow> Goroutine st' HttpConn = Reporting (Some ''closed''))"
proof -
  define st0 where "st0 = (shutdown ^^ 4) (started boot_services)"
  have st0: "st0 = (started boot_services)\<lparr>Errs := [None, None, None, None], Shutdowns := 4\<rparr>"
    by (simp add: st0_def shutdown_def started_def buffer_slots_def numeral_eq_Suc)
  have "reachable boot_services ((shutdown ^^ n) (started boot_services))" for n
    by (induction n) (auto intro: reachable.intros step.shuts_down)
  then have "reachable boot_services st0" by (simp add: st0_def)
  then have "reachable boot_services (st0\<lparr>Errs := [None, None, None], Opened := Opened st0 - set boot_services, Main := Returned None\<rparr>)"
    by (rule reachable_runs [OF reported_returns, rotated -1]) (simp_all add: st0 started_def)
  then have st1: "reachable boot_services \<lparr>Errs = [None, None, None], Goroutine = (\<lambda>_. Serving), Opened = {}, Main = Returned None, Shutdowns = 4\<rparr>"
    by (simp add: st0 started_def)
  have st2: "reachable boot_services \<lparr>Errs = [None, None, None, Some ''closed''], Goroutine = (\<lambda>_. Serving)(DhcpConn := Gone), Opened = {},
      Main = Returned None, Shutdowns = 4\<rparr>"
    using reachable_reported [OF st1, of DhcpConn "''closed''"] by (simp add: buffer_slots_def)
  have st3: "reachable boot_services \<lparr>Errs = [None, None, None, Some ''closed'', Some ''closed''], Goroutine = (\<lambda>_. Serving)(DhcpConn := Gone, TftpConn := Gone),
      Opened = {}, Main = Returned None, Shutdowns = 4\<rparr>"
    using reachable_reported [OF st2, of TftpConn "''closed''"] by (simp add: buffer_slots_def)
  have st4: "reachable boot_services \<lparr>Errs = [None, None, None, Some ''closed'', Some ''closed'', Some ''closed''],
      Goroutine = (\<lambda>_. Serving)(DhcpConn := Gone, TftpConn := Gone, PxeConn := Gone), Opened = {}, Main = Returned None, Shutdowns = 4\<rparr>"
    using reachable_reported [OF st3, of PxeConn "''closed''"] by (simp add: buffer_slots_def)
  let ?st = "\<lparr>Errs = [None, None, None, Some ''closed'', Some ''closed'', Some ''closed''], Goroutine = (\<lambda>_. Serving)(DhcpConn := Gone, TftpConn := Gone, PxeConn := Gone,
      HttpConn := Reporting (Some ''closed'')), Opened = {}, Main = Returned None, Shutdowns = 4\<rparr>"
  have "reachable boot_services ?st"
    using reachable_ended [OF st4, of HttpConn "''closed''"] by simp
  moreover have "Goroutine st' HttpConn = Reporting (Some ''closed'')" if "runs boot_services ?st st'" for st'
    using full_stays [OF that] by (simp add: buffer_slots_def)
  ultimately show ?thesis by (intro exI [of _ ?st]) simp
qed

end
