(* ===== verification/Server_V6.thy ===== *)
theory Server_V6
  imports Sockets Server_Lifecycle Dhcp6_Server
begin

text \<open>
  Starting the DHCPv6 server (\<^verbatim>\<open>ServerV6.Serve\<close> in \<^verbatim>\<open>server/server.go\<close>): the socket on the
  interface with the configured address, the identifier made from that interface, and one service beside
  \<^verbatim>\<open>Serve\<close>.
\<close>

record v6_settings =
  v6Address :: string
  v6Port :: int

abbreviation (input) PortDHCPv6 :: int where "PortDHCPv6 \<equiv> 547"

definition new_server_v6 :: v6_settings where
  "new_server_v6 = \<lparr>v6Address = [], v6Port = PortDHCPv6\<rparr>"

text \<open>\<open>seconds\<close> is the time since the year 2000. A started server has its identifier and its goroutines.\<close>

abbreviation (input) source_hardware_address :: "interface6 \<Rightarrow> bytes" where
  "source_hardware_address ifi \<equiv> ifHardware6 ifi"

definition start_v6 ::
    "(slice \<Rightarrow> string) \<Rightarrow> string + interface6 list \<Rightarrow> system \<Rightarrow> nat \<Rightarrow> v6_settings \<Rightarrow>
     (string + interface6 \<times> bytes \<times> unit lifecycle) \<times> request list" where
  "start_v6 render interfaces sys seconds s =
     (case new_conn6 render interfaces sys (v6Address s) (v6Port s) of
        (Inl e, rs) \<Rightarrow> (Inl e, rs)
      | (Inr ifi, rs) \<Rightarrow> (Inr (ifi, set_duid seconds (source_hardware_address ifi), started v6_services), rs))"

text \<open>Sending to the client port; \<open>write dst port p\<close> is the error of the socket.\<close>

definition send_dhcp6 :: "(slice \<Rightarrow> string) \<Rightarrow> (slice \<Rightarrow> int \<Rightarrow> bytes \<Rightarrow> string option) \<Rightarrow> slice \<Rightarrow> bytes \<Rightarrow> string option" where
  "send_dhcp6 render write dst p =
     (case write dst 546 p of
        Some err \<Rightarrow> Some (''Error sending a reply to '' @ render dst @ '': '' @ err)
      | None \<Rightarrow> None)"

section \<open>Facts\<close>

lemma interface_found:
  "interface_by_address render a ifis = Inr ifi \<Longrightarrow>
     ifi \<in> set ifis \<and> (\<exists>addrs. ifAddrs6 ifi = Inr addrs \<and> (\<exists>x \<in> set addrs. render (addr_to_ip x) = a))"
  by (induction ifis) (auto split: sum.splits if_splits)

lemma duid_address: "extract_ll_address_or_id (exact (set_duid seconds addr)) = Some addr"
proof -
  obtain a b c d where t: "put32 (word_of_nat seconds) = [a, b, c, d]"
    by (simp add: put32_def)
  have "be16 0 1 = 1" by (simp add: be16_def)
  then show ?thesis
    by (simp add: set_duid_eq t extract_ll_address_or_id_def exact_def reslice_visible reslice_from_eq)
qed

lemma conn6_outcome:
  "case new_conn6 render interfaces sys addr port of
     (Inl e, rs) \<Rightarrow> \<not> socket_open rs False
   | (Inr ifi, rs) \<Rightarrow> socket_open rs False \<and> JoinGroup (ifIndex6 ifi) all_relay_agents_and_servers \<in> set rs \<and>
       (\<exists>addrs a. ifAddrs6 ifi = Inr addrs \<and> a \<in> set addrs \<and> render (addr_to_ip a) = addr)"
  by (auto simp: new_conn6_def Let_def split: sum.splits option.splits dest!: interface_found)

text \<open>An interface for the witness.\<close>

definition sample_ifi :: interface6 where
  "sample_ifi = \<lparr>ifIndex6 = 2, ifHardware6 = [2, 0, 0, 0, 0, 9], ifAddrs6 = Inr [AddrOther, AddrNet (Some [1])]\<rparr>"

section \<open>Properties\<close>

text \<open>
  A DHCPv6 server that starts listens on an interface that has the configured address, has joined the multicast group
  there, and has an identifier from which the interface's hardware address reads back; a server that does not start
  leaves no socket open.
\<close>

theorem v6_server_starts:
  "case start_v6 render interfaces sys seconds s of
     (Inl e, rs) \<Rightarrow> \<not> socket_open rs False
   | (Inr (ifi, duid, st), rs) \<Rightarrow>
       socket_open rs False \<and> JoinGroup (ifIndex6 ifi) dhcp6_group \<in> set rs \<and>
       (\<exists>addrs a. ifAddrs6 ifi = Inr addrs \<and> a \<in> set addrs \<and> render (addr_to_ip a) = v6Address s) \<and>
       extract_ll_address_or_id (exact duid) = Some (ifHardware6 ifi) \<and> reachable [()] st"
proof -
  have "dhcp6_group = all_relay_agents_and_servers"
    by (simp add: dhcp6_group_def all_relay_agents_and_servers_def)
  with conn6_outcome [where render = render and interfaces = interfaces and sys = sys and addr = "v6Address s" and port = "v6Port s"] show ?thesis
    by (auto simp: start_v6_def duid_address reachable.start split: prod.splits sum.splits)
qed

theorem v6_server_starts_witness:
  "\<exists>duid st rs. start_v6 (\<lambda>ip. if ip = Some [1] then ''::1'' else ''<nil>'') (Inr [sample_ifi]) (\<lambda>_. None) 7 (new_server_v6\<lparr>v6Address := ''::1''\<rparr>) =
       (Inr (sample_ifi, duid, st), rs) \<and> extract_ll_address_or_id (exact duid) = Some [2, 0, 0, 0, 0, 9]"
proof -
  let ?start = "start_v6 (\<lambda>ip. if ip = Some [1] then ''::1'' else ''<nil>'') (Inr [sample_ifi]) (\<lambda>_. None) 7 (new_server_v6\<lparr>v6Address := ''::1''\<rparr>)"
  obtain duid st rs where start: "?start = (Inr (sample_ifi, duid, st), rs)"
    by (simp add: start_v6_def new_conn6_def sample_ifi_def Let_def)
  with v6_server_starts [where render = "\<lambda>ip. if ip = Some [1] then ''::1'' else ''<nil>''" and interfaces = "Inr [sample_ifi]"
      and sys = "\<lambda>_. None" and seconds = 7 and s = "new_server_v6\<lparr>v6Address := ''::1''\<rparr>"]
  have "extract_ll_address_or_id (exact duid) = Some (ifHardware6 sample_ifi)" by simp
  with start show ?thesis by (simp add: sample_ifi_def)
qed

end
