(* ===== verification/Server_Log.thy ===== *)
theory Server_Log
  imports Server_Dhcp Url_Sign
begin

text \<open>
  What is written for people: names of message types and \<^verbatim>\<open>DebugString\<close>
  (\<^verbatim>\<open>dhcp4/packet.go\<close>), and the log functions of the servers (\<^verbatim>\<open>server/logging.go\<close>,
  \<^verbatim>\<open>server/server.go\<close>, \<^verbatim>\<open>tftp/tftp.go\<close>). A log function is given or nil; what it is called with
  is a list of calls. \<open>render\<close> is \<^verbatim>\<open>net.IP.String\<close>.
\<close>

section \<open>Packets as text\<close>

definition message_type_string :: "message_type \<Rightarrow> string" where
  "message_type_string mt =
     (if mt = MsgDiscover then ''DHCPDISCOVER''
      else if mt = MsgOffer then ''DHCPOFFER''
      else if mt = MsgRequest then ''DHCPREQUEST''
      else if mt = MsgDecline then ''DHCPDECLINE''
      else if mt = MsgAck then ''DHCPACK''
      else if mt = MsgNack then ''DHCPNAK''
      else if mt = MsgRelease then ''DHCPRELEASE''
      else if mt = MsgInform then ''DHCPINFORM''
      else ''<unknown DHCP message type '' @ format_int mt @ ''>'')"

text \<open>Byte slices as Go source, \<^verbatim>\<open>%#v\<close>.\<close>

definition go_byte :: "byte \<Rightarrow> string" where
  "go_byte b = ''0x'' @ (if unat b < 16 then [hex_digit (unat b)] else hex_byte b)"

fun comma_separated :: "string list \<Rightarrow> string" where
  "comma_separated [] = []"
| "comma_separated [s] = s"
| "comma_separated (s # ss) = s @ '', '' @ comma_separated ss"

fun go_slice :: "slice \<Rightarrow> string" where
  "go_slice None = ''[]byte(nil)''"
| "go_slice (Some bs) = ''[]byte{'' @ comma_separated (map go_byte bs) @ ''}''"

abbreviation (input) nl :: string where "nl \<equiv> [CHR 0x0A]"

definition debug_string :: "(slice \<Rightarrow> string) \<Rightarrow> packet \<Rightarrow> string" where
  "debug_string render p =
     message_type_string (Type p) @ nl @ ''  '' @ go_slice (Some (TransactionID p)) @ nl @
     ''  '' @ (if Broadcast p then ''Broadcast'' else ''Unicast'') @ nl @
     ''  MAC: '' @ mac_string (HardwareAddr p) @ nl @ ''  ClientIP: '' @ render (ClientAddr p) @ nl @
     ''  YourIP: '' @ render (YourAddr p) @ nl @ ''  ServerIP: '' @ render (ServerAddr p) @ nl @
     ''  RelayIP: '' @ render (RelayAddr p) @ nl @ nl @
     ''  BootServerName: '' @ BootServerName p @ nl @ ''  BootFilename: '' @ BootFilename p @ nl @ nl @
     ''  Options:'' @ nl @
     concat (map (\<lambda>n. ''    '' @ format_nat (unat n) @ '': '' @ go_slice (opt_at (Options p) n) @ nl) (opt_keys (Options p)))"

section \<open>Logging\<close>

type_synonym 'call logger = "(string \<Rightarrow> string \<Rightarrow> 'call) option"

text \<open>Both \<^verbatim>\<open>log\<close> and \<^verbatim>\<open>debug\<close> of both servers: nothing without a function to call.\<close>

definition log_to :: "'call logger \<Rightarrow> string \<Rightarrow> string \<Rightarrow> 'call list" where
  "log_to f subsystem msg = (case f of None \<Rightarrow> [] | Some f \<Rightarrow> [f subsystem msg])"

text \<open>Standard base64 differs from the URL-safe alphabet in two characters.\<close>

definition standard_char :: "char \<Rightarrow> char" where
  "standard_char c = (if c = CHR ''-'' then CHR ''+'' else if c = CHR ''_'' then CHR ''/'' else c)"

definition debug_packet :: "'call logger \<Rightarrow> string \<Rightarrow> int \<Rightarrow> bytes \<Rightarrow> 'call list" where
  "debug_packet f subsystem layer pkt =
     (case f of
        None \<Rightarrow> []
      | Some f \<Rightarrow> [f subsystem (''PKT '' @ format_int layer @ '' '' @ map standard_char (b64_encode pkt) @ '' END'')])"

definition info_log :: "(string \<Rightarrow> 'call) option \<Rightarrow> string \<Rightarrow> 'call list" where
  "info_log f msg = (case f of None \<Rightarrow> [] | Some f \<Rightarrow> [f msg])"

definition transfer_log :: "('addr \<Rightarrow> string \<Rightarrow> string option \<Rightarrow> 'call) option \<Rightarrow> 'addr \<Rightarrow> string \<Rightarrow> string option \<Rightarrow> 'call list" where
  "transfer_log f addr path err = (case f of None \<Rightarrow> [] | Some f \<Rightarrow> [f addr path err])"

section \<open>Facts\<close>

definition url_char :: "char \<Rightarrow> char" where
  "url_char c = (if c = CHR ''+'' then CHR ''-'' else if c = CHR ''/'' then CHR ''_'' else c)"

lemma b64_char_in: "n < 64 \<Longrightarrow> b64_char n \<in> set b64_alphabet"
proof -
  have "length b64_alphabet = 64" by (simp add: b64_alphabet_def)
  then show "n < 64 \<Longrightarrow> b64_char n \<in> set b64_alphabet" by (simp add: b64_char_def)
qed

lemma b64_encode_chars: "set (b64_encode bs) \<subseteq> insert CHR ''='' (set b64_alphabet)"
proof (induction bs rule: b64_encode.induct)
  case (2 a)
  show ?case using triple_bound [of a 0 0] by (simp add: sextets_def sextet_bounds b64_char_in)
next
  case (3 a b)
  show ?case using triple_bound [of a b 0] by (simp add: sextets_def sextet_bounds b64_char_in)
next
  case (4 a b c bs)
  then show ?case using triple_bound [of a b c] by (simp add: sextets_def sextet_bounds b64_char_in)
qed simp

lemma standard_inverse: "c \<in> insert CHR ''='' (set b64_alphabet) \<Longrightarrow> url_char (standard_char c) = c"
  unfolding b64_alphabet_def by (auto simp: url_char_def standard_char_def)

section \<open>Properties\<close>

text \<open>A packet in the debug log can be recovered from it, byte by byte.\<close>

theorem logged_packet_recovered:
  "\<exists>t. debug_packet (Some f) subsystem layer pkt = [f subsystem (''PKT '' @ format_int layer @ '' '' @ t @ '' END'')] \<and>
     b64_decode (map url_char t) = Some pkt"
proof -
  have "map url_char (map standard_char (b64_encode pkt)) = b64_encode pkt"
    using b64_encode_chars [of pkt] standard_inverse by (simp add: map_idI subset_iff)
  then show ?thesis
    by (intro exI [of _ "map standard_char (b64_encode pkt)"]) (simp add: debug_packet_def b64_decode_encode del: map_map)
qed

end
