(* ===== verification/Machine_Progress.thy ===== *)
theory Machine_Progress
  imports Complex_Main Server_Events
begin

text \<open>
  The progress of a machine as a percentage (\<^verbatim>\<open>machineState.Progress\<close> of
  \<^verbatim>\<open>server/logging.go\<close>). Go computes it in single precision: the conversion, the division and the
  multiplication each round to 24 significant bits, and the format rounds the exact result to an integer, halves
  to even both times. The numbers stay far from overflow and underflow: the largest state is below \<open>2 ^ 63\<close>, the least
  quotient is \<open>1 / 7\<close>.
\<close>

section \<open>Single precision\<close>

function bit_count :: "int \<Rightarrow> int" where
  "bit_count n = (if n \<le> 0 then 0 else 1 + bit_count (n div 2))"
  by auto
termination by (relation "measure nat") auto

declare bit_count.simps [simp del]

definition round_even :: "rat \<Rightarrow> int" where
  "round_even q =
     (let n = \<lfloor>q\<rfloor>; d = q - of_int n
      in if d < 1 / 2 then n else if 1 / 2 < d then n + 1 else if even n then n else n + 1)"

text \<open>The exponent of a positive number: the power of two at or below it.\<close>

definition exponent_of :: "rat \<Rightarrow> int" where
  "exponent_of q = (if 1 \<le> q then bit_count \<lfloor>q\<rfloor> - 1 else - bit_count (\<lceil>1 / q\<rceil> - 1))"

definition power_of_two :: "int \<Rightarrow> rat" where
  "power_of_two e = (if 0 \<le> e then 2 ^ nat e else 1 / 2 ^ nat (- e))"

definition float32 :: "rat \<Rightarrow> rat" where
  "float32 q = (if q = 0 then 0 else let u = power_of_two (exponent_of \<bar>q\<bar> - 23) in of_int (round_even (q / u)) * u)"

section \<open>The percentage\<close>

definition progress :: "machine_state \<Rightarrow> string" where
  "progress m = format_int (round_even (float32 (float32 (float32 (of_int m) / float32 (of_int machineStateBooted)) * 100))) @ ''%''"

lemma round_even_near: "\<bar>of_int (round_even q) - q\<bar> \<le> 1 / 2"
proof -
  have "of_int \<lfloor>q\<rfloor> \<le> q" "q < of_int \<lfloor>q\<rfloor> + 1" by linarith+
  then show ?thesis by (auto simp: round_even_def Let_def abs_le_iff)
qed

lemma round_even_int: "round_even (of_int n) = n"
  by (simp add: round_even_def)

text \<open>
  The stages of a boot are shown in steps of a seventh, from nothing to all of it. A machine that was ignored is shown
  as further than booted: its state comes behind the last stage.
\<close>

theorem progress_of_states:
  "map progress [machineStateProxyDHCP, machineStatePXE, machineStateTFTP, machineStateProxyDHCPIpxe, machineStateIpxeScript,
     machineStateKernel, machineStateInitrd, machineStateBooted, machineStateIgnored] =
   [''0%'', ''14%'', ''29%'', ''43%'', ''57%'', ''71%'', ''86%'', ''100%'', ''114%'']"
  by code_simp

end
