(* ===== verification/Pcap.thy ===== *)
theory Pcap
  imports Netboot_Prelude
begin

text \<open>
  Packet captures (\<^verbatim>\<open>test/pcap/reader.go\<close> and \<^verbatim>\<open>test/pcap/writer.go\<close>), which the tests of both DHCP
  codecs read: the file header, whose byte order the reader guesses, and the records. A timestamp is the number of
  nanoseconds since 1970. An input is the bytes it holds with the error that ends it, if it does not end well.
\<close>

section \<open>Numbers in either byte order\<close>

datatype byte_order = LittleEndian | BigEndian

definition ordered :: "byte_order \<Rightarrow> bytes \<Rightarrow> bytes" where
  "ordered ord bs = (if ord = LittleEndian then rev bs else bs)"

definition put_u16 :: "byte_order \<Rightarrow> u16 \<Rightarrow> bytes" where "put_u16 ord w = ordered ord (put16 w)"
definition put_u32 :: "byte_order \<Rightarrow> u32 \<Rightarrow> bytes" where "put_u32 ord w = ordered ord (put32 w)"

definition get_u16 :: "byte_order \<Rightarrow> bytes \<Rightarrow> u16" where
  "get_u16 ord bs = (let b = ordered ord (take 2 bs) in be16 (b ! 0) (b ! 1))"

definition get_u32 :: "byte_order \<Rightarrow> bytes \<Rightarrow> u32" where
  "get_u32 ord bs = (let b = ordered ord (take 4 bs) in be32 (b ! 0) (b ! 1) (b ! 2) (b ! 3))"

section \<open>The reader\<close>

datatype io_error = EOF | UnexpectedEOF | ReadBroken string

type_synonym input = "bytes \<times> string option"

definition read_full :: "nat \<Rightarrow> input \<Rightarrow> io_error + bytes \<times> input" where
  "read_full n inp =
     (case inp of (bs, e) \<Rightarrow>
        if n \<le> length bs then Inr (take n bs, (drop n bs, e))
        else Inl (case e of Some msg \<Rightarrow> ReadBroken msg | None \<Rightarrow> if bs = [] then EOF else UnexpectedEOF))"

record cap_packet =
  capTimestamp :: int
  capLength :: int
  capBytes :: bytes

record reader =
  readerLink :: u32
  input_left :: input
  readerOrder :: byte_order
  tmult :: int
  readerPacket :: "cap_packet option"
  readerErr :: "io_error option"

datatype reader_error = HeaderRead io_error | BadMagic | UnknownVersion u16 u16

record file_header =
  hMagic :: u32
  hMajor :: u16
  hMinor :: u16
  hSnaplen :: u32
  hType :: u32

definition decode_header :: "byte_order \<Rightarrow> bytes \<Rightarrow> file_header" where
  "decode_header ord bs =
     \<lparr>hMagic = get_u32 ord bs, hMajor = get_u16 ord (drop 4 bs), hMinor = get_u16 ord (drop 6 bs),
      hSnaplen = get_u32 ord (drop 16 bs), hType = get_u32 ord (drop 20 bs)\<rparr>"

definition new_reader :: "input \<Rightarrow> reader_error + reader" where
  "new_reader r =
     (case read_full 24 r of
        Inl e \<Rightarrow> Inl (HeaderRead e)
      | Inr (bs, rest) \<Rightarrow>
          let h = decode_header LittleEndian bs;
              swapped = (hMajor h = 0x200 \<and> hMinor h = 0x400);
              ord = (if swapped then BigEndian else LittleEndian);
              h = (if swapped then decode_header BigEndian bs else h)
          in if hMagic h \<noteq> 0xA1B2C3D4 \<and> hMagic h \<noteq> 0xA1B23C4D then Inl BadMagic
             else if hMajor h \<noteq> 2 \<or> hMinor h \<noteq> 4 then Inl (UnknownVersion (hMajor h) (hMinor h))
             else Inr \<lparr>readerLink = hType h, input_left = rest, readerOrder = ord,
                 tmult = (if hMagic h = 0xA1B2C3D4 then 1000 else 1), readerPacket = None, readerErr = None\<rparr>)"

text \<open>A failed read has consumed what there was.\<close>

definition stop_reader :: "io_error \<Rightarrow> reader \<Rightarrow> bool \<times> reader" where
  "stop_reader e r = (False, r\<lparr>readerErr := Some e, input_left := ([], snd (input_left r))\<rparr>)"

definition next_packet :: "reader \<Rightarrow> bool \<times> reader" where
  "next_packet r =
     (case read_full 16 (input_left r) of
        Inl e \<Rightarrow> stop_reader e r
      | Inr (h, rest) \<Rightarrow>
          let sec = get_u32 (readerOrder r) h; subSec = get_u32 (readerOrder r) (drop 4 h); len = get_u32 (readerOrder r) (drop 8 h);
              origLen = get_u32 (readerOrder r) (drop 12 h)
          in (case read_full (unat len) rest of
                Inl e \<Rightarrow> stop_reader e r
              | Inr (bs, rest) \<Rightarrow>
                  (True, r\<lparr>input_left := rest,
                     readerPacket := Some \<lparr>capTimestamp = int (unat sec) * 1000000000 + tmult r * int (unat subSec),
                       capLength = int (unat origLen), capBytes = bs\<rparr>\<rparr>)))"

definition reader_err :: "reader \<Rightarrow> io_error option" where
  "reader_err r = (if readerErr r = Some EOF then None else readerErr r)"

lemma next_packet_shrinks: "next_packet r = (True, r') \<Longrightarrow> length (fst (input_left r')) < length (fst (input_left r))"
  by (auto simp: next_packet_def read_full_def stop_reader_def Let_def split: sum.splits prod.splits if_splits)

text \<open>The loop a reader is made for: packets until there is no next one. Every packet takes sixteen bytes and more.\<close>

function read_packets :: "reader \<Rightarrow> cap_packet list \<times> reader" where
  "read_packets r =
     (case next_packet r of
        (False, r') \<Rightarrow> ([], r')
      | (True, r') \<Rightarrow> (case read_packets r' of (ps, r'') \<Rightarrow> (the (readerPacket r') # ps, r'')))"
  by pat_completeness auto
termination
  by (relation "measure (\<lambda>r. length (fst (input_left r)))") (auto intro: next_packet_shrinks)

declare read_packets.simps [simp del]

section \<open>The writer\<close>

text \<open>\<open>write\<close> appends to a destination or fails; what it leaves is the new destination either way.\<close>

type_synonym 'w sink = "'w \<Rightarrow> bytes \<Rightarrow> string option \<times> 'w"

record 'w pcap_writer =
  writerDest :: 'w
  writerLink :: u32
  SnapLen :: u32
  ByteOrder :: "byte_order option"
  headerWritten :: bool

definition writer_order :: "'w pcap_writer \<Rightarrow> byte_order" where
  "writer_order w = (case ByteOrder w of Some ord \<Rightarrow> ord | None \<Rightarrow> LittleEndian)"

definition header_bytes :: "byte_order \<Rightarrow> u32 \<Rightarrow> u32 \<Rightarrow> bytes" where
  "header_bytes ord snap link =
     put_u32 ord 0xA1B23C4D @ put_u16 ord 2 @ put_u16 ord 4 @ replicate 8 0 @ put_u32 ord snap @ put_u32 ord link"

definition write_header :: "'w sink \<Rightarrow> 'w pcap_writer \<Rightarrow> string option \<times> 'w pcap_writer" where
  "write_header write w =
     (case write (writerDest w) (header_bytes (writer_order w) (SnapLen w) (writerLink w)) of
        (Some e, d) \<Rightarrow> (Some e, w\<lparr>writerDest := d\<rparr>)
      | (None, d) \<Rightarrow> (None, w\<lparr>writerDest := d, headerWritten := True\<rparr>))"

definition record_bytes :: "byte_order \<Rightarrow> cap_packet \<Rightarrow> bytes" where
  "record_bytes ord p =
     put_u32 ord (word_of_int (capTimestamp p div 1000000000)) @ put_u32 ord (word_of_int (capTimestamp p mod 1000000000)) @
     put_u32 ord (word_of_nat (length (capBytes p))) @ put_u32 ord (word_of_int (capLength p))"

definition put_packet :: "'w sink \<Rightarrow> cap_packet \<Rightarrow> 'w pcap_writer \<Rightarrow> string option \<times> 'w pcap_writer" where
  "put_packet write p w =
     (case (if headerWritten w then (None, w) else write_header write w) of
        (Some e, w) \<Rightarrow> (Some e, w)
      | (None, w) \<Rightarrow>
          (case write (writerDest w) (record_bytes (writer_order w) p) of
             (Some e, d) \<Rightarrow> (Some e, w\<lparr>writerDest := d\<rparr>)
           | (None, d) \<Rightarrow> (case write d (capBytes p) of (e, d) \<Rightarrow> (e, w\<lparr>writerDest := d\<rparr>))))"

fun put_packets :: "'w sink \<Rightarrow> cap_packet list \<Rightarrow> 'w pcap_writer \<Rightarrow> string option \<times> 'w pcap_writer" where
  "put_packets write [] w = (None, w)"
| "put_packets write (p # ps) w =
     (case put_packet write p w of (Some e, w) \<Rightarrow> (Some e, w) | (None, w) \<Rightarrow> put_packets write ps w)"

section \<open>Facts\<close>

lemma length_put_u [simp]: "length (put_u16 ord v) = 2" "length (put_u32 ord w) = 4"
  by (simp_all add: put_u16_def put_u32_def ordered_def)

lemma get_put_u [simp]: "get_u16 ord (put_u16 ord v @ bs) = v" "get_u32 ord (put_u32 ord w @ bs) = w"
  by (simp_all add: get_u16_def get_u32_def put_u16_def put_u32_def ordered_def Let_def be16_put16 be32_put32 del: One_nat_def)

lemma length_header_bytes [simp]: "length (header_bytes ord snap link) = 24"
  by (simp add: header_bytes_def)

lemma decode_header_bytes:
  "decode_header ord (header_bytes ord snap link) =
     \<lparr>hMagic = 0xA1B23C4D, hMajor = 2, hMinor = 4, hSnaplen = snap, hType = link\<rparr>"
proof -
  let ?m = "put_u32 ord 0xA1B23C4D" and ?a = "put_u16 ord 2" and ?b = "put_u16 ord 4" and ?z = "replicate 8 (0 :: byte)"
  have "drop 4 (header_bytes ord snap link) = ?a @ ?b @ ?z @ put_u32 ord snap @ put_u32 ord link"
    "drop 6 (header_bytes ord snap link) = ?b @ ?z @ put_u32 ord snap @ put_u32 ord link"
    "drop 16 (header_bytes ord snap link) = put_u32 ord snap @ put_u32 ord link"
    "drop 20 (header_bytes ord snap link) = put_u32 ord link @ []"
    by (simp_all add: header_bytes_def drop_append del: replicate_numeral)
  then show ?thesis
    unfolding decode_header_def by (simp only: get_put_u) (simp add: header_bytes_def)
qed

lemma header_version_swapped:
  "hMajor (decode_header LittleEndian (header_bytes BigEndian snap link)) = 0x200"
  "hMinor (decode_header LittleEndian (header_bytes BigEndian snap link)) = 0x400"
  by (simp_all add: decode_header_def header_bytes_def put_u32_def put_u16_def ordered_def get_u16_def Let_def
      put16_def put32_def be16_def)

text \<open>A destination in memory.\<close>

definition append_to :: "bytes sink" where
  "append_to d bs = (None, d @ bs)"

lemma put_packets_append:
  "headerWritten w \<Longrightarrow>
     put_packets append_to ps w =
       (None, w\<lparr>writerDest := writerDest w @ concat (map (\<lambda>p. record_bytes (writer_order w) p @ capBytes p) ps)\<rparr>)"
  by (induction ps arbitrary: w) (simp_all add: put_packet_def append_to_def writer_order_def)

lemma put_packets_fresh:
  assumes "\<not> headerWritten w" and "ps \<noteq> []"
  shows "put_packets append_to ps w =
    (None, w\<lparr>headerWritten := True, writerDest := writerDest w @ header_bytes (writer_order w) (SnapLen w) (writerLink w) @
       concat (map (\<lambda>p. record_bytes (writer_order w) p @ capBytes p) ps)\<rparr>)"
proof -
  obtain p qs where ps: "ps = p # qs" using assms(2) by (cases ps) auto
  let ?w = "w\<lparr>writerDest := writerDest w @ header_bytes (writer_order w) (SnapLen w) (writerLink w), headerWritten := True\<rparr>"
  have "put_packets append_to ps w = put_packets append_to ps ?w"
    using assms(1) by (simp add: ps put_packet_def write_header_def append_to_def)
  then show ?thesis
    using put_packets_append [of ?w ps] by (simp add: writer_order_def)
qed

text \<open>What fits a record: a time in the 32-bit seconds of the format, lengths in 32 bits.\<close>

definition recordable :: "cap_packet \<Rightarrow> bool" where
  "recordable p \<longleftrightarrow> 0 \<le> capTimestamp p \<and> capTimestamp p < 2 ^ 32 * 1000000000 \<and>
     0 \<le> capLength p \<and> capLength p < 2 ^ 32 \<and> length (capBytes p) < 2 ^ 32"

lemma int_unat_u32: "0 \<le> i \<Longrightarrow> i < 4294967296 \<Longrightarrow> int (unat (word_of_int i :: u32)) = i"
  by (simp add: uint_word_of_int flip: uint_nat)

lemma next_record:
  assumes "recordable p" and "tmult r = 1" and "input_left r = (record_bytes (readerOrder r) p @ capBytes p @ rest, e)"
  shows "next_packet r = (True, r\<lparr>input_left := (rest, e), readerPacket := Some p\<rparr>)"
proof -
  let ?h = "record_bytes (readerOrder r) p"
  have len: "length ?h = 16" by (simp add: record_bytes_def)
  have "drop 4 ?h = put_u32 (readerOrder r) (word_of_int (capTimestamp p mod 1000000000)) @
      put_u32 (readerOrder r) (word_of_nat (length (capBytes p))) @ put_u32 (readerOrder r) (word_of_int (capLength p))"
    "drop 8 ?h = put_u32 (readerOrder r) (word_of_nat (length (capBytes p))) @ put_u32 (readerOrder r) (word_of_int (capLength p))"
    "drop 12 ?h = put_u32 (readerOrder r) (word_of_int (capLength p)) @ []"
    by (simp_all add: record_bytes_def)
  then have fields: "get_u32 (readerOrder r) (drop 4 ?h) = word_of_int (capTimestamp p mod 1000000000)"
    "get_u32 (readerOrder r) (drop 8 ?h) = word_of_nat (length (capBytes p))"
    "get_u32 (readerOrder r) (drop 12 ?h) = word_of_int (capLength p)"
    "get_u32 (readerOrder r) ?h = word_of_int (capTimestamp p div 1000000000)"
    by (simp_all only: get_put_u) (simp add: record_bytes_def)
  have head: "read_full 16 (?h @ capBytes p @ rest, e) = Inr (?h, (capBytes p @ rest, e))"
    using len by (simp add: read_full_def)
  have body: "unat (word_of_nat (length (capBytes p)) :: u32) = length (capBytes p)"
    using assms(1) by (simp add: recordable_def unat_of_nat take_bit_nat_eq_self)
  have "capTimestamp p div 1000000000 < 4294967296" "0 \<le> capTimestamp p div 1000000000"
    "0 \<le> capTimestamp p mod 1000000000" "capTimestamp p mod 1000000000 < 4294967296"
    using assms(1) by (simp_all add: recordable_def) (auto simp: pos_mod_bound intro: less_trans)
  then have time: "int (unat (word_of_int (capTimestamp p div 1000000000) :: u32)) = capTimestamp p div 1000000000"
    "int (unat (word_of_int (capTimestamp p mod 1000000000) :: u32)) = capTimestamp p mod 1000000000"
    by (simp_all only: int_unat_u32)
  have orig: "int (unat (word_of_int (capLength p) :: u32)) = capLength p"
    using assms(1) by (intro int_unat_u32) (simp_all add: recordable_def)
  have "capTimestamp p div 1000000000 * 1000000000 + 1 * (capTimestamp p mod 1000000000) = capTimestamp p" by simp
  then have pkt: "\<lparr>capTimestamp = capTimestamp p div 1000000000 * 1000000000 + 1 * (capTimestamp p mod 1000000000),
      capLength = capLength p, capBytes = capBytes p\<rparr> = p"
    by (metis cap_packet.surjective old.unit.exhaust)
  have bytes: "read_full (length (capBytes p)) (capBytes p @ rest, e) = Inr (capBytes p, (rest, e))"
    by (simp add: read_full_def)
  show ?thesis
    unfolding next_packet_def assms(2,3) head sum.case prod.case Let_def fields body bytes time orig pkt ..
qed

lemma read_packets_end: "input_left r = ([], None) \<Longrightarrow> read_packets r = ([], r\<lparr>readerErr := Some EOF, input_left := ([], None)\<rparr>)"
  by (simp add: read_packets.simps [of r] next_packet_def read_full_def stop_reader_def)

lemma read_records:
  "\<forall>p \<in> set ps. recordable p \<Longrightarrow> tmult r = 1 \<Longrightarrow>
     input_left r = (concat (map (\<lambda>p. record_bytes (readerOrder r) p @ capBytes p) ps), None) \<Longrightarrow>
     fst (read_packets r) = ps \<and> reader_err (snd (read_packets r)) = None"
proof (induction ps arbitrary: r)
  case Nil
  then show ?case by (simp add: read_packets_end reader_err_def)
next
  case (Cons p ps)
  let ?r = "r\<lparr>input_left := (concat (map (\<lambda>p. record_bytes (readerOrder r) p @ capBytes p) ps), None), readerPacket := Some p\<rparr>"
  have "next_packet r = (True, ?r)" using Cons.prems by (intro next_record) simp_all
  moreover have "fst (read_packets ?r) = ps \<and> reader_err (snd (read_packets ?r)) = None"
    using Cons.prems by (intro Cons.IH) simp_all
  ultimately show ?case by (subst (1 2) read_packets.simps) (simp add: split_beta)
qed

lemma new_reader_header:
  "new_reader (header_bytes ord snap link @ bs, e) =
     Inr \<lparr>readerLink = link, input_left = (bs, e), readerOrder = ord, tmult = 1, readerPacket = None, readerErr = None\<rparr>"
proof -
  have "read_full 24 (header_bytes ord snap link @ bs, e) = Inr (header_bytes ord snap link, (bs, e))"
    by (simp add: read_full_def)
  then show ?thesis
    by (cases ord) (simp_all add: new_reader_def decode_header_bytes header_version_swapped)
qed

section \<open>Properties\<close>

text \<open>
  C24. What a writer writes, in either byte order, a reader reads back: the link type, and every packet with its time to the
  nanosecond, its length and its bytes, in order, and then a clean end.
\<close>

theorem capture_roundtrip:
  assumes "\<not> headerWritten w" and "writerDest w = []" and "ps \<noteq> []" and "\<forall>p \<in> set ps. recordable p"
  shows "\<exists>w' r. put_packets append_to ps w = (None, w') \<and> new_reader (writerDest w', None) = Inr r \<and>
    readerLink r = writerLink w \<and> fst (read_packets r) = ps \<and> reader_err (snd (read_packets r)) = None"
proof -
  let ?body = "concat (map (\<lambda>p. record_bytes (writer_order w) p @ capBytes p) ps)"
  let ?r = "\<lparr>readerLink = writerLink w, input_left = (?body, None), readerOrder = writer_order w, tmult = 1, readerPacket = None, readerErr = None\<rparr>"
  have "fst (read_packets ?r) = ps \<and> reader_err (snd (read_packets ?r)) = None"
    using assms(4) by (intro read_records) simp_all
  moreover have "new_reader (header_bytes (writer_order w) (SnapLen w) (writerLink w) @ ?body, None) = Inr ?r"
    by (rule new_reader_header)
  ultimately show ?thesis
    unfolding put_packets_fresh [OF assms(1,3)] assms(2) by (intro exI conjI) (rule refl | simp | force)+
qed

theorem capture_roundtrip_witness:
  "\<exists>w' r. put_packets append_to [\<lparr>capTimestamp = 1500000000123456789, capLength = 60, capBytes = [1, 2, 3]\<rparr>]
       \<lparr>writerDest = [], writerLink = 1, SnapLen = 65535, ByteOrder = Some BigEndian, headerWritten = False\<rparr> = (None, w') \<and>
     new_reader (writerDest w', None) = Inr r \<and> readerLink r = 1 \<and>
     fst (read_packets r) = [\<lparr>capTimestamp = 1500000000123456789, capLength = 60, capBytes = [1, 2, 3]\<rparr>]"
proof -
  let ?p = "\<lparr>capTimestamp = 1500000000123456789, capLength = 60, capBytes = [1, 2, 3]\<rparr>"
  have "\<forall>p \<in> set [?p]. recordable p" by (simp add: recordable_def)
  from capture_roundtrip [OF _ _ _ this, of "\<lparr>writerDest = [], writerLink = 1, SnapLen = 65535, ByteOrder = Some BigEndian, headerWritten = False\<rparr>"]
  show ?thesis by fastforce
qed

text \<open>
  A capture that breaks off right behind the header of a record is taken for one that ends well: reading the missing
  bytes ends with the same error as reading the next header would.
\<close>

theorem missing_body_unnoticed:
  assumes "tmult r = 1" and "recordable p" and "capBytes p \<noteq> []" and "input_left r = (record_bytes (readerOrder r) p, None)"
  shows "fst (next_packet r) = False \<and> reader_err (snd (next_packet r)) = None"
proof -
  have "length (record_bytes (readerOrder r) p) = 16" by (simp add: record_bytes_def)
  then have head: "read_full 16 (record_bytes (readerOrder r) p, None) = Inr (record_bytes (readerOrder r) p, ([], None))"
    by (simp add: read_full_def)
  have "drop 8 (record_bytes (readerOrder r) p) =
      put_u32 (readerOrder r) (word_of_nat (length (capBytes p))) @ put_u32 (readerOrder r) (word_of_int (capLength p))"
    by (simp add: record_bytes_def)
  then have "unat (get_u32 (readerOrder r) (drop 8 (record_bytes (readerOrder r) p))) = length (capBytes p)"
    using assms(2) by (simp add: recordable_def unat_of_nat take_bit_nat_eq_self)
  with assms(3) have body: "read_full (unat (get_u32 (readerOrder r) (drop 8 (record_bytes (readerOrder r) p)))) ([], None) = Inl EOF"
    by (simp add: read_full_def)
  show ?thesis
    unfolding next_packet_def assms(4) head sum.case prod.case Let_def body by (simp add: stop_reader_def reader_err_def)
qed

end
