(* ===== verification/Socket_Life.thy ===== *)
theory Socket_Life
  imports Sockets
begin

text \<open>
  The life of a socket: \<^verbatim>\<open>Close\<close>, \<^verbatim>\<open>SetReadDeadline\<close> and
  \<^verbatim>\<open>SetWriteDeadline\<close> of \<^verbatim>\<open>dhcp4.Conn\<close>, through the interface \<^verbatim>\<open>conn\<close> to
  either kind of socket (\<^verbatim>\<open>dhcp4/conn.go\<close>, \<^verbatim>\<open>dhcp4/conn_linux.go\<close>), and \<^verbatim>\<open>Close\<close> of
  \<^verbatim>\<open>dhcp6.Conn\<close> (\<^verbatim>\<open>dhcp6/conn.go\<close>). Below them is what \<^verbatim>\<open>net.Conn\<close> documents:
  a deadline is a point in time, the zero time stands for none, a read that has not succeeded by its deadline fails, and
  every operation on a closed socket fails, also one that is already waiting.
\<close>

section \<open>Sockets of the standard library\<close>

record net_socket =
  IsClosed :: bool
  ReadDeadline :: nat
  WriteDeadline :: nat

definition opened_socket :: net_socket where
  "opened_socket = \<lparr>IsClosed = False, ReadDeadline = 0, WriteDeadline = 0\<rparr>"

definition closed_error :: string where "closed_error = ''use of closed network connection''"
definition timeout_error :: string where "timeout_error = ''i/o timeout''"

definition net_close :: "net_socket \<Rightarrow> string option \<times> net_socket" where
  "net_close sk = (if IsClosed sk then (Some closed_error, sk) else (None, sk\<lparr>IsClosed := True\<rparr>))"

definition net_set_read_deadline :: "nat \<Rightarrow> net_socket \<Rightarrow> string option \<times> net_socket" where
  "net_set_read_deadline t sk = (if IsClosed sk then (Some closed_error, sk) else (None, sk\<lparr>ReadDeadline := t\<rparr>))"

definition net_set_write_deadline :: "nat \<Rightarrow> net_socket \<Rightarrow> string option \<times> net_socket" where
  "net_set_write_deadline t sk = (if IsClosed sk then (Some closed_error, sk) else (None, sk\<lparr>WriteDeadline := t\<rparr>))"

definition expired :: "nat \<Rightarrow> nat \<Rightarrow> bool" where
  "expired deadline now \<longleftrightarrow> deadline \<noteq> 0 \<and> deadline \<le> now"

text \<open>
  What happens to a socket, with the times: a datagram arrives, or some goroutine operates on it. \<open>net_reads\<close> is what
  successive reads of it return and when, up to the first that fails; they wait after the last when nothing else happens.
\<close>

datatype 'd happening = Arrives 'd | Operates "net_socket \<Rightarrow> string option \<times> net_socket"

fun net_reads :: "nat \<Rightarrow> net_socket \<Rightarrow> (nat \<times> 'd happening) list \<Rightarrow> (nat \<times> (string + 'd)) list" where
  "net_reads now sk [] =
     (if IsClosed sk then [(now, Inl closed_error)]
      else if ReadDeadline sk \<noteq> 0 then [(max now (ReadDeadline sk), Inl timeout_error)]
      else [])"
| "net_reads now sk ((t, h) # hs) =
     (if IsClosed sk then [(now, Inl closed_error)]
      else if expired (ReadDeadline sk) (max now t) then [(max now (ReadDeadline sk), Inl timeout_error)]
      else case h of
          Arrives d \<Rightarrow> (max now t, Inr d) # net_reads (max now t) sk hs
        | Operates f \<Rightarrow> net_reads (max now t) (snd (f sk)) hs)"

text \<open>Whether a write is refused, \<open>refuse\<close> being the network's own verdict.\<close>

definition net_refuses :: "nat \<Rightarrow> net_socket \<Rightarrow> ('out \<Rightarrow> string option) \<Rightarrow> 'out \<Rightarrow> string option" where
  "net_refuses now sk refuse out =
     (if IsClosed sk then Some closed_error
      else if expired (WriteDeadline sk) now then Some timeout_error
      else refuse out)"

section \<open>The interface of the two kinds of socket\<close>

record ('ev, 'out) conn_ops =
  CloseOp :: "net_socket \<Rightarrow> string option \<times> net_socket"
  RecvOp :: "'ev \<Rightarrow> conn_error + bytes \<times> udp_addr \<times> int"
  SendOp :: "bytes \<Rightarrow> udp_addr \<Rightarrow> int \<Rightarrow> 'out"
  SetReadDeadlineOp :: "nat \<Rightarrow> net_socket \<Rightarrow> string option \<times> net_socket"
  SetWriteDeadlineOp :: "nat \<Rightarrow> net_socket \<Rightarrow> string option \<times> net_socket"

definition portable_close :: "net_socket \<Rightarrow> string option \<times> net_socket" where
  "portable_close sk = net_close sk"

definition portable_set_read_deadline :: "nat \<Rightarrow> net_socket \<Rightarrow> string option \<times> net_socket" where
  "portable_set_read_deadline t sk = net_set_read_deadline t sk"

definition portable_set_write_deadline :: "nat \<Rightarrow> net_socket \<Rightarrow> string option \<times> net_socket" where
  "portable_set_write_deadline t sk = net_set_write_deadline t sk"

definition portable_conn :: "(udp_read, bytes \<times> udp_addr \<times> int option) conn_ops" where
  "portable_conn = \<lparr>CloseOp = portable_close, RecvOp = portable_recv, SendOp = portable_send,
     SetReadDeadlineOp = portable_set_read_deadline, SetWriteDeadlineOp = portable_set_write_deadline\<rparr>"

definition linux_close :: "net_socket \<Rightarrow> string option \<times> net_socket" where
  "linux_close sk = net_close sk"

definition linux_set_read_deadline :: "nat \<Rightarrow> net_socket \<Rightarrow> string option \<times> net_socket" where
  "linux_set_read_deadline t sk = net_set_read_deadline t sk"

definition linux_set_write_deadline :: "nat \<Rightarrow> net_socket \<Rightarrow> string option \<times> net_socket" where
  "linux_set_write_deadline t sk = net_set_write_deadline t sk"

definition linux_conn :: "u16 \<Rightarrow> (raw_read, ip_header \<times> bytes \<times> int option) conn_ops" where
  "linux_conn port = \<lparr>CloseOp = linux_close, RecvOp = linux_recv, SendOp = linux_send port,
     SetReadDeadlineOp = linux_set_read_deadline, SetWriteDeadlineOp = linux_set_write_deadline\<rparr>"

section \<open>DHCP sockets\<close>

record ('ev, 'out) dhcp_conn =
  conn_of :: "('ev, 'out) conn_ops"
  ifIndex_of :: int

definition conn_close :: "('ev, 'out) dhcp_conn \<Rightarrow> net_socket \<Rightarrow> string option \<times> net_socket" where
  "conn_close c = CloseOp (conn_of c)"

definition conn_set_read_deadline :: "('ev, 'out) dhcp_conn \<Rightarrow> nat \<Rightarrow> net_socket \<Rightarrow> string option \<times> net_socket" where
  "conn_set_read_deadline c t = SetReadDeadlineOp (conn_of c) t"

definition conn_set_write_deadline :: "('ev, 'out) dhcp_conn \<Rightarrow> nat \<Rightarrow> net_socket \<Rightarrow> string option \<times> net_socket" where
  "conn_set_write_deadline c t = SetWriteDeadlineOp (conn_of c) t"

definition conn_recv_dhcp ::
    "('ev, 'out) dhcp_conn \<Rightarrow> (int \<Rightarrow> string + net_interface option) \<Rightarrow> 'ev list \<Rightarrow>
     ((conn_error + packet \<times> net_interface option) \<times> 'ev list) option" where
  "conn_recv_dhcp c by_index es = recv_dhcp (RecvOp (conn_of c)) by_index (ifIndex_of c) es"

definition conn_send_dhcp ::
    "('ev, 'out) dhcp_conn \<Rightarrow> ('out \<Rightarrow> string option) \<Rightarrow> packet \<Rightarrow> net_interface \<Rightarrow> conn_error + 'out" where
  "conn_send_dhcp c refuse pkt intf = send_dhcp (SendOp (conn_of c)) refuse pkt intf"

text \<open>The DHCPv6 socket.\<close>

definition conn6_close :: "net_socket \<Rightarrow> string option \<times> net_socket" where
  "conn6_close sk = net_close sk"

section \<open>What a DHCP socket makes of the socket below\<close>

text \<open>
  The interface hands failures up and operations down; \<open>arrivals\<close> is a time in which nothing operates on the socket, and
  \<open>in_time\<close> are the datagrams of it that come before a deadline.
\<close>

definition arrivals :: "(nat \<times> 'd) list \<Rightarrow> (nat \<times> 'd happening) list" where
  "arrivals as = map (\<lambda>(t, d). (t, Arrives d)) as"

definition in_time :: "nat \<Rightarrow> nat \<Rightarrow> (nat \<times> 'd) list \<Rightarrow> (string + 'd) list" where
  "in_time now deadline as = map (\<lambda>a. Inr (snd a)) (takeWhile (\<lambda>a. max now (fst a) < deadline) as)"

lemma in_time_later: "sorted (map fst (a # as)) \<Longrightarrow> in_time (max now (fst a)) deadline as = in_time now deadline as"
  unfolding in_time_def by (intro arg_cong [where f = "map _"] takeWhile_cong) (auto simp: max_def)

lemma reads_by_deadline:
  assumes "\<not> IsClosed sk" and "ReadDeadline sk \<noteq> 0" and "sorted (map fst as)"
  shows "map snd (net_reads now sk (arrivals as)) = in_time now (ReadDeadline sk) as @ [Inl timeout_error]"
  using assms(3)
proof (induction as arbitrary: now)
  case (Cons a as)
  then show ?case
    using Cons.IH [of "max now (fst a)"] in_time_later [OF Cons.prems] assms(1,2)
    by (cases a) (auto simp: arrivals_def in_time_def expired_def)
qed (use assms in \<open>simp add: arrivals_def in_time_def\<close>)

lemma reads_end_by_deadline:
  assumes "\<not> IsClosed sk" and "ReadDeadline sk \<noteq> 0"
  shows "\<forall>x \<in> set (net_reads now sk (arrivals as)). fst x \<le> max now (ReadDeadline sk)"
proof (induction as arbitrary: now)
  case (Cons a as)
  show ?case
  proof (cases "expired (ReadDeadline sk) (max now (fst a))")
    case False
    then have "max (max now (fst a)) (ReadDeadline sk) = max now (ReadDeadline sk)"
      using assms(2) by (auto simp: expired_def)
    with Cons.IH [of "max now (fst a)"] False assms(1) show ?thesis
      using assms(2) by (cases a) (auto simp: arrivals_def expired_def)
  qed (use assms in \<open>cases a; simp add: arrivals_def\<close>)
qed (use assms in \<open>simp add: arrivals_def\<close>)

text \<open>Once some goroutine closes the socket, a read fails, whatever happened to it before.\<close>

definition reads_until_close ::
    "(net_socket \<Rightarrow> string option \<times> net_socket) \<Rightarrow> nat \<Rightarrow> net_socket \<Rightarrow> (nat \<times> 'd happening) list \<Rightarrow> nat \<Rightarrow>
     (nat \<times> 'd happening) list \<Rightarrow> (nat \<times> (string + 'd)) list" where
  "reads_until_close close now sk as t bs = net_reads now sk (as @ (t, Operates close) # bs)"

lemma reads_closed:
  "IsClosed sk \<Longrightarrow> net_reads now sk hs = [(now, Inl closed_error)]"
  by (cases hs) auto

lemma reads_until_close_fail:
  assumes "\<And>sk. IsClosed (snd (close sk))"
  shows "first_failure (map snd (reads_until_close close now sk as t bs)) \<noteq> None"
  unfolding reads_until_close_def
  by (induction as arbitrary: now sk) (auto simp: reads_closed assms split: happening.split)

lemma reads_until_close_times:
  assumes "\<And>sk. IsClosed (snd (close sk))" and "\<forall>x \<in> set as. fst x \<le> t"
  shows "\<forall>x \<in> set (reads_until_close close now sk as t bs). fst x \<le> max now t"
  using assms(2) unfolding reads_until_close_def
proof (induction as arbitrary: now sk)
  case (Cons a as)
  have "max (max now (fst a)) t = max now t" using Cons.prems by auto
  with Cons.IH [of "max now (fst a)"] Cons.prems show ?case
    by (cases a) (auto simp: expired_def split: happening.split)
qed (auto simp: reads_closed assms(1) expired_def)

lemma recv_dhcp_append:
  "recv_dhcp recv by_index ifIndex (es @ fs) =
     (case recv_dhcp recv by_index ifIndex es of
        None \<Rightarrow> recv_dhcp recv by_index ifIndex fs
      | Some (r, rest) \<Rightarrow> Some (r, rest @ fs))"
  by (induction es) (auto split: sum.split)

locale dhcp_socket =
  fixes ops :: "(string + 'd, 'out) conn_ops"
  assumes recv_failed: "RecvOp ops (Inl e) = Inl (SocketFailed e)"
    and close_op: "CloseOp ops sk = net_close sk"
    and set_read_deadline_op: "SetReadDeadlineOp ops t sk = net_set_read_deadline t sk"
    and set_write_deadline_op: "SetWriteDeadlineOp ops t sk = net_set_write_deadline t sk"
begin

lemma recv_by_deadline:
  assumes "conn_set_read_deadline \<lparr>conn_of = ops, ifIndex_of = i\<rparr> deadline sk = (None, sk')" and "deadline \<noteq> 0"
    and "sorted (map fst as)"
  shows "conn_recv_dhcp \<lparr>conn_of = ops, ifIndex_of = i\<rparr> by_index (map snd (net_reads now sk' (arrivals as))) =
      (case conn_recv_dhcp \<lparr>conn_of = ops, ifIndex_of = i\<rparr> by_index (in_time now deadline as) of
         None \<Rightarrow> Some (Inl (SocketFailed timeout_error), [])
       | Some (r, rest) \<Rightarrow> Some (r, rest @ [Inl timeout_error]))"
    and "\<forall>x \<in> set (net_reads now sk' (arrivals as)). fst x \<le> max now deadline"
proof -
  have "\<not> IsClosed sk'" "ReadDeadline sk' = deadline"
    using assms(1) by (auto simp: conn_set_read_deadline_def set_read_deadline_op net_set_read_deadline_def split: if_splits)
  then show "\<forall>x \<in> set (net_reads now sk' (arrivals as)). fst x \<le> max now deadline"
      "conn_recv_dhcp \<lparr>conn_of = ops, ifIndex_of = i\<rparr> by_index (map snd (net_reads now sk' (arrivals as))) =
      (case conn_recv_dhcp \<lparr>conn_of = ops, ifIndex_of = i\<rparr> by_index (in_time now deadline as) of
         None \<Rightarrow> Some (Inl (SocketFailed timeout_error), [])
       | Some (r, rest) \<Rightarrow> Some (r, rest @ [Inl timeout_error]))"
    using reads_by_deadline [of sk' as now] reads_end_by_deadline [of sk' now as] assms(2,3)
    by (simp_all add: conn_recv_dhcp_def recv_dhcp_append recv_failed split: option.split)
qed

lemma recv_fails: "first_failure es \<noteq> None \<Longrightarrow> conn_recv_dhcp \<lparr>conn_of = ops, ifIndex_of = i\<rparr> by_index es \<noteq> None"
  unfolding conn_recv_dhcp_def
  by (induction es rule: first_failure.induct) (auto simp: recv_failed split: sum.splits)

lemma closed_by_close: "IsClosed (snd (conn_close \<lparr>conn_of = ops, ifIndex_of = i\<rparr> sk))"
  by (simp add: conn_close_def close_op net_close_def)

lemma recv_until_closed:
  "conn_recv_dhcp \<lparr>conn_of = ops, ifIndex_of = i\<rparr> by_index
     (map snd (reads_until_close (conn_close \<lparr>conn_of = ops, ifIndex_of = i\<rparr>) now sk as t bs)) \<noteq> None"
  by (rule recv_fails, rule reads_until_close_fail, rule closed_by_close)

lemma sent_when_allowed:
  assumes "conn_send_dhcp \<lparr>conn_of = ops, ifIndex_of = i\<rparr> (net_refuses now sk refuse) pkt intf = Inr out"
  shows "\<not> IsClosed sk" and "\<not> expired (WriteDeadline sk) now"
  using assms send_dhcp_Inr by (fastforce simp: conn_send_dhcp_def net_refuses_def split: if_splits)+

end

interpretation portable_socket: dhcp_socket portable_conn
  by unfold_locales (simp_all add: portable_conn_def portable_recv_def portable_close_def portable_set_read_deadline_def
      portable_set_write_deadline_def)

interpretation linux_socket: dhcp_socket "linux_conn port" for port
  by unfold_locales (simp_all add: linux_conn_def linux_recv_def linux_close_def linux_set_read_deadline_def
      linux_set_write_deadline_def)

section \<open>Properties\<close>

abbreviation (input) bound_socket :: "int \<Rightarrow> (udp_read, bytes \<times> udp_addr \<times> int option) dhcp_conn" where
  "bound_socket i \<equiv> \<lparr>conn_of = portable_conn, ifIndex_of = i\<rparr>"

abbreviation (input) snooper_socket :: "u16 \<Rightarrow> int \<Rightarrow> (raw_read, ip_header \<times> bytes \<times> int option) dhcp_conn" where
  "snooper_socket port i \<equiv> \<lparr>conn_of = linux_conn port, ifIndex_of = i\<rparr>"

text \<open>
  C23. A read deadline holds for the whole of \<^verbatim>\<open>RecvDHCP\<close>, on either kind of socket: it returns what it would
  return for the datagrams that come in time, if those are enough, and fails with a timeout otherwise; no read takes longer than
  the deadline, however many datagrams it has to skip.
\<close>

theorem read_deadline_kept:
  assumes "conn_set_read_deadline (bound_socket i) deadline sk = (None, sk')"
    and "conn_set_read_deadline (snooper_socket port i) deadline tk = (None, tk')"
    and "deadline \<noteq> 0" and "sorted (map fst as)" and "sorted (map fst cs)"
  shows "conn_recv_dhcp (bound_socket i) by_index (map snd (net_reads now sk' (arrivals as))) =
      (case conn_recv_dhcp (bound_socket i) by_index (in_time now deadline as) of
         None \<Rightarrow> Some (Inl (SocketFailed timeout_error), [])
       | Some (r, rest) \<Rightarrow> Some (r, rest @ [Inl timeout_error])) \<and>
    conn_recv_dhcp (snooper_socket port i) by_index (map snd (net_reads now tk' (arrivals cs))) =
      (case conn_recv_dhcp (snooper_socket port i) by_index (in_time now deadline cs) of
         None \<Rightarrow> Some (Inl (SocketFailed timeout_error), [])
       | Some (r, rest) \<Rightarrow> Some (r, rest @ [Inl timeout_error])) \<and>
    (\<forall>x \<in> set (net_reads now sk' (arrivals as)). fst x \<le> max now deadline) \<and>
    (\<forall>x \<in> set (net_reads now tk' (arrivals cs)). fst x \<le> max now deadline)"
  using portable_socket.recv_by_deadline [OF assms(1,3,4)] linux_socket.recv_by_deadline [OF assms(2,3,5)] by blast

theorem read_deadline_kept_witness:
  "conn_recv_dhcp (bound_socket 0) (\<lambda>_. Inr None)
     (map snd (net_reads 2 (opened_socket\<lparr>ReadDeadline := 10\<rparr>) (arrivals [(12, ([1], \<lparr>IP = None, Port = 68\<rparr>, 2))]))) =
       Some (Inl (SocketFailed timeout_error), [])"
proof -
  have "conn_set_read_deadline (bound_socket 0) 10 opened_socket = (None, opened_socket\<lparr>ReadDeadline := 10\<rparr>)"
      "conn_set_read_deadline (snooper_socket 67 0) 10 opened_socket = (None, opened_socket\<lparr>ReadDeadline := 10\<rparr>)"
    by (simp_all add: conn_set_read_deadline_def portable_conn_def linux_conn_def portable_set_read_deadline_def
        linux_set_read_deadline_def net_set_read_deadline_def opened_socket_def)
  from read_deadline_kept [OF this, where as = "[(12, ([1], \<lparr>IP = None, Port = 68\<rparr>, 2))]" and cs = "[]" and now = 2
      and by_index = "\<lambda>_. Inr None"]
  show ?thesis by (simp add: in_time_def conn_recv_dhcp_def)
qed

text \<open>
  Closing a DHCP socket ends what waits on it: \<^verbatim>\<open>RecvDHCP\<close> returns, no read having taken longer than to the
  moment of closing, whatever arrived and whatever was done to the socket before; and nothing is sent through it afterwards.
\<close>

theorem close_unblocks:
  assumes "\<forall>x \<in> set as. fst x \<le> t" and "\<forall>x \<in> set cs. fst x \<le> t"
  shows "conn_recv_dhcp (bound_socket i) by_index (map snd (reads_until_close (conn_close (bound_socket i)) now sk as t bs)) \<noteq> None \<and>
    (\<forall>x \<in> set (reads_until_close (conn_close (bound_socket i)) now sk as t bs). fst x \<le> max now t) \<and>
    conn_recv_dhcp (snooper_socket port i) by_index
      (map snd (reads_until_close (conn_close (snooper_socket port i)) now sk cs t ds)) \<noteq> None \<and>
    (\<forall>x \<in> set (reads_until_close (conn_close (snooper_socket port i)) now sk cs t ds). fst x \<le> max now t) \<and>
    (\<nexists>out. conn_send_dhcp (bound_socket i) (net_refuses now' (snd (conn_close (bound_socket i) sk)) refuse) pkt intf = Inr out) \<and>
    (\<nexists>out. conn_send_dhcp (snooper_socket port i)
      (net_refuses now' (snd (conn_close (snooper_socket port i) sk)) refuse') pkt intf = Inr out)"
proof -
  note closed = portable_socket.closed_by_close linux_socket.closed_by_close
  then have "\<nexists>out. conn_send_dhcp (bound_socket i) (net_refuses now' (snd (conn_close (bound_socket i) sk)) refuse) pkt intf = Inr out"
    "\<nexists>out. conn_send_dhcp (snooper_socket port i)
      (net_refuses now' (snd (conn_close (snooper_socket port i) sk)) refuse') pkt intf = Inr out"
    using portable_socket.sent_when_allowed(1) linux_socket.sent_when_allowed(1) by blast+
  moreover have "\<forall>x \<in> set (reads_until_close (conn_close (bound_socket i)) now sk as t bs). fst x \<le> max now t"
      "\<forall>x \<in> set (reads_until_close (conn_close (snooper_socket port i)) now sk cs t ds). fst x \<le> max now t"
    using closed assms by (intro reads_until_close_times; simp)+
  ultimately show ?thesis
    using portable_socket.recv_until_closed linux_socket.recv_until_closed by blast
qed

theorem close_unblocks_witness:
  "conn_recv_dhcp (bound_socket 0) (\<lambda>_. Inr None)
     (map snd (net_reads 0 opened_socket [(3, Arrives ([1], \<lparr>IP = None, Port = 68\<rparr>, 2)), (5, Operates (conn_close (bound_socket 0)))])) \<noteq> None"
  using close_unblocks [where as = "[(3, Arrives ([1], \<lparr>IP = None, Port = 68\<rparr>, 2))]" and t = 5 and cs = "[]" and bs = "[]"
      and i = 0 and now = 0 and sk = opened_socket and by_index = "\<lambda>_. Inr None"]
  by (simp add: reads_until_close_def)

end
