(* ===== verification/Tftp_Time.thy ===== *)
theory Tftp_Time
  imports Tftp Socket_Life
begin

text \<open>
  The transfer of \<^verbatim>\<open>tftp/tftp.go\<close> over time: each attempt to send a packet sets a read deadline
  (\<^verbatim>\<open>SetReadDeadline\<close>), reads before it take the datagrams that arrive in time, and one that arrives later is left
  to the next attempt. The socket is that of \<^verbatim>\<open>Socket_Life\<close>; a read without a deadline waits for ever when nothing
  arrives, which is the result \<open>None\<close>. Times are nanoseconds; only waiting takes time. Shown: the deadlines make every
  transfer return, within a time the client has no influence on, and what it does is a transfer of \<^verbatim>\<open>Tftp\<close>,
  for which nothing but the order of deadlines and datagrams is known.
\<close>

section \<open>A connected socket over time\<close>

datatype incoming = Datagram bytes | Refused string

record timed_conn =
  Socket :: net_socket
  Clock :: nat
  Pending :: "(nat \<times> incoming) list"
  Written :: "bytes list"
  Denied :: "nat \<Rightarrow> string option"

definition timed_write :: "bytes \<Rightarrow> timed_conn \<Rightarrow> string + timed_conn" where
  "timed_write b c =
     (case net_refuses (Clock c) (Socket c) (\<lambda>_. Denied c (length (Written c))) b of
        Some e \<Rightarrow> Inl e
      | None \<Rightarrow> Inr (c\<lparr>Written := Written c @ [b]\<rparr>))"

definition timed_write_ignoring :: "bytes \<Rightarrow> timed_conn \<Rightarrow> timed_conn" where
  "timed_write_ignoring b c = (case timed_write b c of Inl _ \<Rightarrow> c | Inr c' \<Rightarrow> c')"

definition timed_set_read_deadline :: "nat \<Rightarrow> timed_conn \<Rightarrow> timed_conn" where
  "timed_set_read_deadline t c = c\<lparr>Socket := snd (net_set_read_deadline t (Socket c))\<rparr>"

definition timed_close :: "timed_conn \<Rightarrow> timed_conn" where
  "timed_close c = c\<lparr>Socket := snd (net_close (Socket c))\<rparr>"

section \<open>Sending with retransmission\<close>

text \<open>The reads of one attempt: how it ends, when, and what has not been read.\<close>

fun timed_await ::
    "u16 \<Rightarrow> bytes \<Rightarrow> net_socket \<Rightarrow> nat \<Rightarrow> (nat \<times> incoming) list \<Rightarrow> (ack_result \<times> nat \<times> (nat \<times> incoming) list) option" where
  "timed_await seq recv sk now [] =
     (if IsClosed sk then Some (Failed (ReadError closed_error), now, [])
      else if ReadDeadline sk = 0 then None
      else Some (Retry, max now (ReadDeadline sk), []))"
| "timed_await seq recv sk now ((t, d) # es) =
     (if IsClosed sk then Some (Failed (ReadError closed_error), now, (t, d) # es)
      else if expired (ReadDeadline sk) (max now t) then Some (Retry, max now (ReadDeadline sk), (t, d) # es)
      else case d of
          Refused e \<Rightarrow> Some (Failed (ReadError e), max now t, es)
        | Datagram b \<Rightarrow>
            (let recv = copy_over recv b; n = min (length b) (length recv) in
             if n < 4 then timed_await seq recv sk (max now t) es
             else if read16 (take 2 recv) = Some 4 then
               (if read16 (take 2 (drop 2 recv)) = Some seq then Some (Acked, max now t, es)
                else timed_await seq recv sk (max now t) es)
             else if read16 (take 2 recv) = Some 5 then Some (Failed (ClientAborted (abort_message recv)), max now t, es)
             else timed_await seq recv sk (max now t) es))"

fun timed_attempts ::
    "nat \<Rightarrow> nat \<Rightarrow> bytes \<Rightarrow> u16 \<Rightarrow> timed_conn \<Rightarrow> (send_error option \<times> timed_conn) option" where
  "timed_attempts timeout 0 b seq c = Some (Some NoAck, c)"
| "timed_attempts timeout (Suc k) b seq c =
     (case timed_write b c of
        Inl e \<Rightarrow> Some (Some (WriteError e), c)
      | Inr c1 \<Rightarrow>
          (let c2 = timed_set_read_deadline (Clock c1 + timeout) c1 in
           case timed_await seq (replicate 256 0) (Socket c2) (Clock c2) (Pending c2) of
             None \<Rightarrow> None
           | Some (a, now, es) \<Rightarrow>
               (let c3 = c2\<lparr>Clock := now, Pending := es\<rparr> in
                case a of
                  Acked \<Rightarrow> Some (None, c3)
                | Retry \<Rightarrow> timed_attempts timeout k b seq c3
                | Failed e \<Rightarrow> Some (Some e, c3))))"

definition timed_send :: "tftp_server \<Rightarrow> timed_conn \<Rightarrow> bytes \<Rightarrow> u16 \<Rightarrow> (send_error option \<times> timed_conn) option" where
  "timed_send s c b seq = timed_attempts (write_timeout s) (write_attempts s) b seq c"

section \<open>The transfer\<close>

function timed_data_loop ::
    "tftp_server \<Rightarrow> nat \<Rightarrow> u16 \<Rightarrow> source \<Rightarrow> timed_conn \<Rightarrow> (transfer_error option \<times> timed_conn) option" where
  "timed_data_loop s blockSize seq f c =
     (case copy_n f blockSize of
        (_, _, Some e) \<Rightarrow>
          Some (Some (BlockReadError seq e), timed_write_ignoring (tftp_error ''internal server error'') c)
      | (payload, f', None) \<Rightarrow>
          (case timed_send s c (data_packet seq payload) seq of
             None \<Rightarrow> None
           | Some (Some e, c') \<Rightarrow> Some (Some (BlockSendError seq e), timed_write_ignoring (tftp_error ''timeout'') c')
           | Some (None, c') \<Rightarrow>
               if length payload < blockSize \<or> blockSize = 0 then Some (None, c')
               else timed_data_loop s blockSize (seq + 1) f' c'))"
  by pat_completeness auto
termination
  by (relation "measure (\<lambda>(_, _, _, f, _). length (fst f))") (auto simp: copy_n_def)

declare timed_data_loop.simps [simp del]

text \<open>The transfer on a connection that has been dialed, which it closes in the end, whichever way it returns.\<close>

definition timed_transfer ::
    "tftp_server \<Rightarrow> (string \<Rightarrow> string + source \<times> int) \<Rightarrow> rrq \<Rightarrow> timed_conn \<Rightarrow> (transfer_error option \<times> timed_conn) option" where
  "timed_transfer s handler req c =
     map_option (apsnd timed_close)
       (case handler (Filename req) of
          Inl e \<Rightarrow> Some (Some (HandlerError e), timed_write_ignoring (tftp_error ''failed to get file'') c)
        | Inr (f, fileSize) \<Rightarrow>
            (let wants = wants_oack req fileSize;
                 req1 = (if wants then negotiate s req else req) in
             case (if wants then timed_send s c (oack_packet req1 fileSize) 0 else Some (None, c)) of
               None \<Rightarrow> None
             | Some (Some err, c1) \<Rightarrow> Some (Some (OackError err), c1)
             | Some (None, c1) \<Rightarrow>
                 timed_data_loop s (nat (if BlockSize req1 = 0 then 512 else BlockSize req1)) 1 f c1))"

section \<open>Every timed run is an untimed one\<close>

text \<open>An open connection without a write deadline, and the connection of \<^verbatim>\<open>Tftp\<close> on which \<open>u\<close> is read.\<close>

definition ready :: "timed_conn \<Rightarrow> bool" where
  "ready c \<longleftrightarrow> \<not> IsClosed (Socket c) \<and> WriteDeadline (Socket c) = 0"

definition untimed :: "timed_conn \<Rightarrow> read_event list \<Rightarrow> conn" where
  "untimed c u = \<lparr>sent = Written c, reads_left = u, refuses = Denied c\<rparr>"

lemma untimed_simps [simp]:
  "sent (untimed c u) = Written c" "reads_left (untimed c u) = u" "refuses (untimed c u) = Denied c"
  "(untimed c u)\<lparr>reads_left := v\<rparr> = untimed c v"
  by (simp_all add: untimed_def)

lemma timed_write_untimed:
  "ready c \<Longrightarrow> case timed_write b c of
     Inl e \<Rightarrow> (\<forall>u. conn_write b (untimed c u) = Inl e)
   | Inr c1 \<Rightarrow> ready c1 \<and> Clock c1 = Clock c \<and> Socket c1 = Socket c \<and> (\<forall>u. conn_write b (untimed c u) = Inr (untimed c1 u))"
  by (auto simp: timed_write_def net_refuses_def ready_def expired_def conn_write_def untimed_def split: option.split)

lemma timed_write_ignoring_untimed:
  "ready c \<Longrightarrow> ready (timed_write_ignoring b c) \<and> Clock (timed_write_ignoring b c) = Clock c \<and>
     (\<forall>u. write_ignoring b (untimed c u) = untimed (timed_write_ignoring b c) u)"
  using timed_write_untimed [of c b] by (auto simp: timed_write_ignoring_def write_ignoring_def split: sum.splits)

lemma timed_await_untimed:
  assumes "\<not> IsClosed sk" and "now \<le> ReadDeadline sk" and "ReadDeadline sk \<noteq> 0"
  shows "\<exists>a now' es' u. timed_await seq recv sk now es = Some (a, now', es') \<and> now' \<le> ReadDeadline sk \<and>
    (\<forall>rest. await_ack seq recv (u @ rest) = (a, rest))"
  using assms(2)
proof (induction es arbitrary: recv now)
  case Nil
  then show ?case using assms(1,3) by (auto simp: max_def intro: exI [of _ "[TimedOut]"])
next
  case (Cons e es)
  obtain t d where e: "e = (t, d)" by fastforce
  show ?case
  proof (cases "expired (ReadDeadline sk) (max now t)")
    case True
    then show ?thesis using Cons.prems assms(1) e by (auto simp: max_def intro: exI [of _ "[TimedOut]"])
  next
    case False
    then have now: "max now t \<le> ReadDeadline sk" using assms(3) by (metis expired_def nat_le_linear)
    show ?thesis
    proof (cases d)
      case (Refused x)
      then show ?thesis using False now assms(1) e by (auto intro: exI [of _ "[Broken x]"])
    next
      case (Datagram b)
      let ?r = "copy_over recv b"
      obtain a now' es' u where IH: "timed_await seq ?r sk (max now t) es = Some (a, now', es')" "now' \<le> ReadDeadline sk"
          "\<forall>rest. await_ack seq ?r (u @ rest) = (a, rest)"
        using Cons.IH [OF now, of ?r] by blast
      show ?thesis
      proof (cases "min (length b) (length ?r) < 4 \<or> \<not> (ack_seen seq ?r \<or> read16 (take 2 ?r) = Some 5)")
        case True
        with False Datagram e assms(1) IH show ?thesis
          by (intro exI [of _ a] exI [of _ now'] exI [of _ es'] exI [of _ "Received b # u"])
            (auto simp: ack_seen_def Let_def await_ack_Received)
      next
        case False2: False
        with False Datagram e assms(1) now show ?thesis
          by (auto simp: ack_seen_def Let_def await_ack_Received intro: exI [of _ "[Received b]"])
      qed
    qed
  qed
qed

text \<open>A send keeps the connection ready and takes at most \<open>timeout\<close> for each attempt.\<close>

lemma timed_attempts_untimed:
  assumes "ready c" and "0 < timeout"
  shows "\<exists>r c' u. timed_attempts timeout k b seq c = Some (r, c') \<and> ready c' \<and> Clock c' \<le> Clock c + k * timeout \<and>
    (\<forall>rest. attempt_loop k b seq (untimed c (u @ rest)) = (r, untimed c' rest))"
  using assms(1)
proof (induction k arbitrary: c)
  case 0
  then show ?case by (auto intro: exI [of _ "[]"])
next
  case (Suc k)
  show ?case
  proof (cases "timed_write b c")
    case (Inl e)
    with timed_write_untimed [OF Suc.prems, of b] Suc.prems show ?thesis by (auto intro: exI [of _ "[]"])
  next
    case (Inr c1)
    with timed_write_untimed [OF Suc.prems, of b] have c1: "ready c1" "Clock c1 = Clock c"
      and w: "\<And>u. conn_write b (untimed c u) = Inr (untimed c1 u)" by auto
    let ?c2 = "timed_set_read_deadline (Clock c1 + timeout) c1"
    have c2: "\<not> IsClosed (Socket ?c2)" "ReadDeadline (Socket ?c2) = Clock c + timeout" "WriteDeadline (Socket ?c2) = 0"
        "Clock ?c2 = Clock c" "\<And>u. untimed ?c2 u = untimed c1 u"
      using c1 by (simp_all add: timed_set_read_deadline_def net_set_read_deadline_def ready_def untimed_def)
    obtain a now es u where await: "timed_await seq (replicate 256 0) (Socket ?c2) (Clock ?c2) (Pending ?c2) = Some (a, now, es)"
        "now \<le> Clock c + timeout" and u: "\<And>rest. await_ack seq (replicate 256 0) (u @ rest) = (a, rest)"
      using timed_await_untimed [of "Socket ?c2" "Clock ?c2" seq "replicate 256 0" "Pending ?c2"] c2 assms(2) by auto
    let ?c3 = "?c2\<lparr>Clock := now, Pending := es\<rparr>"
    have c3: "ready ?c3" "Clock ?c3 \<le> Clock c + timeout" "\<And>v. untimed ?c3 v = untimed c1 v"
      using c2 await(2) by (simp_all add: ready_def untimed_def)
    have step: "attempt_loop (Suc k) b seq (untimed c (u @ rest)) =
        (case a of Acked \<Rightarrow> (None, untimed ?c3 rest) | Retry \<Rightarrow> attempt_loop k b seq (untimed ?c3 rest)
         | Failed e \<Rightarrow> (Some e, untimed ?c3 rest))" for rest
      by (simp add: w u c3(3) del: replicate_numeral split: ack_result.split)
    have timed: "timed_attempts timeout (Suc k) b seq c =
        (case a of Acked \<Rightarrow> Some (None, ?c3) | Retry \<Rightarrow> timed_attempts timeout k b seq ?c3 | Failed e \<Rightarrow> Some (Some e, ?c3))"
      using await(1) by (simp add: Inr Let_def del: replicate_numeral)
    show ?thesis
    proof (cases a)
      case Retry
      obtain r c' v where IH: "timed_attempts timeout k b seq ?c3 = Some (r, c')" "ready c'" "Clock c' \<le> Clock ?c3 + k * timeout"
          "\<forall>rest. attempt_loop k b seq (untimed ?c3 (v @ rest)) = (r, untimed c' rest)"
        using Suc.IH [OF c3(1)] by blast
      have "attempt_loop (Suc k) b seq (untimed c ((u @ v) @ rest)) = (r, untimed c' rest)" for rest
        using step [of "v @ rest"] Retry IH(4) by (simp del: attempt_loop.simps)
      with IH timed Retry c3(2) show ?thesis
        by (intro exI [of _ r] exI [of _ c'] exI [of _ "u @ v"]) (auto simp del: attempt_loop.simps timed_attempts.simps)
    qed (use step timed c3 in \<open>auto simp del: attempt_loop.simps timed_attempts.simps simp: le_trans intro!: exI [of _ u]\<close>)
  qed
qed

lemma timed_send_untimed:
  assumes "ready c"
  shows "\<exists>r c' u. timed_send s c b seq = Some (r, c') \<and> ready c' \<and>
    Clock c' \<le> Clock c + write_attempts s * write_timeout s \<and>
    (\<forall>rest. tftp_send s (untimed c (u @ rest)) b seq = (r, untimed c' rest))"
  unfolding timed_send_def tftp_send_def
  by (rule timed_attempts_untimed [OF assms]) (simp add: write_timeout_def)

lemma timed_data_loop_untimed:
  assumes "ready c" and "0 < n"
  shows "\<exists>r c' u. timed_data_loop s n seq f c = Some (r, c') \<and> ready c' \<and>
    Clock c' \<le> Clock c + length (blocks n (fst f)) * (write_attempts s * write_timeout s) \<and>
    (\<forall>rest. data_loop s n seq f (untimed c (u @ rest)) = (r, untimed c' rest))"
  using assms(1)
proof (induction "length (fst f)" arbitrary: seq f c rule: less_induct)
  case less
  let ?content = "fst f" and ?p = "data_packet seq (take n (fst f))" and ?K = "write_attempts s * write_timeout s"
  have packets: "length (blocks n ?content) = Suc (if length ?content < n then 0 else length (blocks n (drop n ?content)))"
    using assms(2) by (subst blocks.simps) simp
  show ?case
  proof (cases "n \<le> length ?content \<or> snd f = None")
    case False
    with timed_write_ignoring_untimed [OF less.prems] show ?thesis
      by (subst timed_data_loop.simps, subst data_loop.simps) (auto simp: copy_n_def intro!: exI [of _ "[]"])
  next
    case True
    then have noerr: "copy_n f n = (take n ?content, (drop n ?content, snd f), None)" by (auto simp: copy_n_def)
    obtain a c1 u where send: "timed_send s c ?p seq = Some (a, c1)" and c1: "ready c1" "Clock c1 \<le> Clock c + ?K"
        and u: "\<And>rest. tftp_send s (untimed c (u @ rest)) ?p seq = (a, untimed c1 rest)"
      using timed_send_untimed [OF less.prems] by blast
    have timed: "timed_data_loop s n seq f c = (case a of
        Some e \<Rightarrow> Some (Some (BlockSendError seq e), timed_write_ignoring (tftp_error ''timeout'') c1)
      | None \<Rightarrow> if length ?content < n then Some (None, c1) else timed_data_loop s n (seq + 1) (drop n ?content, snd f) c1)"
      using assms(2) send by (subst timed_data_loop.simps) (cases a; simp add: noerr)
    have loop: "data_loop s n seq f (untimed c (u @ rest)) = (case a of
        Some e \<Rightarrow> (Some (BlockSendError seq e), write_ignoring (tftp_error ''timeout'') (untimed c1 rest))
      | None \<Rightarrow> if length ?content < n then (None, untimed c1 rest)
          else data_loop s n (seq + 1) (drop n ?content, snd f) (untimed c1 rest))" for rest
      using assms(2) u [of rest] by (subst data_loop.simps) (cases a; simp add: noerr)
    consider e where "a = Some e" | "a = None" "length ?content < n" | "a = None" "\<not> length ?content < n" by fastforce
    then show ?thesis
    proof cases
      case 1
      with timed loop c1 timed_write_ignoring_untimed [OF c1(1)] show ?thesis by (auto simp: packets)
    next
      case 2
      with timed loop c1 show ?thesis by (auto simp: packets)
    next
      case 3
      then have "length (fst (drop n ?content, snd f)) < length ?content" using assms(2) by simp
      from less.hyps [OF this c1(1), of "seq + 1"] obtain r c' v where
        IH: "timed_data_loop s n (seq + 1) (drop n ?content, snd f) c1 = Some (r, c')" "ready c'"
          "Clock c' \<le> Clock c1 + length (blocks n (drop n ?content)) * ?K"
          "\<And>rest. data_loop s n (seq + 1) (drop n ?content, snd f) (untimed c1 (v @ rest)) = (r, untimed c' rest)"
        by auto
      have "data_loop s n seq f (untimed c ((u @ v) @ rest)) = (r, untimed c' rest)" for rest
        using loop [of "v @ rest"] 3 IH(4) by simp
      with 3 timed IH(1-3) c1(2) show ?thesis
        by (intro exI [of _ r] exI [of _ c'] exI [of _ "u @ v"]) (simp add: packets)
    qed
  qed
qed

lemma timed_transfer_unfold:
  assumes "handler (Filename req) = Inr (f, fileSize)"
  shows "timed_transfer s handler req c = map_option (apsnd timed_close)
    (if wants_oack req fileSize then
       (case timed_send s c (oack_packet (negotiate s req) fileSize) 0 of
          None \<Rightarrow> None
        | Some (Some e, c1) \<Rightarrow> Some (Some (OackError e), c1)
        | Some (None, c1) \<Rightarrow> timed_data_loop s (block_bytes s req) 1 f c1)
     else timed_data_loop s (block_bytes s req) 1 f c)"
proof -
  have n: "nat (if BlockSize (negotiate s req) = 0 then 512 else BlockSize (negotiate s req)) = block_bytes s req"
    using max_block_size_pos [of s] by (auto simp: negotiated_size block_bytes_def min_def)
  show ?thesis
  proof (cases "wants_oack req fileSize")
    case True
    show ?thesis unfolding timed_transfer_def assms sum.case prod.case Let_def if_P [OF True] n by simp
  next
    case False
    then have "BlockSize req = 0" by (simp add: wants_oack_def)
    with False assms show ?thesis by (simp add: timed_transfer_def block_bytes_def)
  qed
qed

lemma timed_close_closes:
  "IsClosed (Socket (timed_close c)) \<and> Clock (timed_close c) = Clock c \<and> untimed (timed_close c) u = untimed c u"
  by (simp add: timed_close_def net_close_def untimed_def)

lemma timed_transfer_untimed:
  assumes "ready c" and "handler (Filename req) = Inr (f, fileSize)" and "0 \<le> BlockSize req"
  shows "\<exists>r c' u. timed_transfer s handler req c = Some (r, timed_close c') \<and>
    Clock c' \<le> Clock c + length (transfer_packets s req fileSize (fst f)) * (write_attempts s * write_timeout s) \<and>
    transfer s handler req (untimed c u) = (r, untimed c' [])"
proof -
  let ?p = "oack_packet (negotiate s req) fileSize" and ?n = "block_bytes s req" and ?K = "write_attempts s * write_timeout s"
  have pos: "0 < ?n" using assms(3) max_block_size_pos [of s] by (auto simp: block_bytes_def)
  note loop = timed_data_loop_untimed [OF _ pos, of _ s 1 f]
  show ?thesis
  proof (cases "wants_oack req fileSize")
    case False
    obtain r c' u where "timed_data_loop s ?n 1 f c = Some (r, c')"
        "Clock c' \<le> Clock c + length (blocks ?n (fst f)) * ?K"
        "\<forall>rest. data_loop s ?n 1 f (untimed c (u @ rest)) = (r, untimed c' rest)"
      using loop [OF assms(1)] by blast
    with False assms(2) show ?thesis
      by (intro exI [of _ r] exI [of _ c'] exI [of _ "u @ []"])
        (simp add: timed_transfer_unfold transfer_unfold transfer_packets_def data_packets_def del: append_Nil2)
  next
    case True
    obtain a c1 u where send: "timed_send s c ?p 0 = Some (a, c1)" and c1: "ready c1" "Clock c1 \<le> Clock c + ?K"
        and u: "\<And>rest. tftp_send s (untimed c (u @ rest)) ?p 0 = (a, untimed c1 rest)"
      using timed_send_untimed [OF assms(1)] by blast
    show ?thesis
    proof (cases a)
      case (Some e)
      with True send u [of "[]"] c1(2) assms(2) show ?thesis
        by (intro exI [of _ "Some (OackError e)"] exI [of _ c1] exI [of _ "u @ []"])
          (simp add: timed_transfer_unfold transfer_unfold transfer_packets_def del: append_Nil2)
    next
      case None
      obtain r c' v where "timed_data_loop s ?n 1 f c1 = Some (r, c')"
          "Clock c' \<le> Clock c1 + length (blocks ?n (fst f)) * ?K"
          "\<forall>rest. data_loop s ?n 1 f (untimed c1 (v @ rest)) = (r, untimed c' rest)"
        using loop [OF c1(1)] by blast
      with None True send u [of "v @ []"] c1(2) assms(2) show ?thesis
        by (intro exI [of _ r] exI [of _ c'] exI [of _ "u @ v @ []"])
          (simp add: timed_transfer_unfold transfer_unfold transfer_packets_def data_packets_def del: append_Nil2)
    qed
  qed
qed

section \<open>Properties\<close>

text \<open>
  C12. A transfer always returns, whatever its client sends or leaves unsent and whenever: it closes its connection, it waits
  for at most the timeout for each attempt of each packet, and what it does is a transfer of the untimed model, on some
  sequence of datagrams and passed deadlines.
\<close>

theorem transfer_ends_in_time:
  assumes "ready c" and "handler (Filename req) = Inr ((content, err), fileSize)" and "0 \<le> BlockSize req"
  shows "\<exists>r c' u. timed_transfer s handler req c = Some (r, c') \<and> IsClosed (Socket c') \<and>
    Clock c' \<le> Clock c + length (transfer_packets s req fileSize content) * (write_attempts s * write_timeout s) \<and>
    transfer s handler req (untimed c u) = (r, untimed c' [])"
proof -
  obtain r c' u where "timed_transfer s handler req c = Some (r, timed_close c')"
      "Clock c' \<le> Clock c + length (transfer_packets s req fileSize content) * (write_attempts s * write_timeout s)"
      "transfer s handler req (untimed c u) = (r, untimed c' [])"
    using timed_transfer_untimed [where handler = handler, OF assms] unfolding fst_conv by blast
  then show ?thesis using timed_close_closes [of c'] by (intro exI [of _ r] exI [of _ "timed_close c'"] exI [of _ u]) simp
qed

text \<open>A client that never answers, of a file that fits one packet: five times two seconds, and an error packet.\<close>

definition silent_conn :: timed_conn where
  "silent_conn = \<lparr>Socket = opened_socket, Clock = 7, Pending = [], Written = [], Denied = (\<lambda>_. None)\<rparr>"

theorem transfer_ends_in_time_witness:
  "\<exists>r c'. timed_transfer sample_tftp (\<lambda>_. Inr (([7], None), 1)) sample_rrq silent_conn = Some (r, c') \<and>
     IsClosed (Socket c') \<and> Clock c' \<le> 7 + 10 * 10 ^ 9"
proof -
  let ?h = "\<lambda>_. Inr (([7], None), 1)"
  have "ready silent_conn" "0 \<le> BlockSize sample_rrq"
    by (simp_all add: ready_def silent_conn_def opened_socket_def sample_rrq_def)
  moreover have "length (transfer_packets sample_tftp sample_rrq 1 [7]) = 1"
    by (simp add: transfer_packets_def wants_oack_def sample_rrq_def data_packets_rec block_bytes_def)
  moreover have "write_attempts sample_tftp = 5" "write_timeout sample_tftp = 2 * 10 ^ 9" "Clock silent_conn = 7"
    by (simp_all add: write_attempts_def write_timeout_def sample_tftp_def silent_conn_def)
  ultimately show ?thesis
    using transfer_ends_in_time [where c = silent_conn and handler = ?h and req = sample_rrq and s = sample_tftp] by fastforce
qed

end
