(* ===== verification/Dhcp6_Run.thy ===== *)
theory Dhcp6_Run
  imports Dhcp6_Server Server_V6
begin

text \<open>
  The whole of \<^verbatim>\<open>ServerV6.Serve\<close> (\<^verbatim>\<open>server/server.go\<close>): the socket is opened, the server gets
  its identifier, the serving loop runs, the socket is closed when the loop has returned. What a client gets from it.
\<close>

section \<open>Running the server\<close>

text \<open>
  A loop that waits keeps the socket; one that has returned reports its error, upon which the socket is closed; a panic ends
  the process.
\<close>

definition serve_v6 ::
    "(slice \<Rightarrow> string) \<Rightarrow> string + interface6 list \<Rightarrow> system \<Rightarrow> nat \<Rightarrow> v6_settings \<Rightarrow> 'p server6 \<Rightarrow>
     (nat \<Rightarrow> options6 \<Rightarrow> u16 list) \<Rightarrow> (bytes \<Rightarrow> bytes \<Rightarrow> bool) \<Rightarrow> net_event list \<Rightarrow> 'p \<Rightarrow>
     (string + interface6 \<times> serve_end \<times> 'p \<times> (bytes \<times> bytes) list) \<times> request list" where
  "serve_v6 render interfaces sys seconds settings s ord takes es pool =
     (case start_v6 render interfaces sys seconds settings of
        (Inl e, rs) \<Rightarrow> (Inl e, rs)
      | (Inr (ifi, duid, _), rs) \<Rightarrow>
          (case serve_dhcp6 (s\<lparr>Duid := duid\<rparr>) ord takes (nat (ifIndex6 ifi)) es pool [] of
             (Stopped e, pool', sent) \<Rightarrow> (Inr (ifi, Stopped e, pool', sent), rs @ [CloseSocket])
           | (r, pool', sent) \<Rightarrow> (Inr (ifi, r, pool', sent), rs)))"

definition shutdown_v6 :: "unit lifecycle \<Rightarrow> unit lifecycle" where
  "shutdown_v6 st = shutdown st"

lemma serve_v6_run:
  assumes "serve_v6 render interfaces sys seconds settings s ord takes es pool = (Inr (ifi, r, pool', sent), rs)"
  shows "serve_dhcp6 (s\<lparr>Duid := set_duid seconds (ifHardware6 ifi)\<rparr>) ord takes (nat (ifIndex6 ifi)) es pool [] = (r, pool', sent)"
    and "\<exists>ws. new_conn6 render interfaces sys (v6Address settings) (v6Port settings) = (Inr ifi, ws) \<and>
      rs = ws @ (case r of Stopped e \<Rightarrow> [CloseSocket] | _ \<Rightarrow> [])"
  using assms by (auto simp: serve_v6_def start_v6_def split: prod.splits sum.splits serve_end.splits)

section \<open>The boot URL in a response\<close>

lemma optional_not_url:
  "filter (\<lambda>x. ID x = OptBootfileURL) (http_client_options arch) = []"
  "filter (\<lambda>x. ID x = OptBootfileURL) (dns_options dns) = []"
  "filter (\<lambda>x. ID x = OptBootfileURL) (case preference of None \<Rightarrow> [] | Some v \<Rightarrow> [make_option OptPreference (exact v)]) = []"
  by (simp_all split: option.split add: http_client_options_def dns_options_def make_dns_servers_def)

text \<open>
  Every response has the URL the configuration gives for this client, but the confirmation of a Release, and the
  refusal of a Solicit that the pool has too few addresses for.
\<close>

lemma response_boot_url:
  assumes "build_response reserve release b p duid cfg pool = Some (Some m, e, pool')"
  shows "Type6 p = MsgRelease6 \<and> Options6 m OptStatusCode = Some [make_option OptStatusCode (exact ([0, 0] @ bytes_of ''Release received.''))] \<or>
    Type6 p \<noteq> MsgRelease6 \<and> (\<exists>url. boot_url p cfg = Some (Inr url) \<and>
      (Options6 m OptBootfileURL = Some [make_option OptBootfileURL (exact url)] \<or>
       Type6 p = MsgSolicit \<and> (\<exists>cid ids leases err. client_id (Options6 p) = Some cid \<and> ia_na_ids (Options6 p) = Some ids \<and>
         reserve (fst cid) (map fst ids) pool = Some (leases, Some err, pool') \<and> Options6 m OptStatusCode = Some [make_status 2 err])))"
  using assms
proof (cases rule: build_response_cases)
  case advertise
  then show ?thesis
    by (auto simp: make_msg_advertise_def bind_eq_Some_conv collect_lookup Let_def filter_ias optional_not_url message_types split: option.split)
next
  case no_addrs
  then show ?thesis
    by (auto simp: make_msg_advertise_with_no_addrs_def collect_lookup Let_def message_types)
next
  case reply
  then show ?thesis
    by (auto simp: make_msg_reply_def bind_eq_Some_conv collect_lookup Let_def filter_ias optional_not_url message_types)
next
  case information
  then show ?thesis
    by (auto simp: make_msg_information_request_reply_def collect_lookup Let_def optional_not_url message_types)
next
  case released
  have "copy_over (replicate 17 0) (bytes_of ''Release received.'') = bytes_of ''Release received.''" by code_simp
  with released show ?thesis
    by (auto simp: make_msg_release_reply_def collect_lookup Let_def)
qed

section \<open>Properties\<close>

lemma pool_message_short: "random_reserve rng c ids pool = Some (as, Some err, pool') \<Longrightarrow> length err < 65000"
  by (auto simp: random_reserve_def pool_message_def)

lemma response_error_short:
  assumes "build_response (random_reserve rng) release b p duid cfg pool = Some (Some m, e, pool')"
  shows "length (case e of None \<Rightarrow> [] | Some err \<Rightarrow> err) < 65000"
  using assms by (cases rule: build_response_cases) (auto dest: pool_message_short split: option.split)

text \<open>What the source of a packet gets for it, decoded.\<close>

definition answer6 ::
    "bytes \<Rightarrow> boot_configuration \<Rightarrow> (int \<Rightarrow> nat \<Rightarrow> u64) \<Rightarrow> pool \<Rightarrow> packet6 \<Rightarrow> packet6 \<Rightarrow> bool" where
  "answer6 duid cfg rng pool p m \<longleftrightarrow> Type6 m = (if Type6 p = MsgSolicit then MsgAdvertise else MsgReply) \<and>
     TransactionID6 m = TransactionID6 p \<and> view6 (Options6 m) 2 = Some [(2, word_of_nat (length duid), duid)] \<and>
     (Type6 p = MsgRelease6 \<and> view6 (Options6 m) 13 = Some [(13, 19, [0, 0] @ bytes_of ''Release received.'')] \<or>
      Type6 p \<noteq> MsgRelease6 \<and> (\<exists>url. boot_url p cfg = Some (Inr url) \<and>
        (view6 (Options6 m) 59 = Some [(59, word_of_nat (length url), url)] \<or>
         Type6 p = MsgSolicit \<and> (\<exists>cid ids leases err pool' l. client_id (Options6 p) = Some cid \<and> ia_na_ids (Options6 p) = Some ids \<and>
           random_reserve rng (fst cid) (map fst ids) pool = Some (leases, Some err, pool') \<and>
           view6 (Options6 m) 13 = Some [(13, l, [0, 2] @ bytes_of err)]))))"

lemma response_answer6:
  assumes "unmarshal6 (bs, []) n = Inr p"
    and "build_response (random_reserve rng) release b p duid cfg pool = Some (Some m, e, pool')"
    and "modest cfg duid" and "\<And>opts. finite (dom opts) \<Longrightarrow> enumerates (ord opts) opts"
  shows "\<exists>m'. unmarshal6 (marshal6 (ord (Options6 m)) m, []) (length (marshal6 (ord (Options6 m)) m)) = Inr m' \<and> answer6 duid cfg rng pool p m'"
proof -
  note small = response_error_short [OF assms(2)]
  then have "finite (dom (Options6 m))"
    by (intro response_framed(3) [OF assms(2,3) unmarshal6_Inr(3) [OF assms(1)]]) auto
  then obtain m' where m': "unmarshal6 (marshal6 (ord (Options6 m)) m, []) (length (marshal6 (ord (Options6 m)) m)) = Inr m'"
      "Type6 m' = Type6 m" "TransactionID6 m' = TransactionID6 p" "view6 (Options6 m') = view6 (Options6 m)"
    using response_readable [OF assms(1-3) small] assms(4) by blast
  have server: "view6 (Options6 m) 2 = Some [(2, word_of_nat (length duid), duid)]"
      "Type6 m = (if Type6 p = MsgSolicit then MsgAdvertise else MsgReply)"
    using response_answers [OF assms(2)] by (auto simp: answers_def view6_def seen_def make_option_def exact_def)
  have two: "put16 2 = [0, 2]" by code_simp
  have "answer6 duid cfg rng pool p m'"
    unfolding answer6_def m'(2-4)
  proof (intro conjI server refl)
    show "Type6 p = MsgRelease6 \<and> view6 (Options6 m) 13 = Some [(13, 19, [0, 0] @ bytes_of ''Release received.'')] \<or>
      Type6 p \<noteq> MsgRelease6 \<and> (\<exists>url. boot_url p cfg = Some (Inr url) \<and>
        (view6 (Options6 m) 59 = Some [(59, word_of_nat (length url), url)] \<or>
         Type6 p = MsgSolicit \<and> (\<exists>cid ids leases err pool' l. client_id (Options6 p) = Some cid \<and> ia_na_ids (Options6 p) = Some ids \<and>
           random_reserve rng (fst cid) (map fst ids) pool = Some (leases, Some err, pool') \<and>
           view6 (Options6 m) 13 = Some [(13, l, [0, 2] @ bytes_of err)])))"
      using response_boot_url [OF assms(2)]
      by (elim disjE conjE exE) (auto simp: view6_def seen_def make_option_def make_status_def exact_def two)
  qed
  with m'(1) show ?thesis by blast
qed

text \<open>What one packet is answered with, in one event and in the crash that may end the run.\<close>

lemma packet_answered:
  assumes "handle_packet s ord takes p src pool = (out, q)" and "unmarshal6 (bs, []) n = Inr p"
    and "reserveOp s = random_reserve rng" and "modest (BootConfig s) (Duid s)"
    and "\<And>opts. finite (dom opts) \<Longrightarrow> enumerates (ord opts) opts" and "out \<noteq> []"
  shows "acceptable p (Duid s) \<and> (\<exists>b m. out = [(src, b)] \<and> unmarshal6 (b, []) (length b) = Inr m \<and>
    answer6 (Duid s) (BootConfig s) rng pool p m)"
proof -
  obtain m e pool' where m: "acceptable p (Duid s)"
      "build_response (reserveOp s) (releaseOp s) (PacketBuilder s) p (Duid s) (BootConfig s) pool = Some (Some m, e, pool')"
      "out = [(src, marshal6 (ord (Options6 m)) m)]"
    using handle_packet_sends(1) [OF assms(1,2,6)] by blast
  from response_answer6 [OF assms(2) m(2) [unfolded assms(3)] assms(4,5)] m(1,3) show ?thesis by blast
qed

text \<open>
  C11. A DHCPv6 server answers the packets it gets, each on its own. Whatever arrives, the datagrams sent fall to the events in their
  order, at most one to each, and a datagram sent for an event goes to the source of the datagram received there, which is
  addressed to the server and decodes to an acceptable packet. Its receiver can decode it: it finds the type that answers
  its own, its transaction id, the identifier of the server, made from the hardware address of the interface that has the
  configured address, and the URL the configuration gives it, unless it released its addresses, which is confirmed, or the
  pool, after the calls of the packets received before, has too few addresses for its Solicit, which is then refused with the
  pool's message. An event before the end of the run gets no answer only if its datagram is not for the server, its packet is not
  acceptable, the configuration fails, or the network does not take a datagram for the source. The
  addresses come from the random pool, the values of the configuration fit their options, and the runtime ranges over a map in
  some order without repetition.
\<close>

theorem v6_clients_answered:
  assumes "serve_v6 render interfaces sys seconds settings s ord takes es pool = (Inr (ifi, r, pool', sent), rs)"
    and "reserveOp s = random_reserve rng" and "releaseOp s = release_addresses"
    and "duid = [0, 1, 0, 1] @ put32 (word_of_nat seconds) @ ifHardware6 ifi" and "modest (BootConfig s) duid"
    and "\<forall>k opts. finite (dom opts) \<longrightarrow> enumerates (ord k opts) opts"
  shows "\<exists>gots outss. sent = concat outss \<and> length outss \<le> length es \<and> length outss \<le> length gots + 1 \<and>
    packet_log (nat (ifIndex6 ifi)) es gots \<and> (r = Waiting \<longrightarrow> length gots = length es) \<and>
    (\<forall>i < length outss. outss ! i = [] \<or> (\<exists>d j dst src residue p pool1 b m.
       es ! i = Datagram d j dst src \<and> for_us (nat (ifIndex6 ifi)) j dst \<and> length residue = 1500 \<and>
       unmarshal6 (copy_over residue d, []) (min (length d) 1500) = Inr p \<and> acceptable p duid \<and>
       pool_run rng pool (all_calls duid (BootConfig s) (take i gots)) pool1 \<and>
       outss ! i = [(src, b)] \<and> unmarshal6 (b, []) (length b) = Inr m \<and> answer6 duid (BootConfig s) rng pool1 p m)) \<and>
    (\<forall>i < length gots. i < length outss \<and> (outss ! i \<noteq> [] \<or> (case gots ! i of None \<Rightarrow> True | Some p \<Rightarrow>
       \<not> acceptable p duid \<or> (\<exists>err. boot_url p (BootConfig s) = Some (Inl err)) \<or> (\<exists>d j dst src b. es ! i = Datagram d j dst src \<and> \<not> takes src b))))"
proof -
  let ?s = "s\<lparr>Duid := duid\<rparr>" and ?i = "nat (ifIndex6 ifi)"
  have fields: "Duid ?s = duid" "BootConfig ?s = BootConfig s" "reserveOp ?s = random_reserve rng" "releaseOp ?s = release_addresses"
    using assms(2,3) by simp_all
  have "serve_dhcp6 ?s ord takes ?i es pool [] = (r, pool', sent)"
    using serve_v6_run(1) [OF assms(1)] unfolding set_duid_eq assms(4) .
  from serve_run [OF this] obtain n gots outss fin where run: "n \<le> length es" "r = Waiting \<longrightarrow> n = length es"
      "all_handled ?s ord takes ?i (take n es) gots pool outss pool'" "sent = [] @ concat outss @ fin"
      "fin = [] \<or> crashed_on ?s ord takes ?i (drop n es) pool' fin"
    by blast
  have lens: "length gots = n" "length outss = n" using all_handled_length [OF run(3)] run(1) by simp_all
  have answered: "outs = [] \<or> (\<exists>d j dst src residue p pool1 b m.
       es ! i = Datagram d j dst src \<and> for_us ?i j dst \<and> length residue = 1500 \<and>
       unmarshal6 (copy_over residue d, []) (min (length d) 1500) = Inr p \<and> acceptable p duid \<and>
       pool_run rng pool (all_calls duid (BootConfig s) (take i gots)) pool1 \<and>
       outs = [(src, b)] \<and> unmarshal6 (b, []) (length b) = Inr m \<and> answer6 duid (BootConfig s) rng pool1 p m)"
    if ev: "received6 ?i (es ! i) p src" "handle_packet ?s (ord k) takes p src pool1 = (outs, q)"
      "all_handled ?s ord takes ?i (take i es) (take i gots) pool (take i outss) pool1" for i p src k outs q pool1
  proof (cases "outs = []")
    case False
    obtain d j dst residue where d: "es ! i = Datagram d j dst src" "for_us ?i j dst" "length residue = 1500"
        "unmarshal6 (copy_over residue d, []) (min (length d) 1500) = Inr p"
      using ev(1) unfolding received6_def by blast
    have "\<And>opts. finite (dom opts) \<Longrightarrow> enumerates (ord k opts) opts" using assms(6) by blast
    from packet_answered [OF ev(2) d(4) fields(3) _ this False] assms(5) obtain b m where
        "acceptable p duid" "outs = [(src, b)]" "unmarshal6 (b, []) (length b) = Inr m" "answer6 duid (BootConfig s) rng pool1 p m"
      unfolding fields(1,2) by blast
    with d all_handled_calls [OF ev(3) fields(3,4), unfolded fields(1,2)] show ?thesis by blast
  qed simp
  have event: "\<exists>pool1 pool2. all_handled ?s ord takes ?i (take i es) (take i gots) pool (take i outss) pool1 \<and>
      handled6 ?s ord takes ?i (es ! i) (gots ! i) pool1 (outss ! i) pool2" if "i < n" for i
    using all_handled_nth [OF run(3), of i] that run(1) by simp
  let ?Q = "\<lambda>outs i. outs = [] \<or> (\<exists>d j dst src residue p pool1 b m.
       es ! i = Datagram d j dst src \<and> for_us ?i j dst \<and> length residue = 1500 \<and>
       unmarshal6 (copy_over residue d, []) (min (length d) 1500) = Inr p \<and> acceptable p duid \<and>
       pool_run rng pool (all_calls duid (BootConfig s) (take i gots)) pool1 \<and>
       outs = [(src, b)] \<and> unmarshal6 (b, []) (length b) = Inr m \<and> answer6 duid (BootConfig s) rng pool1 p m)"
  have each: "?Q (outss ! i) i" if "i < n" for i
  proof -
    obtain pool1 pool2 where i: "all_handled ?s ord takes ?i (take i es) (take i gots) pool (take i outss) pool1"
        "handled6 ?s ord takes ?i (es ! i) (gots ! i) pool1 (outss ! i) pool2" using event [OF \<open>i < n\<close>] by blast
    show ?thesis
    proof (cases "gots ! i")
      case (Some p)
      with i(2) obtain src k where "received6 ?i (es ! i) p src" "handle_packet ?s (ord k) takes p src pool1 = (outss ! i, Some pool2)"
        by (auto simp: handled6_def)
      from answered [OF this i(1)] show ?thesis .
    qed (use i(2) in \<open>simp add: handled6_def\<close>)
  qed
  have none: "outss ! i \<noteq> [] \<or> (case gots ! i of None \<Rightarrow> True | Some p \<Rightarrow>
       \<not> acceptable p duid \<or> (\<exists>err. boot_url p (BootConfig s) = Some (Inl err)) \<or> (\<exists>d j dst src b. es ! i = Datagram d j dst src \<and> \<not> takes src b))" if "i < n" for i
  proof -
    obtain pool1 pool2 where i: "handled6 ?s ord takes ?i (es ! i) (gots ! i) pool1 (outss ! i) pool2"
      using event [OF \<open>i < n\<close>] by blast
    show ?thesis
    proof (cases "gots ! i")
      case (Some p)
      with i obtain src k where p: "received6 ?i (es ! i) p src" "handle_packet ?s (ord k) takes p src pool1 = (outss ! i, Some pool2)"
        by (auto simp: handled6_def)
      obtain d j dst bs m where "es ! i = Datagram d j dst src" "unmarshal6 (bs, []) m = Inr p" using p(1) unfolding received6_def by blast
      from handle_packet_sends(2) [OF p(2) this(2)] this(1) Some show ?thesis unfolding fields(1,2) by (simp only: option.case) blast
    qed simp
  qed
  have packets: "packet_log ?i es gots" by (rule all_handled_packets [OF run(3,1)])
  show ?thesis
  proof (cases "fin = []")
    case True
    then have "sent = concat outss" using run(4) by simp
    with run(1,2) packets each none lens show ?thesis
      by (intro exI [of _ gots] exI [of _ outss] conjI allI impI) simp_all
  next
    case False
    then obtain ev rest p src k where crash: "drop n es = ev # rest" "received6 ?i ev p src"
        "handle_packet ?s (ord k) takes p src pool' = (fin, None)"
      using run(5) unfolding crashed_on_def by blast
    then have n: "n < length es" "es ! n = ev"
      using length_drop [of n es] nth_via_drop [OF crash(1)] by auto
    have "?Q fin n"
      by (rule answered [OF crash(2) [folded n(2)] crash(3)]) (use run(3) lens in simp)
    then have "?Q ((outss @ [fin]) ! i) i" if "i < length (outss @ [fin])" for i
      using each [of i] that lens by (cases "i = n") (simp_all add: nth_append del: all_handled_length)
    moreover have "(outss @ [fin]) ! i = outss ! i" if "i < n" for i using that lens by (simp add: nth_append)
    ultimately show ?thesis
      using run(2,4) packets none lens n(1) by (intro exI [of _ gots] exI [of _ "outss @ [fin]"] conjI allI impI) simp_all
  qed
qed

text \<open>For the witness: options that are no associations never trouble the log, and a released address is confirmed.\<close>

lemma readable_without_associations:
  assumes "\<And>k xs x. opts k = Some xs \<Longrightarrow> x \<in> set xs \<Longrightarrow> ID x \<noteq> 3"
  shows "\<exists>ls. human_readable ks opts = Some ls"
proof -
  have all: "\<forall>x \<in> set xs. ID x \<noteq> 3 \<Longrightarrow> \<exists>ls. human_readable_all xs = Some ls" for xs
    by (induction xs) (auto simp: human_readable_one_def)
  have "\<forall>x \<in> set (in_order ks opts). ID x \<noteq> 3"
    by (auto simp: in_order_def split: option.splits dest!: assms [OF sym])
  then show ?thesis unfolding human_readable_def by (rule all)
qed

lemma release_confirmed:
  assumes "takes src (marshal6 (ord (Options6 m)) m)"
    and "m = make_msg_release_reply [1, 2, 3] (Duid s) (exact [])" and "releaseOp s [] [] pool = pool"
  shows "handle_packet s ord takes \<lparr>Type6 = 8, TransactionID6 = [1, 2, 3], Options6 = Map.empty\<rparr> src pool =
    ([(src, marshal6 (ord (Options6 m)) m)], Some pool)"
proof -
  have "\<exists>ls. human_readable (ord (Options6 m)) (Options6 m) = Some ls"
    by (rule readable_without_associations)
      (auto simp: assms(2) make_msg_release_reply_def collect_lookup Let_def split: if_splits)
  moreover have "\<exists>ls. human_readable (ord Map.empty) Map.empty = Some ls"
    by (rule readable_without_associations) simp
  ultimately show ?thesis
    using assms by (auto simp: handle_packet_def should_discard_def build_response_def respond_release_def message_types
        client_id_def first_value_def ia_na_ids_def Let_def exact_def)
qed

theorem v6_clients_answered_witness:
  "\<exists>pool' d rs m. serve_v6 (\<lambda>ip. if ip = Some [1] then ''::1'' else ''<nil>'') (Inr [sample_ifi]) (\<lambda>_. None) 7
       (new_server_v6\<lparr>v6Address := ''::1''\<rparr>) sample_server6 (\<lambda>_ opts. sorted_list_of_set (dom opts)) (\<lambda>_ _. True)
       [Datagram [8, 1, 2, 3] 2 dhcp6_group [7]] sample_pool6 = (Inr (sample_ifi, Waiting, pool', [d]), rs) \<and>
     unmarshal6 (snd d, []) (length (snd d)) = Inr m \<and> (Type6 m = MsgAdvertise \<or> Type6 m = MsgReply) \<and>
     view6 (Options6 m) 2 = Some [(2, 14, [0, 1, 0, 1] @ put32 7 @ [2, 0, 0, 0, 0, 9])]"
proof -
  let ?ord = "\<lambda>_ :: nat. \<lambda>opts :: options6. sorted_list_of_set (dom opts)"
  let ?s = "sample_server6\<lparr>Duid := set_duid 7 (ifHardware6 sample_ifi)\<rparr>"
  let ?m = "make_msg_release_reply [1, 2, 3] (Duid ?s) (exact [])"
  let ?d = "([7 :: byte], marshal6 (?ord 1 (Options6 ?m)) ?m)"
  have "releaseOp ?s [] [] sample_pool6 = sample_pool6"
    by (simp add: sample_server6_def)
  then have "handle_packet ?s (?ord 1) (\<lambda>_ _. True) \<lparr>Type6 = 8, TransactionID6 = [1, 2, 3], Options6 = Map.empty\<rparr> [7] sample_pool6 =
      ([?d], Some sample_pool6)"
    by (intro release_confirmed) simp_all
  then have loop: "serve_dhcp6 ?s ?ord (\<lambda>_ _. True) 2 [Datagram [8, 1, 2, 3] 2 dhcp6_group [7]] sample_pool6 [] = (Waiting, sample_pool6, [?d])"
    by (subst serve_dhcp6.simps) (simp add: bare_release serve_dhcp6.simps [of _ _ _ _ "[]"] recv_nothing)
  obtain st rs where "start_v6 (\<lambda>ip. if ip = Some [1] then ''::1'' else ''<nil>'') (Inr [sample_ifi]) (\<lambda>_. None) 7
      (new_server_v6\<lparr>v6Address := ''::1''\<rparr>) = (Inr (sample_ifi, set_duid 7 (ifHardware6 sample_ifi), st), rs)"
    by (simp add: start_v6_def new_conn6_def sample_ifi_def Let_def)
  with loop have run: "serve_v6 (\<lambda>ip. if ip = Some [1] then ''::1'' else ''<nil>'') (Inr [sample_ifi]) (\<lambda>_. None) 7
      (new_server_v6\<lparr>v6Address := ''::1''\<rparr>) sample_server6 ?ord (\<lambda>_ _. True)
      [Datagram [8, 1, 2, 3] 2 dhcp6_group [7]] sample_pool6 = (Inr (sample_ifi, Waiting, sample_pool6, [?d]), rs)"
    by (simp add: serve_v6_def sample_ifi_def)
  have pool: "reserveOp sample_server6 = random_reserve demo_rng" "releaseOp sample_server6 = release_addresses"
    by (simp_all add: sample_server6_def)
  have fits: "modest (BootConfig sample_server6) ([0, 1, 0, 1] @ put32 (word_of_nat 7) @ ifHardware6 sample_ifi)"
    using sample_modest by (simp add: modest_def sample_server6_def put32_def sample_ifi_def)
  have order: "\<forall>k opts. finite (dom opts) \<longrightarrow> enumerates (?ord k opts) opts"
    by (simp add: enumerates_def)
  obtain gots outss where o: "[?d] = concat outss" "\<And>i. i < length outss \<Longrightarrow> outss ! i = [] \<or> (\<exists>src b m p pool1. outss ! i = [(src, b)] \<and>
      unmarshal6 (b, []) (length b) = Inr m \<and>
      answer6 ([0, 1, 0, 1] @ put32 (word_of_nat 7) @ ifHardware6 sample_ifi) (BootConfig sample_server6) demo_rng pool1 p m)"
    using v6_clients_answered [OF run pool refl fits order] by (elim exE conjE) (rule that, assumption, blast)
  have "?d \<in> set (concat outss)" unfolding o(1) [symmetric] by simp
  then obtain outs where "outs \<in> set outss" "?d \<in> set outs" unfolding set_concat by blast
  then have "\<exists>i < length outss. ?d \<in> set (outss ! i)" by (metis in_set_conv_nth)
  then obtain m p pool1 where "unmarshal6 (snd ?d, []) (length (snd ?d)) = Inr m"
      "answer6 ([0, 1, 0, 1] @ put32 (word_of_nat 7) @ ifHardware6 sample_ifi) (BootConfig sample_server6) demo_rng pool1 p m"
    using o(2) by fastforce
  then show ?thesis
    using run by (intro exI [of _ sample_pool6] exI [of _ ?d] exI [of _ rs] exI [of _ m])
      (auto simp: sample_ifi_def answer6_def put32_def)
qed

end
