(* ===== verification/Example_Boot.thy ===== *)
theory Example_Boot
  imports Booters Server_Lifecycle
begin

text \<open>
  The example command (\<^verbatim>\<open>examples/boot.go\<close>): a server for the Debian installer or for netboot.xyz, put
  together from the library's parts. \<open>asset\<close> gives the bundled binaries.
\<close>

datatype example_outcome =
    ExampleUsage
  | ExampleInvalid
  | ExampleServes boot_server "string option \<times> action list"
  | ExampleNilBooter string

definition debian_netboot :: "string \<Rightarrow> string \<Rightarrow> string \<Rightarrow> string \<Rightarrow> string" where
  "debian_netboot mirror version arch file =
     mirror @ ''/dists/'' @ version @ ''/main/installer-'' @ arch @ ''/current/images/netboot/debian-installer/'' @ arch @ ''/'' @ file"

definition debian_kernel :: string where
  "debian_kernel = debian_netboot ''http://deb.debian.org/debian'' ''stable'' ''amd64'' ''linux''"

definition debian_initrd :: string where
  "debian_initrd = debian_netboot ''http://deb.debian.org/debian'' ''stable'' ''amd64'' ''initrd.gz''"

definition example_spec :: "string \<Rightarrow> spec option" where
  "example_spec arg =
     (if arg = ''boot'' then
        Some \<lparr>Kernel = debian_kernel, Initrd = [debian_initrd], Efi = [], Cmdline = [], BootMessage = [], IpxeScript = []\<rparr>
      else if arg = ''efi'' then
        Some \<lparr>Kernel = [], Initrd = [], Efi = ''https://boot.netboot.xyz/ipxe/netboot.xyz.efi'', Cmdline = [], BootMessage = [],
          IpxeScript = []\<rparr>
      else None)"

text \<open>
  The error of the booter's constructor is dropped, which leaves the server without a booter. \<open>refuses\<close> is the
  system's answer to opening the listeners.
\<close>

definition example_main ::
    "string list template \<Rightarrow> outside \<Rightarrow> (string \<Rightarrow> string) \<Rightarrow> 'u url_package \<Rightarrow> (string \<Rightarrow> bytes) \<Rightarrow>
     (listener \<Rightarrow> string \<Rightarrow> string \<Rightarrow> string option) \<Rightarrow> string list \<Rightarrow> example_outcome" where
  "example_main run w quote L asset refuses args =
     (if length args < 2 then ExampleUsage
      else case example_spec (args ! 1) of
          None \<Rightarrow> ExampleInvalid
        | Some booterSpec \<Rightarrow>
            (case make_static_booter run booterSpec of
               Inl e \<Rightarrow> ExampleNilBooter e
             | Inr b \<Rightarrow>
                 let ret = set_default_firmwares asset \<lparr>Booter = static_booter_of w quote L b, Address = [], HTTPPort = 0,
                       Ipxe = Map.empty, DHCPPort = 0, TFTPPort = 0, PXEPort = 0\<rparr>;
                     ret = with_defaults ret
                 in ExampleServes ret (open_listeners True refuses ret)))"

lemma example_boot_serves:
  assumes "example_main run w quote L asset refuses [prog, ''boot''] = ExampleServes s opening"
  obtains b sp where "make_static_booter run sp = Inr b" and "Efi sp = []" and "Kernel sp = debian_kernel"
    and "Booter s = static_booter_of w quote L b" and "HTTPPort s = 80" and "Ipxe s FirmwareEFI64 = Some (Some (asset ''amd64.ipxe.efi''))"
    and "opening = open_listeners True refuses s"
  using assms
  by (auto simp: example_main_def example_spec_def Let_def with_defaults_def set_default_firmwares_def split: sum.splits)

end
