(* ===== verification/Spec2Isabelle.thy ===== *)
theory Spec2Isabelle
  imports Dhcp4_Packet Dhcp6_Exchange Dhcp6_Server Tftp Server_Pxe Server_Tftp Server_Http Booters Server_V6 Server_Log Machine_Progress Pcap Socket_Life Tftp_Time Dhcp6_Run Example_Boot
begin

text \<open>
  A verification of \<^verbatim>\<open>kairos-io/netboot\<close>, the library behind Pixiecore: a server that boots machines over
  the network. A machine asks for a boot offer by DHCP, fetches an iPXE binary by TFTP, asks again from iPXE, is offered the
  URL of a script, fetches the script by HTTP and with it the kernel and the initrds. The definitions are translated from
  the Go sources under \<^verbatim>\<open>src/\<close> and keep their names, written with underscores.

  \<^bold>\<open>Conventions.\<close> A \<^verbatim>\<open>[]byte\<close> is a list of 8-bit words, with \<open>None\<close> for nil where nil
  matters (\<open>slice\<close>) and with its spare capacity where re-slicing can reach it (\<open>gslice\<close>). Sized integers are
  words, \<^verbatim>\<open>int\<close> is \<open>int\<close> or \<open>nat\<close>, strings are byte strings. A function with an error result
  returns \<open>error + value\<close>; an operation that can panic returns an option, or a sum whose error side has
  \<open>Panic\<close>. Maps are partial functions; where the order of ranging over a map shows, it is an argument. State is
  passed explicitly; the network is the list of what successive reads return, and a server that has read them all waits.

  \<^bold>\<open>Theories and sources.\<close>
  \<^item> \<^verbatim>\<open>Netboot_Prelude\<close>: bytes, big-endian words, results, the collections \<open>wire\<close> and
    \<open>case_conv\<close>, and wire formats (locales \<open>codec\<close> and \<open>stable_codec\<close>; the option table, the DHCPv4
    packet, the DHCPv6 packet and the TFTP request are the interpretations).
    \<^verbatim>\<open>Go_Slice\<close>, \<^verbatim>\<open>Go_Std\<close>, \<^verbatim>\<open>Go_Path\<close>, \<^verbatim>\<open>Go_Url\<close>:
    what the program uses of Go's slices, \<^verbatim>\<open>strconv\<close>, \<^verbatim>\<open>strings\<close>, \<^verbatim>\<open>net\<close>,
    \<^verbatim>\<open>path/filepath\<close>, \<^verbatim>\<open>net/url\<close> and \<^verbatim>\<open>fmt\<close>.
  \<^item> \<^verbatim>\<open>Dhcp4_Options\<close>, \<^verbatim>\<open>Dhcp4_Packet\<close>: \<^verbatim>\<open>dhcp4/options.go\<close> and
    \<^verbatim>\<open>dhcp4/packet.go\<close>. The option table and the packet, their encoders with the overloading of the file and
    sname fields, their decoders. Shown: both round trips, exact sizes, which tables and packets are accepted.
  \<^item> \<^verbatim>\<open>Dhcp4_Conn\<close>, \<^verbatim>\<open>Sockets\<close>, \<^verbatim>\<open>Socket_Life\<close>: \<^verbatim>\<open>dhcp4/conn.go\<close>,
    \<^verbatim>\<open>dhcp4/conn_linux.go\<close>, \<^verbatim>\<open>dhcp4/conn_unsupported.go\<close>, \<^verbatim>\<open>dhcp6/conn.go\<close>. Both
    kinds of socket behind one interface (locale \<open>datagram_socket\<close>), receiving and sending of packets, the
    constructors as sequences of requests to the system, the packet filter; Close and the deadlines through the interface
    \<^verbatim>\<open>conn\<close> (locale \<open>dhcp_socket\<close>), over a timed history of what happens to a socket. Shown: what is sent is
    received, where it is sent, that no constructor leaks a socket, that the filter selects its port, that a deadline and
    a Close end what waits on a socket.
  \<^item> \<^verbatim>\<open>Dhcp6_Options\<close>, \<^verbatim>\<open>Dhcp6_Fields\<close>, \<^verbatim>\<open>Dhcp6_Packet\<close>:
    \<^verbatim>\<open>dhcp6/options.go\<close>, \<^verbatim>\<open>dhcp6/packet.go\<close>. Options with their re-slicing, packets, validation,
    rendering for logs. Shown: round trip, exactly which byte sequences are rejected and which panic.
  \<^item> \<^verbatim>\<open>Address_Pool\<close>: \<^verbatim>\<open>dhcp6/pool/random_address_pool.go\<close>. The pool's operations as atomic
    steps (they run under its mutex) over given clock readings and random draws. Locale \<open>address_pool\<close> states what a
    server needs of a pool. Shown: invariants over all histories, distinct leases, renewal, answers, and that a reservation
    returns under fair draws (the search is a \<^theory_text>\<open>partial_function\<close>, since draws may repeat for ever).
  \<^item> \<^verbatim>\<open>Dhcp6_Builder\<close>, \<^verbatim>\<open>Dhcp6_Exchange\<close>, \<^verbatim>\<open>Dhcp6_Server\<close>, \<^verbatim>\<open>Server_V6\<close>,
    \<^verbatim>\<open>Dhcp6_Run\<close>:
    \<^verbatim>\<open>dhcp6/boot_configuration.go\<close>, \<^verbatim>\<open>dhcp6/packet_builder.go\<close>,
    \<^verbatim>\<open>server/dhcpv6.go\<close>, and \<^verbatim>\<open>ServerV6\<close> of \<^verbatim>\<open>server/server.go\<close>. Responses,
    the serving loop, starting, and the run of the whole server. Shown: every interface of a request is answered, what an Advertise offers is
    what the Reply assigns whatever other clients reserve in between, every datagram sent answers the packet of
    its own event and decodes at its client to the identifier and the boot URL it should carry, the pool goes through exactly the
    calls the received packets ask for and so keeps its invariant (locale \<open>answering_pool\<close>, an extension of
    \<open>address_pool\<close>). A datagram sent before the server crashes stays sent.
  \<^item> \<^verbatim>\<open>Tftp\<close>, \<^verbatim>\<open>Tftp_Time\<close>: \<^verbatim>\<open>tftp/tftp.go\<close>. Requests, negotiation, the
    lock-step transfer with its retransmissions, first over the sequence of what reads return, then over a clock with the
    deadlines the code sets. Shown: blocks go out in order each at least once and only after the acknowledgement of the one before,
    success means that the acknowledgements of all packets were read in order, an acknowledging client receives the file whole, every timed transfer is one of the untimed kind and ends within the
    timeout for each attempt of each packet, whatever the client does.
  \<^item> \<^verbatim>\<open>Server_Events\<close>, \<^verbatim>\<open>Server_Dhcp\<close>, \<^verbatim>\<open>Server_Pxe\<close>,
    \<^verbatim>\<open>Server_Tftp\<close>, \<^verbatim>\<open>Server_Http\<close> with \<^verbatim>\<open>Cmdline\<close>,
    \<^verbatim>\<open>Server_Log\<close>, \<^verbatim>\<open>Machine_Progress\<close>: \<^verbatim>\<open>server/logging.go\<close>, \<^verbatim>\<open>server/dhcp.go\<close>,
    \<^verbatim>\<open>server/pxe.go\<close>, \<^verbatim>\<open>server/tftp.go\<close> and \<^verbatim>\<open>tftp/handlers.go\<close>,
    \<^verbatim>\<open>server/http.go\<close> and \<^verbatim>\<open>utils/common.go\<close>, and the log functions. The services share the
    record \<open>boot_server\<close> and the state \<open>server_state\<close>: event log, datagrams sent, time. What a
    connection takes of an HTTP body is part of the request (\<open>Takes\<close>), since it decides whether a file counts as sent. Shown: validation
    against a decision table, that every datagram sent answers the datagram of its own read and is what that one should get, that the stages agree,
    that the offered file is found and delivered, that the script's URLs serve the files they name, which status which
    request gets, that the event log is the last ten events of each machine.
  \<^item> \<^verbatim>\<open>Server_Lifecycle\<close>: \<^verbatim>\<open>Serve\<close> and \<^verbatim>\<open>Shutdown\<close> of
    \<^verbatim>\<open>server/server.go\<close>. Opening the listeners with roll-back, and the goroutines with their channel as a step
    relation with every interleaving: the steps of Serve's own goroutine, those of the services, which end only by a failure of their own or by a
    closed socket, and calls of Shutdown. Both servers are interpretations of the locale \<open>supervision\<close>, with four services and
    with one. Shown: after Shutdown Serve never waits for anybody and returns with all listeners closed, with two calls no service waits to report, with
    four calls one can wait for ever.
  \<^item> \<^verbatim>\<open>Booters\<close>, \<^verbatim>\<open>Url_Sign\<close>: \<^verbatim>\<open>booters/booters.go\<close>,
    \<^verbatim>\<open>utils/urlsign.go\<close>. The static booter and the one that asks a service, sealed identifiers over base64.
    Shown: identifiers lead back to the configured files and to nothing else, sealed identifiers open to the service's URLs.
  \<^item> \<^verbatim>\<open>Pcap\<close>: \<^verbatim>\<open>test/pcap\<close>, the capture files the codecs are tested with. Shown: the round
    trip in either byte order.
  \<^item> This theory composes them: the boot of one machine, with the state handed from service to service and other machines in
    between, from the first discovery to the kernel's bytes and the five entries of its event log; that each service ends with
    the failure of reading its own socket and with nothing else, so that no client can stop one on the portable socket (on the Linux
    socket a truncated UDP packet can), and closing the listeners stops them all.
  \<^item> \<^verbatim>\<open>Example_Boot\<close>: \<^verbatim>\<open>examples/boot.go\<close>, the library put together for the Debian
    installer. Shown, in this theory: its offers lead to the installer's kernel.

  \<^bold>\<open>Bounds.\<close> Recursions are structural or have a measure (bytes left, reads left, attempts left); the only search
  that may not end is the pool's. The receive buffers are 1500 bytes, TFTP requests 512, the event log ten events a machine,
  the channel six slots, as in the sources. Where a property bounds a length, as of the list of initrds by \<open>2 ^ 63\<close>, the bound is that of the integer the code uses.

  \<^bold>\<open>Not modelled.\<close> Code outside \<^verbatim>\<open>src/\<close> is an argument: sockets, clocks and randomness, the
  file system, HTTP clients, the kernel's filter machine (its documented instructions are a hypothesis), authenticated
  encryption (that it opens what it sealed is a hypothesis). So are the parts of the standard library that would be
  programs of their own: template execution, JSON decoding, URL parsing and resolution, \<^verbatim>\<open>%q\<close> and
  \<^verbatim>\<open>%v\<close>, the redirects of the HTTP multiplexer to clean paths. Error texts that only reach a log are constructors.
  Left out: \<^verbatim>\<open>assets/\<close> (generated data) and \<^verbatim>\<open>log/\<close> (the set-up of a
  log library). Data races are outside the model: the pool's and the event log's operations run under their mutexes and are
  atomic steps.
\<close>

section \<open>The boot of one machine\<close>

text \<open>The URL offered to the iPXE of a static booter's server yields the script, whenever it is asked for.\<close>

lemma static_script:
  assumes "make_static_booter run sp = Inr b" and "Efi sp = []" and "Booter s = static_booter_of w quote L b"
    and "unmarshal raw = Inr pkt" and "validate_dhcp pkt = Inr (mach, FirmwarePixiecoreIpxe)"
    and "ipxe_script other run' mach (staticSpec b) (dotted ip @ '':'' @ format_int (HTTPPort s)) (static_boot_file_name L b) = Inr script"
  shows "\<exists>r. client_request (offered_file s mach ip FirmwarePixiecoreIpxe) = Some r \<and>
    serve_http quote other run' s r st =
      Some (\<lparr>Status = 200, ContentType = Some ''text/plain'', ContentLength = None, Body = bytes_of script\<rparr>,
        log_event (HardwareAddr pkt) machineStateIpxeScript ''Sent iPXE boot script'' st)"
proof -
  have booter: "BootSpec (Booter s) (Moment st) mach = Inr (Some (staticSpec b))" "boot_file_namer (Booter s) = static_boot_file_name L b"
    by (simp_all add: assms(3) static_booter_of_def boot_file_namer_def)
  obtain cmdline where "staticSpec b = \<lparr>Kernel = ''kernel'', Initrd = initrd_ids 0 (Initrd sp), Efi = [], Cmdline = cmdline,
      BootMessage = BootMessage sp, IpxeScript = []\<rparr>"
    by (rule make_static_booter_kernel [OF assms(1,2)])
  then have "Efi (staticSpec b) = []" by simp
  then show ?thesis
    using assms(6) booter(2) by (intro offered_script [OF assms(4,5) booter(1)]) simp_all
qed

text \<open>The script names the kernel by a URL that yields its bytes, whenever it is asked for.\<close>

lemma static_kernel:
  assumes "make_static_booter run sp = Inr b" and "Efi sp = []"
    and "Booter s = static_booter_of w quote L b" and "serve_file w (Kernel sp) = Inr ((content, None), sz)"
    and "unmarshal raw = Inr pkt" and "validate_dhcp pkt = Inr (mach, FirmwarePixiecoreIpxe)"
    and "ipxe_script other run' mach (staticSpec b) (dotted ip @ '':'' @ format_int (HTTPPort s)) (static_boot_file_name L b) = Inr script"
    and "sz < 0 \<or> int (length content) \<le> sz"
  shows "\<exists>pre url post r. script = pre @ url @ [CHR 0x0A] @ post \<and> client_request url = Some r \<and>
    (\<forall>st. serve_http quote other run' s r st =
      Some (\<lparr>Status = 200, ContentType = None, ContentLength = (if 0 \<le> sz then Some sz else None), Body = content\<rparr>,
        log_event (HardwareAddr pkt) machineStateKernel (''Sent kernel '' @ quote ''kernel'') st))"
proof -
  let ?host = "dotted ip @ '':'' @ format_int (HTTPPort s)"
  let ?url = "''http://'' @ ?host @ ''/_/file?'' @ fetch_query ''kernel'' ''kernel'' (MAC mach)"
  obtain cmdline where b: "staticKernel b = Kernel sp" and
      sp: "staticSpec b = \<lparr>Kernel = ''kernel'', Initrd = initrd_ids 0 (Initrd sp), Efi = [], Cmdline = cmdline,
        BootMessage = BootMessage sp, IpxeScript = []\<rparr>"
    by (rule make_static_booter_kernel [OF assms(1,2)])
  have mach: "MAC mach = HardwareAddr pkt" "mac_length (length (MAC mach))"
    using validated [OF assms(6)] validated_firmware_six [OF assms(5,6)] by (simp_all add: mac_length_def)
  have script: "\<exists>pre post. script = pre @ ?url @ [CHR 0x0A] @ post"
    using sp by (intro script_contains [OF assms(7) _ host_plain(2)]) simp_all
  have served: "\<exists>r. client_request ?url = Some r \<and> serve_http quote other run' s r st =
      Some (\<lparr>Status = 200, ContentType = None, ContentLength = (if 0 \<le> sz then Some sz else None), Body = content\<rparr>,
        log_event (HardwareAddr pkt) machineStateKernel (''Sent kernel '' @ quote ''kernel'') st)" for st
  proof -
    have "ReadBootFile (Booter s) (Moment st) ''kernel'' = Inr ((content, None), sz)"
      by (simp add: assms(3,4) static_booter_of_def static_read_def b)
    from fetch_served [where quote = quote and other = other and run = run' and kind = "''kernel''", OF host_plain(1) [of ip "HTTPPort s"] _ mach(2) _ this assms(8)]
    show ?thesis by (auto simp: mach(1) split del: if_split)
  qed
  then obtain r where "client_request ?url = Some r" by blast
  moreover from this served have "serve_http quote other run' s r st =
      Some (\<lparr>Status = 200, ContentType = None, ContentLength = (if 0 \<le> sz then Some sz else None), Body = content\<rparr>,
        log_event (HardwareAddr pkt) machineStateKernel (''Sent kernel '' @ quote ''kernel'') st)" for st by fastforce
  ultimately show ?thesis using script by blast
qed

text \<open>
  From the offer to the kernel: a machine that runs the server's iPXE and asks for its boot file, when the server boots
  machines with a static spec, is offered a URL that yields the boot script of that spec; the script has a line with a URL
  that yields the very bytes of the configured kernel. Both fetches are logged for the machine.
\<close>

theorem static_boot_chain:
  assumes "make_static_booter run sp = Inr b" and "Efi sp = []"
    and "Booter s = static_booter_of w quote L b" and "serve_file w (Kernel sp) = Inr ((content, None), sz)"
    and "unmarshal raw = Inr pkt" and "validate_dhcp pkt = Inr (mach, FirmwarePixiecoreIpxe)"
    and "ipxe_script other run' mach (staticSpec b) (dotted ip @ '':'' @ format_int (HTTPPort s)) (static_boot_file_name L b) = Inr script"
    and "sz < 0 \<or> int (length content) \<le> sz"
  shows "\<exists>r pre url post r' st'. client_request (offered_file s mach ip FirmwarePixiecoreIpxe) = Some r \<and>
    st' = log_event (HardwareAddr pkt) machineStateIpxeScript ''Sent iPXE boot script'' st \<and>
    serve_http quote other run' s r st =
      Some (\<lparr>Status = 200, ContentType = Some ''text/plain'', ContentLength = None, Body = bytes_of script\<rparr>, st') \<and>
    script = pre @ url @ [CHR 0x0A] @ post \<and> client_request url = Some r' \<and>
    serve_http quote other run' s r' st' =
      Some (\<lparr>Status = 200, ContentType = None, ContentLength = (if 0 \<le> sz then Some sz else None), Body = content\<rparr>,
        log_event (HardwareAddr pkt) machineStateKernel (''Sent kernel '' @ quote ''kernel'') st')"
  using static_script [OF assms(1-3,5-7)] static_kernel [OF assms] by meson

definition plain_booter :: static_booter where
  "plain_booter = \<lparr>staticKernel = ''/vmlinuz'', staticInitrd = [], otherIDs = [], staticEfi = [],
     staticSpec = \<lparr>Kernel = ''kernel'', Initrd = [], Efi = [], Cmdline = [], BootMessage = [], IpxeScript = []\<rparr>\<rparr>"

definition plain_server :: boot_server where
  "plain_server = sample_server\<lparr>Booter := static_booter_of sample_world id sample_urls plain_booter, Ipxe := [FirmwareEFI64 \<mapsto> Some [7, 8, 9]]\<rparr>"

definition plain_spec :: spec where
  "plain_spec = \<lparr>Kernel = ''/vmlinuz'', Initrd = [], Efi = [], Cmdline = [], BootMessage = [], IpxeScript = []\<rparr>"

definition plain_request :: rrq where
  "plain_request = \<lparr>Filename = tftp_path [2, 0, 0, 0, 0, 1] FirmwareEFI64, BlockSize = 0, WantSize = False\<rparr>"

definition quiet :: "(bytes \<times> udp_addr \<times> int option) server_state" where
  "quiet = \<lparr>Events = (\<lambda>_. []), Sent = [], Moment = 0\<rparr>"

lemma plain_server_fields [simp]:
  "Booter plain_server = static_booter_of sample_world id sample_urls plain_booter" "HTTPPort plain_server = 80"
  "Ipxe plain_server FirmwareEFI64 = Some (Some [7, 8, 9])"
  by (simp_all add: plain_server_def)

lemma plain_booter_made: "make_static_booter (\<lambda>f tpl. run_pieces f []) plain_spec = Inr plain_booter"
  by (simp add: make_static_booter_def expand_cmdline_def trim_space_def newline_def plain_booter_def plain_spec_def)

lemma plain_kernel_served: "Efi plain_spec = []" "serve_file sample_world (Kernel plain_spec) = Inr (([1, 2, 3], None), 3)"
  by (simp_all add: plain_spec_def serve_file_def sample_world_def open_local_def has_prefix_iff)

lemma plain_kernel_whole: "(3 :: int) < 0 \<or> int (length [1, 2, 3 :: byte]) \<le> 3"
  by simp

lemma plain_script:
  "\<exists>script. ipxe_script (\<lambda>_ _. []) text_only mach (staticSpec plain_booter) host (static_boot_file_name sample_urls plain_booter) = Inr script"
proof -
  have "expand_cmdline text_only f [] () = (Inr [], ())" for f
    by (simp add: expand_cmdline_def trim_space_def text_only_def newline_def)
  then show ?thesis by (simp add: ipxe_script_def plain_booter_def Let_def)
qed

lemma samples_boot: "is_boot_dhcp (received sample_discover) = Inr ()" "is_boot_dhcp (received chained_discover) = Inr ()"
  by code_simp+

definition neighbour :: packet where
  "neighbour = (received sample_discover)\<lparr>HardwareAddr := [2, 0, 0, 0, 0, 2]\<rparr>"

theorem static_boot_chain_witness:
  "\<exists>r url r' st1 st2. client_request (offered_file plain_server \<lparr>MAC = [2, 0, 0, 0, 0, 1], Arch = ArchX64\<rparr> [10, 0, 0, 1] FirmwarePixiecoreIpxe) = Some r \<and>
     client_request url = Some r' \<and>
     serve_http id (\<lambda>_ _. []) text_only plain_server r' (st1 :: (bytes \<times> udp_addr \<times> int option) server_state) =
       Some (\<lparr>Status = 200, ContentType = None, ContentLength = Some 3, Body = [1, 2, 3]\<rparr>, st2)"
proof -
  obtain script where script: "ipxe_script (\<lambda>_ _. []) text_only \<lparr>MAC = [2, 0, 0, 0, 0, 1], Arch = ArchX64\<rparr> (staticSpec plain_booter)
      (dotted [10, 0, 0, 1] @ '':'' @ format_int (HTTPPort plain_server)) (static_boot_file_name sample_urls plain_booter) = Inr script"
    using plain_script by blast
  obtain raw where raw: "unmarshal raw = Inr (received chained_discover)" using chained_discover_ok by blast
  from static_boot_chain [where quote = id and st = quiet, OF plain_booter_made plain_kernel_served(1) plain_server_fields(1)
      plain_kernel_served(2) raw chained_discover_valid script plain_kernel_whole]
  show ?thesis by fastforce
qed

text \<open>What other machines do in between: any change of the state that keeps this machine's events.\<close>

definition leaves_alone :: "bytes \<Rightarrow> ('out server_state \<Rightarrow> 'out server_state) \<Rightarrow> bool" where
  "leaves_alone mac g \<longleftrightarrow> (\<forall>st. Events (g st) (mac_string mac) = Events st (mac_string mac))"

lemma other_event_leaves_alone: "mac' \<noteq> mac \<Longrightarrow> leaves_alone mac (log_event mac' state msg)"
  by (simp add: leaves_alone_def log_event_def add_event_at mac_string_inj)

lemma other_discovery_leaves_alone: "HardwareAddr pkt \<noteq> mac \<Longrightarrow> leaves_alone mac (handle_dhcp s send refuse pkt intf)"
  by (auto simp: leaves_alone_def handle_dhcp_def Let_def log_event_def add_event_at mac_string_inj split: sum.splits option.splits)

lemma log_event_at:
  "Events (log_event mac state msg st) (mac_string mac) =
     last_events (Events st (mac_string mac) @ [\<lparr>Timestamp = Moment st, State = state, Message = msg\<rparr>])"
  by (simp add: log_event_def add_event_at)

text \<open>
  C1. The whole boot of a machine that talks to all the services in turn, in the order a boot takes: the firmware's discovery is
  answered with the path of the binary for it; fetched by TFTP, the binary arrives whole; the discovery of the iPXE in it,
  from the same machine, is answered with the URL of the script; the script has a URL that yields the kernel. The state
  is handed from service to service, and in between other machines may do anything that is not logged for this one. The size
  the booter gives for the kernel, if any, is not below its length. At the end
  the machine's event log has the five stages in their order behind what it held before, as far as it holds ten.
\<close>

theorem network_boot:
  assumes "make_static_booter run sp = Inr b" and "Efi sp = []"
    and "Booter s = static_booter_of w quote L b" and "serve_file w (Kernel sp) = Inr ((content, None), sz)"
    and "interface_ip intf = Inr ip" and "0 \<le> HTTPPort s" and "HTTPPort s < 65536"
    and "unmarshal raw = Inr pkt" and "is_boot_dhcp pkt = Inr ()" and "validate_dhcp pkt = Inr (mach, fw)"
    and "fw \<noteq> FirmwareX86Ipxe" and "fw \<noteq> FirmwarePixiecoreIpxe" and "Ipxe s fw = Some (Some bin)"
    and "Filename req = offered_file s mach ip fw" and "BlockSize req = 0 \<or> 8 \<le> BlockSize req \<and> BlockSize req \<le> 65464"
    and "refuses c = (\<lambda>_. None)" and "sent c = []"
    and "reads_left c = (if wants_oack req (int (length bin)) then [Received (ack_packet 0)] else []) @
      map (\<lambda>i. Received (ack_packet (1 + word_of_nat i))) [0..<length (blocks (block_bytes boot_tftp req) bin)]"
    and "unmarshal raw' = Inr pkt'" and "is_boot_dhcp pkt' = Inr ()" and "validate_dhcp pkt' = Inr (mach', FirmwarePixiecoreIpxe)"
    and "HardwareAddr pkt' = HardwareAddr pkt"
    and "ipxe_script other run' mach' (staticSpec b) (dotted ip @ '':'' @ format_int (HTTPPort s)) (static_boot_file_name L b) = Inr script"
    and "\<forall>g \<in> {ga, gb, gc, gd}. leaves_alone (HardwareAddr pkt) g"
    and "sz < 0 \<or> int (length content) \<le> sz"
  shows "\<exists>bs addr i offer c' bs' addr' i' offer' r pre url post r' st1 st2 st3 st4 st5 es.
    handle_dhcp s send (\<lambda>_. None) pkt intf st = st1 \<and> Sent st1 = Sent st @ [send bs addr i] \<and>
    unmarshal bs = Inr offer \<and> TransactionID offer = TransactionID pkt \<and> BootFilename offer = Filename req \<and>
    transfer_and_log quote s peer req (Inr c) (ga st1) = ((None, Some c'), st2) \<and>
    sent c' = transfer_packets boot_tftp req (int (length bin)) bin \<and>
    concat (map (drop 4) (data_packets (block_bytes boot_tftp req) 1 bin)) = bin \<and>
    handle_dhcp s send (\<lambda>_. None) pkt' intf (gb st2) = st3 \<and> Sent st3 = Sent (gb st2) @ [send bs' addr' i'] \<and>
    unmarshal bs' = Inr offer' \<and> TransactionID offer' = TransactionID pkt' \<and> client_request (BootFilename offer') = Some r \<and>
    serve_http quote other run' s r (gc st3) =
      Some (\<lparr>Status = 200, ContentType = Some ''text/plain'', ContentLength = None, Body = bytes_of script\<rparr>, st4) \<and>
    script = pre @ url @ [CHR 0x0A] @ post \<and> client_request url = Some r' \<and>
    serve_http quote other run' s r' (gd st4) =
      Some (\<lparr>Status = 200, ContentType = None, ContentLength = (if 0 \<le> sz then Some sz else None), Body = content\<rparr>, st5) \<and>
    Events st5 (mac_string (HardwareAddr pkt)) = last_events (Events st (mac_string (HardwareAddr pkt)) @ es) \<and>
    map State es = [machineStateProxyDHCP, machineStateTFTP, machineStateProxyDHCPIpxe, machineStateIpxeScript, machineStateKernel]"
proof -
  let ?mac = "HardwareAddr pkt"
  have spec: "BootSpec (Booter s) t m = Inr (Some (staticSpec b))" for t m by (simp add: assms(3) static_booter_of_def)
  obtain bs addr i offer where one: "handle_dhcp s send (\<lambda>_. None) pkt intf st =
        (log_event ?mac machineStateProxyDHCP ''Offering to boot'' st)\<lparr>Sent := Sent st @ [send bs addr i]\<rparr>"
      "unmarshal bs = Inr offer" "TransactionID offer = TransactionID pkt" "BootFilename offer = offered_file s mach ip fw"
    using handle_dhcp_offers [OF assms(8-10) spec assms(5-7)] assms(12) by fastforce
  define st1 where "st1 = (log_event ?mac machineStateProxyDHCP ''Offering to boot'' st)\<lparr>Sent := Sent st @ [send bs addr i]\<rparr>"
  define st2 where "st2 = log_event ?mac machineStateTFTP (''Sent iPXE to '' @ peer) (ga st1)"
  obtain c' where two: "transfer_and_log quote s peer req (Inr c) (ga st1) = ((None, Some c'), st2)"
      "sent c' = transfer_packets boot_tftp req (int (length bin)) bin"
    unfolding st2_def using boot_transfer(2) [OF assms(8,10-18)] by blast
  obtain bs' addr' i' offer' where three: "handle_dhcp s send (\<lambda>_. None) pkt' intf (gb st2) =
        (log_event ?mac machineStateProxyDHCPIpxe ''Offering to boot iPXE'' (gb st2))\<lparr>Sent := Sent (gb st2) @ [send bs' addr' i']\<rparr>"
      "unmarshal bs' = Inr offer'" "TransactionID offer' = TransactionID pkt'"
      "BootFilename offer' = offered_file s mach' ip FirmwarePixiecoreIpxe"
    using handle_dhcp_offers [OF assms(19-21) spec assms(5-7)] assms(22) by fastforce
  define st3 where "st3 = (log_event ?mac machineStateProxyDHCPIpxe ''Offering to boot iPXE'' (gb st2))
    \<lparr>Sent := Sent (gb st2) @ [send bs' addr' i']\<rparr>"
  define st4 where "st4 = log_event ?mac machineStateIpxeScript ''Sent iPXE boot script'' (gc st3)"
  define st5 where "st5 = log_event ?mac machineStateKernel (''Sent kernel '' @ quote ''kernel'') (gd st4)"
  obtain r where four: "client_request (BootFilename offer') = Some r" "serve_http quote other run' s r (gc st3) =
      Some (\<lparr>Status = 200, ContentType = Some ''text/plain'', ContentLength = None, Body = bytes_of script\<rparr>, st4)"
    unfolding st4_def three(4) using static_script [where quote = quote, OF assms(1-3,19,21,23)] assms(22) by fastforce
  obtain pre url post r' where five: "script = pre @ url @ [CHR 0x0A] @ post" "client_request url = Some r'"
      "serve_http quote other run' s r' (gd st4) =
        Some (\<lparr>Status = 200, ContentType = None, ContentLength = (if 0 \<le> sz then Some sz else None), Body = content\<rparr>, st5)"
    unfolding st5_def using static_kernel [where quote = quote, OF assms(1-4,19,21,23,25)] assms(22) by metis
  have "Events (ga t) (mac_string ?mac) = Events t (mac_string ?mac)" "Events (gb t) (mac_string ?mac) = Events t (mac_string ?mac)"
      "Events (gc t) (mac_string ?mac) = Events t (mac_string ?mac)" "Events (gd t) (mac_string ?mac) = Events t (mac_string ?mac)" for t
    using assms(24) by (simp_all add: leaves_alone_def)
  then have "\<exists>es. Events st5 (mac_string ?mac) = last_events (Events st (mac_string ?mac) @ es) \<and>
      map State es = [machineStateProxyDHCP, machineStateTFTP, machineStateProxyDHCPIpxe, machineStateIpxeScript, machineStateKernel]"
    by (simp add: st5_def st4_def st3_def st2_def st1_def log_event_at last_events_snoc) (rule exI, rule conjI, rule refl, simp)
  then obtain es where es: "Events st5 (mac_string ?mac) = last_events (Events st (mac_string ?mac) @ es)"
      "map State es = [machineStateProxyDHCP, machineStateTFTP, machineStateProxyDHCPIpxe, machineStateIpxeScript, machineStateKernel]"
    by (elim exE conjE) (rule that)
  have offered: "Sent st1 = Sent st @ [send bs addr i]" "BootFilename offer = Filename req" "Sent st3 = Sent (gb st2) @ [send bs' addr' i']"
    using one(4) assms(14) by (simp_all add: st1_def st3_def)
  show ?thesis
    by (intro exI conjI) (rule one(1) [folded st1_def] one(2,3) offered two payloads_of_packets three(1) [folded st3_def] three(2,3) four five es)+
qed

theorem network_boot_witness:
  "\<exists>pkt pkt' c' r x r' st2 st4 st5.
     transfer_and_log id plain_server ''client'' plain_request (Inr \<lparr>sent = [], reads_left = [Received (ack_packet 1)], refuses = (\<lambda>_. None)\<rparr>)
       (handle_dhcp plain_server portable_send (\<lambda>_. None) neighbour sample_interface
         (handle_dhcp plain_server portable_send (\<lambda>_. None) pkt sample_interface quiet)) = ((None, Some c'), st2) \<and>
     sent c' = [data_packet 1 [7, 8, 9]] \<and>
     serve_http id (\<lambda>_ _. []) text_only plain_server r (handle_dhcp plain_server portable_send (\<lambda>_. None) pkt' sample_interface st2) =
       Some (x, st4) \<and>
     serve_http id (\<lambda>_ _. []) text_only plain_server r' st4 =
       Some (\<lparr>Status = 200, ContentType = None, ContentLength = Some 3, Body = [1, 2, 3]\<rparr>, st5) \<and>
     map State (Events st5 ''02:00:00:00:00:01'') = [0, 2, 3, 4, 5]"
proof -
  let ?g = "handle_dhcp plain_server portable_send (\<lambda>_. None) neighbour sample_interface"
  let ?mach = "\<lparr>MAC = [2, 0, 0, 0, 0, 1], Arch = ArchX64\<rparr>"
  let ?c = "\<lparr>sent = [], reads_left = [Received (ack_packet 1)], refuses = (\<lambda>_. None)\<rparr>"
  obtain raw raw' where raw: "unmarshal raw = Inr (received sample_discover)" "unmarshal raw' = Inr (received chained_discover)"
    using sample_discover_ok chained_discover_ok by blast
  obtain script where script: "ipxe_script (\<lambda>_ _. []) text_only ?mach (staticSpec plain_booter)
      (dotted [192, 168, 1, 5] @ '':'' @ format_int (HTTPPort plain_server)) (static_boot_file_name sample_urls plain_booter) = Inr script"
    using plain_script by blast
  have request: "Filename plain_request = offered_file plain_server ?mach [192, 168, 1, 5] FirmwareEFI64"
    by (simp add: plain_request_def offered_file_def)
  have "length (blocks 512 [7, 8, 9 :: byte]) = 1" by (simp add: length_blocks)
  then have reads: "reads_left ?c = (if wants_oack plain_request (int (length [7, 8, 9 :: byte])) then [Received (ack_packet 0)] else []) @
      map (\<lambda>i. Received (ack_packet (1 + word_of_nat i))) [0..<length (blocks (block_bytes boot_tftp plain_request) [7, 8, 9])]"
    by (simp add: plain_request_def wants_oack_def block_bytes_def upt_rec)
  have size: "BlockSize plain_request = 0 \<or> 8 \<le> BlockSize plain_request \<and> BlockSize plain_request \<le> 65464"
    by (simp add: plain_request_def)
  have macs: "HardwareAddr (received chained_discover) = HardwareAddr (received sample_discover)"
      "mac_string (HardwareAddr (received sample_discover)) = ''02:00:00:00:00:01''"
    by code_simp+
  have "HardwareAddr neighbour \<noteq> HardwareAddr (received sample_discover)" by code_simp
  then have apart: "\<forall>g \<in> {?g, id, id, id}. leaves_alone (HardwareAddr (received sample_discover)) g"
    using other_discovery_leaves_alone [of neighbour] by (simp add: leaves_alone_def)
  have packets: "transfer_packets boot_tftp plain_request 3 [7, 8, 9] = [data_packet 1 [7, 8, 9]]"
    by (simp add: transfer_packets_def plain_request_def wants_oack_def block_bytes_def data_packets_rec)
  have whole: "map State (last_events (Events quiet k @ es)) = [0, 2, 3, 4, 5]" if states: "map State es = [0, 2, 3, 4, 5]" for k es
  proof -
    have "length es = 5" using arg_cong [OF states, of length] by simp
    with states show ?thesis by (simp add: quiet_def last_events_def saved_events_per_machine_def)
  qed
  have "FirmwareEFI64 \<noteq> FirmwareX86Ipxe" "FirmwareEFI64 \<noteq> FirmwarePixiecoreIpxe" "0 \<le> HTTPPort plain_server" "HTTPPort plain_server < 65536"
      "refuses ?c = (\<lambda>_. None)" "sent ?c = []"
    by simp_all
  from network_boot [where quote = id and ga = ?g and gb = id and gc = id and gd = id and st = quiet and send = portable_send and peer = "''client''" and c = ?c and s = plain_server,
      OF plain_booter_made plain_kernel_served(1) plain_server_fields(1) plain_kernel_served(2) sample_interface_ip this(3,4) raw(1)
        samples_boot(1) sample_discover_valid this(1,2) plain_server_fields(3) request size this(5,6) reads raw(2) samples_boot(2)
        chained_discover_valid macs(1) script apart plain_kernel_whole]
  show ?thesis
    unfolding macs
    by (elim exE conjE, intro exI conjI) (assumption | hypsubst, assumption | simp add: packets | simp add: whole)+
qed

section \<open>The example command\<close>

text \<open>
  Run with \<^verbatim>\<open>boot\<close>, the example command listens for DHCP without binding its port, and boots the Debian
  installer: the offer to a machine in the server's iPXE leads to a script that has a URL for the installer's kernel, whose
  fetch yields what the Debian mirror serves at the moment.
\<close>

theorem example_boots_debian:
  assumes "example_main run w quote L asset denies [prog, ''boot''] = ExampleServes s opening"
    and "serve_file w debian_kernel = Inr ((content, None), sz)"
    and "unmarshal raw = Inr pkt" and "validate_dhcp pkt = Inr (mach, FirmwarePixiecoreIpxe)"
    and "BootSpec (Booter s) 0 mach = Inr (Some sp)"
    and "ipxe_script other run' mach sp (dotted ip @ '':'' @ format_int (HTTPPort s)) (boot_file_namer (Booter s)) = Inr script"
    and "sz < 0 \<or> int (length content) \<le> sz"
  shows "opening = open_listeners True denies s \<and> HTTPPort s = 80 \<and>
    (\<exists>r pre url post r' st'. client_request (offered_file s mach ip FirmwarePixiecoreIpxe) = Some r \<and>
      serve_http quote other run' s r st =
        Some (\<lparr>Status = 200, ContentType = Some ''text/plain'', ContentLength = None, Body = bytes_of script\<rparr>, st') \<and>
      script = pre @ url @ [CHR 0x0A] @ post \<and> client_request url = Some r' \<and>
      serve_http quote other run' s r' st' =
        Some (\<lparr>Status = 200, ContentType = None, ContentLength = (if 0 \<le> sz then Some sz else None), Body = content\<rparr>,
          log_event (HardwareAddr pkt) machineStateKernel (''Sent kernel '' @ quote ''kernel'') st'))"
proof -
  obtain b debian where b: "make_static_booter run debian = Inr b" "Efi debian = []" "Kernel debian = debian_kernel"
      "Booter s = static_booter_of w quote L b" "HTTPPort s = 80" "opening = open_listeners True denies s"
    by (rule example_boot_serves [OF assms(1)])
  then have kernel: "serve_file w (Kernel debian) = Inr ((content, None), sz)" using assms(2) by simp
  have "ipxe_script other run' mach (staticSpec b) (dotted ip @ '':'' @ format_int (HTTPPort s)) (static_boot_file_name L b) = Inr script"
    using assms(5,6) b(4) by (simp add: static_booter_of_def boot_file_namer_def)
  from static_boot_chain [where quote = quote and st = st, OF b(1,2,4) kernel assms(3,4) this assms(7)] b(5,6) show ?thesis
    by blast
qed

section \<open>The services together\<close>



text \<open>In particular no client can stop the server on the portable socket, as long as its sockets work.\<close>

theorem clients_cannot_stop_server:
  assumes "\<And>b src i. (b, src, i) \<in> set discoveries \<Longrightarrow> \<exists>intf. by_index i = Inr (Some intf)"
  shows "fst (serve_dhcp s portable_recv send refuse by_index ifIndex (map Inr discoveries) st) = None \<and>
    fst (serve_pxe s refuse' interfaces None (map Inr questions) st') = None \<and>
    fst (serve_tftp (None, map Inr datagrams)) = None \<and>
    fst (serve_http_listener missing [server_routes quote other run s] (map Inr fetches) st'') = None"
proof -
  have "fst (serve_dhcp s portable_recv send refuse by_index ifIndex (map Inr discoveries) st) = None"
  proof (subst serve_dhcp_result)
    have "first_failure (map portable_recv (map Inr discoveries)) = None" unfolding first_failure_portable by simp
    then show "map_option ReceiveFailed (first_failure (map portable_recv (map Inr discoveries))) = None" by simp
  qed (use assms in \<open>auto simp: portable_recv_def\<close>)
  then show ?thesis by (simp add: serve_pxe_result serve_tftp_result listener_result)
qed

text \<open>
  C22. Closing the listeners, as Serve does once it has received a report, ends all four services, whichever kind of DHCP socket
  the server has: each gets an error from its socket, whatever it has read before and whatever was done to the socket, and returns.
\<close>

theorem closing_ends_services:
  "fst (serve_dhcp s portable_recv send refuse by_index i
      (map snd (reads_until_close (conn_close \<lparr>conn_of = portable_conn, ifIndex_of = i\<rparr>) now sk as t as')) st) \<noteq> None \<and>
   fst (serve_dhcp s linux_recv send' refuse' by_index i
      (map snd (reads_until_close (conn_close \<lparr>conn_of = linux_conn port, ifIndex_of = i\<rparr>) now sk bs t bs')) st') \<noteq> None \<and>
   fst (serve_tftp (None, map snd (reads_until_close net_close now sk cs t cs'))) \<noteq> None \<and>
   fst (serve_pxe s refuse'' interfaces None (map snd (reads_until_close net_close now sk ds t ds')) st'') \<noteq> None \<and>
   fst (serve_http_listener missing [server_routes quote other run s] (map snd (reads_until_close net_close now sk fs t fs')) st3) \<noteq> None"
proof -
  have "IsClosed (snd (net_close sk))" for sk by (simp add: net_close_def)
  note ends = reads_until_close_fail [where close = net_close, OF this]
    reads_until_close_fail [where close = "conn_close \<lparr>conn_of = portable_conn, ifIndex_of = i\<rparr>", OF portable_socket.closed_by_close]
    reads_until_close_fail [where close = "conn_close \<lparr>conn_of = linux_conn port, ifIndex_of = i\<rparr>", OF linux_socket.closed_by_close]
  have "portable_recv (Inl e) = Inl (SocketFailed e)" "linux_recv (Inl e) = Inl (SocketFailed e)" for e
    by (simp_all add: portable_recv_def linux_recv_def)
  then show ?thesis
    by (intro conjI serve_dhcp_ends) (simp_all add: serve_pxe_result serve_tftp_result listener_result ends)
qed

end
